(* ===== verification/Prelude.thy ===== *)
theory Prelude
  imports Main "HOL-Library.Word" "HOL-Library.Multiset" "HOL-Library.Signed_Division"
begin

text \<open>
  Shared vocabulary of the development: the widths of the kernel's integer types, the
  error numbers that the modelled functions return, and the generic facts on lists and
  words that several components use. No definition here models a function of the driver;
  the components do.
\<close>

section \<open>Integer types and error numbers\<close>

type_synonym u8 = "8 word"
type_synonym u16 = "16 word"
type_synonym u32 = "32 word"
type_synonym u64 = "64 word"
type_synonym s32 = "32 word"

text \<open>
  The negative error numbers of the kernel as a type of their own. A C function that
  returns \<^verbatim>\<open>0\<close> or \<^verbatim>\<open>-ERRNO\<close> is modelled with result type \<open>errno + 'a\<close>: \<open>Inl e\<close>
  stands for \<^verbatim>\<open>return -e\<close>, and \<open>Inr\<close> carries the updated state.
\<close>

datatype errno = ENOSPC | EINVAL | ENOMEM | ERANGE | EACCES | EBUSY | EPERM | ENOENT | EINTR

named_theorems lock_simps \<open>unfolding rules of the operations on the hardware lock\<close>

section \<open>Lists\<close>

lemma sorted_wrt_middle:
  assumes "transp P"
  shows "sorted_wrt P (xs @ y # ys) \<longleftrightarrow>
    sorted_wrt P xs \<and> sorted_wrt P ys \<and> (\<forall>x\<in>set xs. P x y) \<and> (\<forall>z\<in>set ys. P y z)"
  using assms by (auto simp: sorted_wrt_append dest: transpD)

lemma sorted_wrt_distinct_mono:
  "sorted_wrt P xs \<Longrightarrow> distinct xs \<Longrightarrow>
   (\<And>x y. x \<in> set xs \<Longrightarrow> y \<in> set xs \<Longrightarrow> x \<noteq> y \<Longrightarrow> P x y \<Longrightarrow> Q x y) \<Longrightarrow> sorted_wrt Q xs"
  by (induction xs) auto

lemma sorted_wrt_pair:
  "sorted_wrt P xs \<Longrightarrow> x \<in> set xs \<Longrightarrow> y \<in> set xs \<Longrightarrow> x \<noteq> y \<Longrightarrow> P x y \<or> P y x"
  by (induction xs) auto

lemma distinct_split_unique:
  assumes "xs @ x # ys = us @ x # vs" and "distinct (xs @ x # ys)"
  shows "xs = us \<and> ys = vs"
proof -
  have "x \<notin> set xs" "x \<notin> set ys" "x \<notin> set us" "x \<notin> set vs"
    using assms by (auto dest: arg_cong [where f = distinct])
  then show ?thesis
    using assms(1) by (metis append_Cons_eq_iff)
qed

section \<open>Words\<close>

lemma unat_64_less: "unat w < 2 ^ 64" for w :: u64
proof -
  have "unat w < 2 ^ LENGTH(64)" by (rule unsigned_less)
  then show ?thesis by simp
qed

section \<open>Signed words\<close>

text \<open>
  A C \<^verbatim>\<open>int\<close> is a 32-bit word that is read with \<open>sint\<close>; the kernel is compiled with wrapping arithmetic.
  Its division truncates towards zero.
\<close>

definition s32_div :: "s32 \<Rightarrow> s32 \<Rightarrow> s32" where
  "s32_div a b = word_of_int (sint a sdiv sint b)"

lemma sint_range: "- (2 ^ 31) \<le> sint a" "sint a < 2 ^ 31" for a :: s32
  using sint_ge [of a] sint_lt [of a] by simp_all

lemma sint_diff: "- (2 ^ 31) \<le> sint a - sint b \<Longrightarrow> sint a - sint b < 2 ^ 31 \<Longrightarrow> sint (a - b) = sint a - sint b"
  for a b :: s32
  by (simp add: sint_word_ariths signed_take_bit_int_eq_self)

lemma sint_plus: "- (2 ^ 31) \<le> sint a + sint b \<Longrightarrow> sint a + sint b < 2 ^ 31 \<Longrightarrow> sint (a + b) = sint a + sint b"
  for a b :: s32
  by (simp add: sint_word_ariths signed_take_bit_int_eq_self)

lemma sint_of_int: "- (2 ^ 31) \<le> k \<Longrightarrow> k < 2 ^ 31 \<Longrightarrow> sint (word_of_int k :: s32) = k"
  by (simp add: signed_of_int signed_take_bit_int_eq_self)

lemma s32_div_pos:
  assumes "0 \<le> sint a" and "0 < sint b"
  shows "sint (s32_div a b) = sint a div sint b"
proof -
  have "sint a sdiv sint b = sint a div sint b"
    using assms by (cases "sint a = 0") (simp_all add: signed_divide_int_def sgn_if)
  moreover have "0 \<le> sint a div sint b" "sint a div sint b \<le> sint a"
    using assms zdiv_mono2 [of "sint a" 1 "sint b"] by (simp_all add: pos_imp_zdiv_nonneg_iff)
  ultimately show ?thesis
    unfolding s32_div_def using sint_range [of a] by (subst sint_of_int) simp_all
qed

lemma mult_div_le: "0 < d \<Longrightarrow> d * (w div d) \<le> w" for d w :: int
  using mult_div_mod_eq [of d w] pos_mod_sign [of d w] by linarith

lemma div_less_mult: "w div d < m \<longleftrightarrow> w < m * d" if d: "0 < d" for w d m :: int
proof
  assume "w div d < m"
  then have "d * (w div d + 1) \<le> d * m" using d by simp
  then have "d * (w div d) + d \<le> m * d" by (simp add: algebra_simps)
  moreover have "d * (w div d) + w mod d = w" by simp
  ultimately show "w < m * d" using pos_mod_bound [OF d, of w] by linarith
next
  assume w: "w < m * d"
  show "w div d < m"
  proof (rule ccontr)
    assume "\<not> w div d < m"
    then have "d * m \<le> d * (w div d)" using d by simp
    with w mult_div_le [OF d, of w] show False by (simp add: algebra_simps)
  qed
qed

section \<open>Optional values\<close>

text \<open>The first element of a list that may be empty.\<close>

definition hd_option :: "'a list \<Rightarrow> 'a option" where
  "hd_option xs = (case xs of [] \<Rightarrow> None | x # _ \<Rightarrow> Some x)"

lemma hd_option_simps [simp]: "hd_option [] = None" "hd_option (x # xs) = Some x"
  by (simp_all add: hd_option_def)

end
