(* ===== verification/RBTree.thy ===== *)
theory RBTree
  imports Prelude
begin

text \<open>
  The red-black trees of the LinuxKPI layer: \<^verbatim>\<open>linux_rbtree.c\<close> with the inline parts of
  \<^verbatim>\<open>rbtree.h\<close> and \<^verbatim>\<open>rbtree_augmented.h\<close>.

  A node of the C tree holds its colour and its parent in \<^verbatim>\<open>__rb_parent_color\<close> and its two
  children in \<^verbatim>\<open>rb_left\<close> and \<^verbatim>\<open>rb_right\<close>. Here a tree is a datatype whose nodes carry the
  colour, the element (the structure the \<^verbatim>\<open>rb_node\<close> is embedded in) and the augmented value
  of that structure. A pointer into the tree is a position: the subtree at that node and the
  path of frames that leads from it to the root, so that \<^verbatim>\<open>rb_parent\<close> is the first frame.
  The loops of the C code that climb the tree recurse on the path. Dereferencing \<^verbatim>\<open>NULL\<close> is
  the value \<open>None\<close>; that it does not happen on a red-black tree is proved below.

  The augmented callbacks are those that \<^verbatim>\<open>RB_DECLARE_CALLBACKS\<close> generates from a function
  \<^verbatim>\<open>rbcompute\<close>, here \<open>f\<close>, which computes the value of a node from its element and from the
  values of its children. The callbacks of the plain trees (\<^verbatim>\<open>dummy_callbacks\<close>) do nothing; they
  are the same functions at the augmented type \<open>unit\<close>, where there is nothing to change.
\<close>

section \<open>Trees and positions\<close>

datatype rb_color = RB_RED | RB_BLACK

datatype ('a, 'b) rb_tree =
  RB_NULL
| RB_Node "('a, 'b) rb_tree" rb_color 'a 'b "('a, 'b) rb_tree"

datatype ('a, 'b) rb_frame =
  LeftOf rb_color 'a 'b "('a, 'b) rb_tree"
| RightOf "('a, 'b) rb_tree" rb_color 'a 'b

type_synonym ('a, 'b) rb_path = "('a, 'b) rb_frame list"
type_synonym ('a, 'b) rb_compute = "'a \<Rightarrow> 'b option \<Rightarrow> 'b option \<Rightarrow> 'b"

record ('a, 'b) rb_root_cached =
  rb_root :: "('a, 'b) rb_tree"
  rb_leftmost :: "'a option"

definition RB_ROOT_CACHED :: "('a, 'b) rb_root_cached" where
  "RB_ROOT_CACHED = \<lparr>rb_root = RB_NULL, rb_leftmost = None\<rparr>"

fun rb_plug :: "('a, 'b) rb_tree \<Rightarrow> ('a, 'b) rb_path \<Rightarrow> ('a, 'b) rb_tree" where
  "rb_plug t [] = t"
| "rb_plug t (LeftOf c x a r # ps) = rb_plug (RB_Node t c x a r) ps"
| "rb_plug t (RightOf l c x a # ps) = rb_plug (RB_Node l c x a t) ps"

fun rb_aug :: "('a, 'b) rb_tree \<Rightarrow> 'b option" where
  "rb_aug RB_NULL = None"
| "rb_aug (RB_Node l c x a r) = Some a"

fun rb_color_of :: "('a, 'b) rb_tree \<Rightarrow> rb_color" where
  "rb_color_of RB_NULL = RB_BLACK"
| "rb_color_of (RB_Node l c x a r) = c"

text \<open>\<^verbatim>\<open>rb_set_parent_color(rb, p, color)\<close>, where the callers guard it with \<^verbatim>\<open>if (rb)\<close>.\<close>

fun rb_set_color :: "rb_color \<Rightarrow> ('a, 'b) rb_tree \<Rightarrow> ('a, 'b) rb_tree" where
  "rb_set_color c RB_NULL = RB_NULL"
| "rb_set_color c (RB_Node l c' x a r) = RB_Node l c x a r"

abbreviation rb_is_red :: "('a, 'b) rb_tree \<Rightarrow> bool" where
  "rb_is_red t \<equiv> rb_color_of t = RB_RED"

text \<open>
  The position of an element. The C code is given the pointer; as elements stand for
  pointers, the position is found by looking for the element.
\<close>

fun rb_locate :: "'a \<Rightarrow> ('a, 'b) rb_tree \<Rightarrow> ('a, 'b) rb_path \<Rightarrow>
    (('a, 'b) rb_tree \<times> ('a, 'b) rb_path) option" where
  "rb_locate y RB_NULL ps = None"
| "rb_locate y (RB_Node l c x a r) ps =
     (if x = y then Some (RB_Node l c x a r, ps)
      else case rb_locate y l (LeftOf c x a r # ps) of
             Some z \<Rightarrow> Some z
           | None \<Rightarrow> rb_locate y r (RightOf l c x a # ps))"

section \<open>Insertion\<close>

text \<open>
  The body of the rebalancing loop of \<^verbatim>\<open>__rb_insert\<close>. The focus is \<^verbatim>\<open>node\<close>, the first frame its
  parent, the second its grandparent. A rotation calls \<^verbatim>\<open>augment_rotate(old, new)\<close>: the value
  of \<^verbatim>\<open>old\<close> moves to \<^verbatim>\<open>new\<close> and that of \<^verbatim>\<open>old\<close> is computed again from its new children.
\<close>

definition rb_rotated :: "('a, 'b) rb_compute \<Rightarrow> ('a, 'b) rb_tree \<Rightarrow> rb_color \<Rightarrow> 'a \<Rightarrow>
    ('a, 'b) rb_tree \<Rightarrow> ('a, 'b) rb_tree" where
  "rb_rotated f l c x r = RB_Node l c x (f x (rb_aug l) (rb_aug r)) r"

fun rb_insert_loop :: "('a, 'b) rb_compute \<Rightarrow> ('a, 'b) rb_tree \<Rightarrow> ('a, 'b) rb_path \<Rightarrow>
    ('a, 'b) rb_tree option" where
  "rb_insert_loop f n [] = Some (rb_set_color RB_BLACK n)"
| "rb_insert_loop f n [LeftOf c p pa pr] =
     (if c = RB_BLACK then Some (RB_Node n c p pa pr) else None)"
| "rb_insert_loop f n [RightOf pl c p pa] =
     (if c = RB_BLACK then Some (RB_Node pl c p pa n) else None)"
| "rb_insert_loop f n (LeftOf pc p pa pr # LeftOf gc g ga gr # ps) =
     (if pc = RB_BLACK then Some (rb_plug n (LeftOf pc p pa pr # LeftOf gc g ga gr # ps))
      else if rb_is_red gr then
        rb_insert_loop f
          (RB_Node (RB_Node n RB_BLACK p pa pr) RB_RED g ga (rb_set_color RB_BLACK gr)) ps
      else
        Some (rb_plug (RB_Node n gc p ga
               (rb_rotated f (rb_set_color RB_BLACK pr) RB_RED g gr)) ps))"
| "rb_insert_loop f n (RightOf pl pc p pa # LeftOf gc g ga gr # ps) =
     (if pc = RB_BLACK then Some (rb_plug n (RightOf pl pc p pa # LeftOf gc g ga gr # ps))
      else if rb_is_red gr then
        rb_insert_loop f
          (RB_Node (RB_Node pl RB_BLACK p pa n) RB_RED g ga (rb_set_color RB_BLACK gr)) ps
      else case n of
        RB_NULL \<Rightarrow> None
      | RB_Node nl nc x xa nr \<Rightarrow>
          Some (rb_plug (RB_Node (rb_rotated f pl RB_RED p (rb_set_color RB_BLACK nl)) gc x ga
                 (rb_rotated f (rb_set_color RB_BLACK nr) RB_RED g gr)) ps))"
| "rb_insert_loop f n (RightOf pl pc p pa # RightOf gl gc g ga # ps) =
     (if pc = RB_BLACK then Some (rb_plug n (RightOf pl pc p pa # RightOf gl gc g ga # ps))
      else if rb_is_red gl then
        rb_insert_loop f
          (RB_Node (rb_set_color RB_BLACK gl) RB_RED g ga (RB_Node pl RB_BLACK p pa n)) ps
      else
        Some (rb_plug (RB_Node (rb_rotated f gl RB_RED g (rb_set_color RB_BLACK pl)) gc p ga n)
               ps))"
| "rb_insert_loop f n (LeftOf pc p pa pr # RightOf gl gc g ga # ps) =
     (if pc = RB_BLACK then Some (rb_plug n (LeftOf pc p pa pr # RightOf gl gc g ga # ps))
      else if rb_is_red gl then
        rb_insert_loop f
          (RB_Node (rb_set_color RB_BLACK gl) RB_RED g ga (RB_Node n RB_BLACK p pa pr)) ps
      else case n of
        RB_NULL \<Rightarrow> None
      | RB_Node nl nc x xa nr \<Rightarrow>
          Some (rb_plug (RB_Node (rb_rotated f gl RB_RED g (rb_set_color RB_BLACK nl)) gc x ga
                 (rb_rotated f (rb_set_color RB_BLACK nr) RB_RED p pr)) ps))"

text \<open>
  \<^verbatim>\<open>rb_link_node\<close> writes a node with no children into the empty link at the end of the path; its
  colour bit is 0, which is \<^verbatim>\<open>RB_RED\<close>.
\<close>

definition rb_link_node :: "'a \<Rightarrow> 'b \<Rightarrow> ('a, 'b) rb_tree" where
  "rb_link_node x a = RB_Node RB_NULL RB_RED x a RB_NULL"

definition rb_insert_color :: "('a, 'b) rb_compute \<Rightarrow> 'a \<Rightarrow> 'b \<Rightarrow> ('a, 'b) rb_path \<Rightarrow>
    ('a, 'b) rb_tree option" where
  "rb_insert_color f x a ps = rb_insert_loop f (rb_link_node x a) ps"

definition rb_insert_augmented_cached :: "('a, 'b) rb_compute \<Rightarrow> 'a \<Rightarrow> 'b \<Rightarrow> ('a, 'b) rb_path \<Rightarrow>
    bool \<Rightarrow> ('a, 'b) rb_root_cached \<Rightarrow> ('a, 'b) rb_root_cached option" where
  "rb_insert_augmented_cached f x a ps newleft root =
     map_option (\<lambda>t. \<lparr>rb_root = t,
         rb_leftmost = (if newleft then Some x else rb_leftmost root)\<rparr>)
       (rb_insert_color f x a ps)"

section \<open>Walking the tree in order\<close>

fun rb_first :: "('a, 'b) rb_tree \<Rightarrow> 'a option" where
  "rb_first RB_NULL = None"
| "rb_first (RB_Node l c x a r) = (if l = RB_NULL then Some x else rb_first l)"

fun rb_last :: "('a, 'b) rb_tree \<Rightarrow> 'a option" where
  "rb_last RB_NULL = None"
| "rb_last (RB_Node l c x a r) = (if r = RB_NULL then Some x else rb_last r)"

fun rb_up_next :: "('a, 'b) rb_path \<Rightarrow> 'a option" where
  "rb_up_next [] = None"
| "rb_up_next (RightOf l c x a # ps) = rb_up_next ps"
| "rb_up_next (LeftOf c x a r # ps) = Some x"

fun rb_up_prev :: "('a, 'b) rb_path \<Rightarrow> 'a option" where
  "rb_up_prev [] = None"
| "rb_up_prev (LeftOf c x a r # ps) = rb_up_prev ps"
| "rb_up_prev (RightOf l c x a # ps) = Some x"

fun rb_next_at :: "('a, 'b) rb_tree \<Rightarrow> ('a, 'b) rb_path \<Rightarrow> 'a option" where
  "rb_next_at RB_NULL ps = None"
| "rb_next_at (RB_Node l c x a r) ps = (if r \<noteq> RB_NULL then rb_first r else rb_up_next ps)"

fun rb_prev_at :: "('a, 'b) rb_tree \<Rightarrow> ('a, 'b) rb_path \<Rightarrow> 'a option" where
  "rb_prev_at RB_NULL ps = None"
| "rb_prev_at (RB_Node l c x a r) ps = (if l \<noteq> RB_NULL then rb_last l else rb_up_prev ps)"

definition rb_next :: "('a, 'b) rb_tree \<Rightarrow> 'a \<Rightarrow> 'a option" where
  "rb_next t x = (case rb_locate x t [] of None \<Rightarrow> None | Some (s, ps) \<Rightarrow> rb_next_at s ps)"

definition rb_prev :: "('a, 'b) rb_tree \<Rightarrow> 'a \<Rightarrow> 'a option" where
  "rb_prev t x = (case rb_locate x t [] of None \<Rightarrow> None | Some (s, ps) \<Rightarrow> rb_prev_at s ps)"

section \<open>Erasure\<close>

text \<open>
  \<^verbatim>\<open>propagate(rb, stop)\<close>: from the node at the head of the path upwards, compute the augmented
  value again and stop at the first node whose value does not change. The path given here is
  the part below \<^verbatim>\<open>stop\<close>.
\<close>

fun rb_propagate :: "('a, 'b) rb_compute \<Rightarrow> 'b option \<Rightarrow> ('a, 'b) rb_path \<Rightarrow> ('a, 'b) rb_path" where
  "rb_propagate f v [] = []"
| "rb_propagate f v (LeftOf c x a r # ps) =
     (let a' = f x v (rb_aug r)
      in if a' = a then LeftOf c x a r # ps
         else LeftOf c x a' r # rb_propagate f (Some a') ps)"
| "rb_propagate f v (RightOf l c x a # ps) =
     (let a' = f x (rb_aug l) v
      in if a' = a then RightOf l c x a # ps
         else RightOf l c x a' # rb_propagate f (Some a') ps)"

text \<open>The walk to the leftmost node of the right subtree: its position and the node itself.\<close>

fun rb_descend_min :: "('a, 'b) rb_tree \<Rightarrow> ('a, 'b) rb_path \<Rightarrow>
    ('a, 'b) rb_tree \<times> ('a, 'b) rb_path" where
  "rb_descend_min RB_NULL ps = (RB_NULL, ps)"
| "rb_descend_min (RB_Node l c x a r) ps =
     (if l = RB_NULL then (RB_Node l c x a r, ps)
      else rb_descend_min l (LeftOf c x a r # ps))"

text \<open>
  \<^verbatim>\<open>__rb_erase_augmented\<close> at a position: the child that takes the freed place, the path from there
  to the root with its augmented values brought up to date, and whether the caller has to
  rebalance at the head of that path (\<^verbatim>\<open>rebalance\<close> not \<^verbatim>\<open>NULL\<close>).
\<close>

fun rb_erase_augmented_at :: "('a, 'b) rb_compute \<Rightarrow> ('a, 'b) rb_tree \<Rightarrow> ('a, 'b) rb_path \<Rightarrow>
    (('a, 'b) rb_tree \<times> ('a, 'b) rb_path \<times> bool) option" where
  "rb_erase_augmented_at f RB_NULL ps = None"
| "rb_erase_augmented_at f (RB_Node l c x a r) ps =
     (if l = RB_NULL then
        (let child = rb_set_color c r
         in Some (child, rb_propagate f (rb_aug child) ps, r = RB_NULL \<and> c = RB_BLACK \<and> ps \<noteq> []))
      else if r = RB_NULL then
        (let tmp = rb_set_color c l in Some (tmp, rb_propagate f (rb_aug tmp) ps, False))
      else case rb_descend_min r [] of
        (RB_NULL, down) \<Rightarrow> None
      | (RB_Node sl sc s sa sr, down) \<Rightarrow>
          (let child2 = rb_set_color RB_BLACK sr;
               down' = rb_propagate f (rb_aug child2) down;
               ps' = rb_propagate f (rb_aug (rb_plug child2 down')) (RightOf l c s a # ps)
           in Some (child2, down' @ ps', sr = RB_NULL \<and> sc = RB_BLACK)))"

text \<open>
  Cases 2 to 4 of \<^verbatim>\<open>____rb_erase_color\<close>, for a node \<open>n\<close> that is the left child of \<open>p\<close> (then for the
  right child). The sibling is not red. The result is the subtree at the place of \<^verbatim>\<open>parent\<close>, and
  whether the loop goes on above it.
\<close>

fun rb_erase_left :: "('a, 'b) rb_compute \<Rightarrow> ('a, 'b) rb_tree \<Rightarrow> rb_color \<Rightarrow> 'a \<Rightarrow> 'b \<Rightarrow>
    ('a, 'b) rb_tree \<Rightarrow> (bool \<times> ('a, 'b) rb_tree) option" where
  "rb_erase_left f n pc p pa RB_NULL = None"
| "rb_erase_left f n pc p pa (RB_Node sl sc s sa sr) =
     (if rb_is_red sr then
        Some (False, RB_Node (rb_rotated f n RB_BLACK p sl) pc s pa (rb_set_color RB_BLACK sr))
      else if rb_is_red sl then
        (case sl of RB_NULL \<Rightarrow> None
         | RB_Node u1 tc t ta u2 \<Rightarrow>
             Some (False, RB_Node (rb_rotated f n RB_BLACK p u1) pc t pa
               (rb_rotated f (rb_set_color RB_BLACK u2) RB_BLACK s sr)))
      else if pc = RB_RED then
        Some (False, RB_Node n RB_BLACK p pa (RB_Node sl RB_RED s sa sr))
      else Some (True, RB_Node n pc p pa (RB_Node sl RB_RED s sa sr)))"

fun rb_erase_right :: "('a, 'b) rb_compute \<Rightarrow> ('a, 'b) rb_tree \<Rightarrow> rb_color \<Rightarrow> 'a \<Rightarrow> 'b \<Rightarrow>
    ('a, 'b) rb_tree \<Rightarrow> (bool \<times> ('a, 'b) rb_tree) option" where
  "rb_erase_right f n pc p pa RB_NULL = None"
| "rb_erase_right f n pc p pa (RB_Node sl sc s sa sr) =
     (if rb_is_red sl then
        Some (False, RB_Node (rb_set_color RB_BLACK sl) pc s pa (rb_rotated f sr RB_BLACK p n))
      else if rb_is_red sr then
        (case sr of RB_NULL \<Rightarrow> None
         | RB_Node u1 tc t ta u2 \<Rightarrow>
             Some (False, RB_Node (rb_rotated f sl RB_BLACK s (rb_set_color RB_BLACK u1)) pc t pa
               (rb_rotated f u2 RB_BLACK p n)))
      else if pc = RB_RED then
        Some (False, RB_Node (RB_Node sl RB_RED s sa sr) RB_BLACK p pa n)
      else Some (True, RB_Node (RB_Node sl RB_RED s sa sr) pc p pa n))"

text \<open>
  The loop of \<^verbatim>\<open>____rb_erase_color\<close>. Case 1 rotates a red sibling above the parent, which becomes
  red, and goes on with the sibling's inner child as the new sibling. A missing sibling is
  a \<^verbatim>\<open>NULL\<close> dereference.
\<close>

fun rb_erase_color :: "('a, 'b) rb_compute \<Rightarrow> ('a, 'b) rb_tree \<Rightarrow> ('a, 'b) rb_path \<Rightarrow>
    ('a, 'b) rb_tree option" where
  "rb_erase_color f n [] = Some n"
| "rb_erase_color f n (LeftOf pc p pa sib # ps) =
     (case sib of
        RB_NULL \<Rightarrow> None
      | RB_Node sl sc s sa sr \<Rightarrow>
          if sc = RB_RED then
            (if sl = RB_NULL then None
             else case rb_erase_left f n RB_RED p (f p (rb_aug n) (rb_aug sl))
                         (rb_set_color RB_BLACK sl) of
               None \<Rightarrow> None
             | Some (_, t) \<Rightarrow> Some (rb_plug (RB_Node t pc s pa sr) ps))
          else
            (case rb_erase_left f n pc p pa sib of
               None \<Rightarrow> None
             | Some (again, t) \<Rightarrow> if again then rb_erase_color f t ps else Some (rb_plug t ps)))"
| "rb_erase_color f n (RightOf sib pc p pa # ps) =
     (case sib of
        RB_NULL \<Rightarrow> None
      | RB_Node sl sc s sa sr \<Rightarrow>
          if sc = RB_RED then
            (if sr = RB_NULL then None
             else case rb_erase_right f n RB_RED p (f p (rb_aug sr) (rb_aug n))
                         (rb_set_color RB_BLACK sr) of
               None \<Rightarrow> None
             | Some (_, t) \<Rightarrow> Some (rb_plug (RB_Node sl pc s pa t) ps))
          else
            (case rb_erase_right f n pc p pa sib of
               None \<Rightarrow> None
             | Some (again, t) \<Rightarrow> if again then rb_erase_color f t ps else Some (rb_plug t ps)))"

definition rb_erase :: "('a, 'b) rb_compute \<Rightarrow> 'a \<Rightarrow> ('a, 'b) rb_tree \<Rightarrow> ('a, 'b) rb_tree option" where
  "rb_erase f x t =
     (case rb_locate x t [] of
        None \<Rightarrow> None
      | Some (s, ps) \<Rightarrow>
          (case rb_erase_augmented_at f s ps of
             None \<Rightarrow> None
           | Some (n, ps', rebalance) \<Rightarrow>
               if rebalance then rb_erase_color f n ps' else Some (rb_plug n ps')))"

definition rb_erase_augmented_cached :: "('a, 'b) rb_compute \<Rightarrow> 'a \<Rightarrow>
    ('a, 'b) rb_root_cached \<Rightarrow> ('a, 'b) rb_root_cached option" where
  "rb_erase_augmented_cached f x root =
     map_option (\<lambda>t. \<lparr>rb_root = t,
         rb_leftmost = (if rb_leftmost root = Some x then rb_next (rb_root root) x
                        else rb_leftmost root)\<rparr>)
       (rb_erase f x (rb_root root))"

section \<open>Replacement\<close>

text \<open>
  \<^verbatim>\<open>rb_replace_node\<close>: the new node takes the colour, the children and the parent of the victim.
  The augmented value is a field of the surrounding structure, which the callers copy.
\<close>

definition rb_replace_node :: "'a \<Rightarrow> 'a \<Rightarrow> ('a, 'b) rb_tree \<Rightarrow> ('a, 'b) rb_tree" where
  "rb_replace_node victim new t =
     (case rb_locate victim t [] of
        Some (RB_Node l c x a r, ps) \<Rightarrow> rb_plug (RB_Node l c new a r) ps
      | _ \<Rightarrow> t)"

definition rb_replace_node_cached :: "'a \<Rightarrow> 'a \<Rightarrow> ('a, 'b) rb_root_cached \<Rightarrow>
    ('a, 'b) rb_root_cached" where
  "rb_replace_node_cached victim new root =
     \<lparr>rb_root = rb_replace_node victim new (rb_root root),
      rb_leftmost = (if rb_leftmost root = Some victim then Some new else rb_leftmost root)\<rparr>"

section \<open>In-order content\<close>

fun rb_inorder :: "('a, 'b) rb_tree \<Rightarrow> 'a list" where
  "rb_inorder RB_NULL = []"
| "rb_inorder (RB_Node l c x a r) = rb_inorder l @ x # rb_inorder r"

fun rb_before :: "('a, 'b) rb_path \<Rightarrow> 'a list" where
  "rb_before [] = []"
| "rb_before (LeftOf c x a r # ps) = rb_before ps"
| "rb_before (RightOf l c x a # ps) = rb_before ps @ rb_inorder l @ [x]"

fun rb_after :: "('a, 'b) rb_path \<Rightarrow> 'a list" where
  "rb_after [] = []"
| "rb_after (LeftOf c x a r # ps) = x # rb_inorder r @ rb_after ps"
| "rb_after (RightOf l c x a # ps) = rb_after ps"

lemma rb_inorder_plug [simp]:
  "rb_inorder (rb_plug t ps) = rb_before ps @ rb_inorder t @ rb_after ps"
  by (induction t ps rule: rb_plug.induct) auto

lemma rb_inorder_set_color [simp]: "rb_inorder (rb_set_color c t) = rb_inorder t"
  by (cases t) auto

lemma rb_inorder_rotated [simp]:
  "rb_inorder (rb_rotated f l c x r) = rb_inorder l @ x # rb_inorder r"
  by (simp add: rb_rotated_def)

lemma rb_inorder_eq_Nil [simp]: "rb_inorder t = [] \<longleftrightarrow> t = RB_NULL"
  by (cases t) auto

lemma rb_aug_set_color [simp]: "rb_aug (rb_set_color c t) = rb_aug t"
  by (cases t) auto

lemma rb_plug_append: "rb_plug t (ps @ qs) = rb_plug (rb_plug t ps) qs"
  by (induction t ps rule: rb_plug.induct) auto

lemma rb_before_append [simp]: "rb_before (ps @ qs) = rb_before qs @ rb_before ps"
  by (induction ps rule: rb_before.induct) auto

lemma rb_after_append [simp]: "rb_after (ps @ qs) = rb_after ps @ rb_after qs"
  by (induction ps rule: rb_after.induct) auto

lemma rb_insert_loop_inorder:
  "rb_insert_loop f n ps = Some t \<Longrightarrow> rb_inorder t = rb_before ps @ rb_inorder n @ rb_after ps"
  by (induction f n ps rule: rb_insert_loop.induct)
    (auto split: if_splits rb_tree.splits)

lemma rb_propagate_before [simp]: "rb_before (rb_propagate f v ps) = rb_before ps"
  by (induction f v ps rule: rb_propagate.induct) (auto simp: Let_def)

lemma rb_propagate_after [simp]: "rb_after (rb_propagate f v ps) = rb_after ps"
  by (induction f v ps rule: rb_propagate.induct) (auto simp: Let_def)

lemma rb_erase_left_inorder:
  "rb_erase_left f n pc p pa s = Some (again, t) \<Longrightarrow>
   rb_inorder t = rb_inorder n @ p # rb_inorder s"
  by (cases s) (auto split: if_splits rb_tree.splits)

lemma rb_erase_right_inorder:
  "rb_erase_right f n pc p pa s = Some (again, t) \<Longrightarrow>
   rb_inorder t = rb_inorder s @ p # rb_inorder n"
  by (cases s) (auto split: if_splits rb_tree.splits)

lemma rb_erase_color_inorder:
  "rb_erase_color f n ps = Some t \<Longrightarrow> rb_inorder t = rb_before ps @ rb_inorder n @ rb_after ps"
  by (induction f n ps rule: rb_erase_color.induct)
    (auto split: if_splits rb_tree.splits option.splits
      dest!: rb_erase_left_inorder rb_erase_right_inorder)

lemma rb_descend_min_plug:
  "rb_descend_min t ps = (s, qs) \<Longrightarrow> \<exists>ds. qs = ds @ ps \<and> rb_plug s ds = t"
proof (induction t ps arbitrary: s qs rule: rb_descend_min.induct)
  case (2 l c x a r ps)
  then show ?case
    by (auto split: if_splits simp: rb_plug_append intro: exI [of _ "[]"])
qed auto

lemma rb_descend_min_node:
  "rb_descend_min t ps = (s, qs) \<Longrightarrow> t \<noteq> RB_NULL \<Longrightarrow>
   (\<exists>c x a r. s = RB_Node RB_NULL c x a r) \<and> rb_before qs = rb_before ps"
  by (induction t ps arbitrary: s qs rule: rb_descend_min.induct) (auto split: if_splits)

lemma rb_locate_plug:
  "rb_locate y t ps = Some (s, qs) \<Longrightarrow>
   (\<exists>ds. qs = ds @ ps \<and> rb_plug s ds = t) \<and> (\<exists>l c a r. s = RB_Node l c y a r)"
proof (induction y t ps arbitrary: s qs rule: rb_locate.induct)
  case (2 y l c x a r ps)
  show ?case
  proof (cases "x = y")
    case True
    with "2.prems" show ?thesis by (auto intro: exI [of _ "[]"])
  next
    case False
    with 2 show ?thesis
      by (fastforce split: option.splits simp: rb_plug_append)
  qed
qed simp

lemma rb_locate_None: "rb_locate y t ps = None \<longleftrightarrow> y \<notin> set (rb_inorder t)"
  by (induction y t ps rule: rb_locate.induct) (auto split: option.splits)

lemma rb_locate_Nil:
  assumes "y \<in> set (rb_inorder t)"
  obtains l c a r ps where "rb_locate y t [] = Some (RB_Node l c y a r, ps)"
    and "t = rb_plug (RB_Node l c y a r) ps"
proof -
  obtain s ps where s: "rb_locate y t [] = Some (s, ps)"
    using assms rb_locate_None [of y t "[]"] by (cases "rb_locate y t []") auto
  with rb_locate_plug [OF s] that show thesis by auto
qed

lemma rb_erase_augmented_at_inorder:
  assumes "rb_erase_augmented_at f (RB_Node l c x a r) ps = Some (n, qs, b)"
  shows "rb_before qs @ rb_inorder n @ rb_after qs =
    rb_before ps @ rb_inorder l @ rb_inorder r @ rb_after ps"
proof (cases "l = RB_NULL \<or> r = RB_NULL")
  case True
  with assms show ?thesis by (auto simp: Let_def split: if_splits)
next
  case False
  obtain s ds where d: "rb_descend_min r [] = (s, ds)" by fastforce
  from rb_descend_min_node [OF d] False obtain sc y sa sr
    where s: "s = RB_Node RB_NULL sc y sa sr" and b: "rb_before ds = []" by auto
  from rb_descend_min_plug [OF d] have "rb_plug s ds = r" by simp
  then have "rb_inorder r = y # rb_inorder sr @ rb_after ds"
    using s b by auto
  with assms False d s b show ?thesis
    by (auto simp: Let_def simp del: rb_propagate.simps)
qed

section \<open>The red-black invariants\<close>

fun rb_bh :: "('a, 'b) rb_tree \<Rightarrow> nat" where
  "rb_bh RB_NULL = 0"
| "rb_bh (RB_Node l c x a r) = rb_bh l + (if c = RB_BLACK then 1 else 0)"

fun rb_ok :: "('a, 'b) rb_tree \<Rightarrow> bool" where
  "rb_ok RB_NULL = True"
| "rb_ok (RB_Node l c x a r) \<longleftrightarrow> rb_ok l \<and> rb_ok r \<and> rb_bh l = rb_bh r \<and>
     (c = RB_RED \<longrightarrow> \<not> rb_is_red l \<and> \<not> rb_is_red r)"

definition rb_inv :: "('a, 'b) rb_tree \<Rightarrow> bool" where
  "rb_inv t \<longleftrightarrow> rb_ok t \<and> \<not> rb_is_red t"

fun rb_top_black :: "('a, 'b) rb_path \<Rightarrow> bool" where
  "rb_top_black [] = False"
| "rb_top_black (LeftOf c x a r # ps) = (c = RB_BLACK)"
| "rb_top_black (RightOf l c x a # ps) = (c = RB_BLACK)"

text \<open>A path into which a subtree of black height \<open>h\<close> fits.\<close>

fun rb_path_ok :: "('a, 'b) rb_path \<Rightarrow> nat \<Rightarrow> bool" where
  "rb_path_ok [] h = True"
| "rb_path_ok (LeftOf c x a r # ps) h \<longleftrightarrow> rb_ok r \<and> rb_bh r = h \<and>
     (c = RB_RED \<longrightarrow> \<not> rb_is_red r \<and> rb_top_black ps) \<and>
     rb_path_ok ps (h + (if c = RB_BLACK then 1 else 0))"
| "rb_path_ok (RightOf l c x a # ps) h \<longleftrightarrow> rb_ok l \<and> rb_bh l = h \<and>
     (c = RB_RED \<longrightarrow> \<not> rb_is_red l \<and> rb_top_black ps) \<and>
     rb_path_ok ps (h + (if c = RB_BLACK then 1 else 0))"

lemma rb_not_red [simp]: "c \<noteq> RB_RED \<longleftrightarrow> c = RB_BLACK" "c \<noteq> RB_BLACK \<longleftrightarrow> c = RB_RED"
  by (cases c; simp)+

lemma rb_color_set_color [simp]: "rb_color_of (rb_set_color RB_BLACK t) = RB_BLACK"
  by (cases t) auto

lemma rb_ok_set_black [simp]: "rb_ok t \<Longrightarrow> rb_ok (rb_set_color RB_BLACK t)"
  by (cases t) auto

lemma rb_set_black_id [simp]: "rb_color_of t = RB_BLACK \<Longrightarrow> rb_set_color RB_BLACK t = t"
  by (cases t) auto

lemma rb_bh_set_black_red [simp]:
  "rb_color_of t = RB_RED \<Longrightarrow> rb_bh (rb_set_color RB_BLACK t) = Suc (rb_bh t)"
  by (cases t) auto

lemma rb_inv_plug:
  "rb_inv (rb_plug t ps) \<longleftrightarrow> rb_ok t \<and> rb_path_ok ps (rb_bh t) \<and> (rb_is_red t \<longrightarrow> rb_top_black ps)"
proof (induction t ps rule: rb_plug.induct)
  case (1 t)
  show ?case by (auto simp: rb_inv_def)
next
  case (2 t c x a r ps)
  then show ?case by (cases c) auto
next
  case (3 t l c x a ps)
  then show ?case by (cases c) auto
qed

lemma rb_insert_loop_inv:
  "rb_ok n \<Longrightarrow> rb_is_red n \<Longrightarrow> rb_path_ok ps (rb_bh n) \<Longrightarrow>
   \<exists>t. rb_insert_loop f n ps = Some t \<and> rb_inv t"
proof (induction f n ps rule: rb_insert_loop.induct)
  case (1 f n)
  then show ?case by (auto simp: rb_inv_def)
next
  case (4 f n pc p pa pr gc g ga gr ps)
  then show ?case
    by (cases "rb_is_red gr"; cases gc) (auto simp: rb_inv_plug rb_rotated_def)
next
  case (5 f n pl pc p pa gc g ga gr ps)
  then show ?case
    by (cases "rb_is_red gr"; cases gc; cases n) (auto simp: rb_inv_plug rb_rotated_def)
next
  case (6 f n pl pc p pa gl gc g ga ps)
  then show ?case
    by (cases "rb_is_red gl"; cases gc) (auto simp: rb_inv_plug rb_rotated_def)
next
  case (7 f n pc p pa pr gl gc g ga ps)
  then show ?case
    by (cases "rb_is_red gl"; cases gc; cases n) (auto simp: rb_inv_plug rb_rotated_def)
qed (auto simp: rb_inv_def)

lemma rb_top_black_propagate [simp]: "rb_top_black (rb_propagate f v ps) = rb_top_black ps"
  by (cases ps; cases "hd ps") (auto simp: Let_def)

lemma rb_path_ok_propagate [simp]: "rb_path_ok (rb_propagate f v ps) h = rb_path_ok ps h"
  by (induction f v ps arbitrary: h rule: rb_propagate.induct) (auto simp: Let_def)

lemma rb_propagate_Nil [simp]: "rb_propagate f v ps = [] \<longleftrightarrow> ps = []"
  by (cases ps; cases "hd ps") (auto simp: Let_def)

lemma rb_erase_left_ok:
  assumes "rb_ok n" "\<not> rb_is_red n" "rb_ok s" "\<not> rb_is_red s" "rb_bh s = Suc (rb_bh n)"
  shows "\<exists>again t. rb_erase_left f n pc p pa s = Some (again, t) \<and> rb_ok t \<and>
    (if again then pc = RB_BLACK \<and> \<not> rb_is_red t \<and> rb_bh t = Suc (rb_bh n)
     else rb_bh t = Suc (rb_bh n) + (if pc = RB_BLACK then 1 else 0) \<and>
          (rb_is_red t \<longrightarrow> pc = RB_RED))"
proof (cases s)
  case RB_NULL
  with assms show ?thesis by simp
next
  case (RB_Node sl sc y sa sr)
  with assms have sc: "sc = RB_BLACK" by simp
  show ?thesis
  proof (cases "rb_is_red sr")
    case True
    with assms RB_Node sc show ?thesis by (cases sr; cases pc) (auto simp: rb_rotated_def)
  next
    case False
    show ?thesis
    proof (cases "rb_is_red sl")
      case True
      with assms RB_Node sc False show ?thesis
        by (cases sl; cases pc) (auto simp: rb_rotated_def)
    next
      case black: False
      with assms RB_Node sc False show ?thesis by (cases pc) auto
    qed
  qed
qed

lemma rb_erase_right_ok:
  assumes "rb_ok n" "\<not> rb_is_red n" "rb_ok s" "\<not> rb_is_red s" "rb_bh s = Suc (rb_bh n)"
  shows "\<exists>again t. rb_erase_right f n pc p pa s = Some (again, t) \<and> rb_ok t \<and>
    (if again then pc = RB_BLACK \<and> \<not> rb_is_red t \<and> rb_bh t = Suc (rb_bh n)
     else rb_bh t = Suc (rb_bh n) + (if pc = RB_BLACK then 1 else 0) \<and>
          (rb_is_red t \<longrightarrow> pc = RB_RED))"
proof (cases s)
  case RB_NULL
  with assms show ?thesis by simp
next
  case (RB_Node sl sc y sa sr)
  with assms have sc: "sc = RB_BLACK" by simp
  show ?thesis
  proof (cases "rb_is_red sl")
    case True
    with assms RB_Node sc show ?thesis by (cases sl; cases pc) (auto simp: rb_rotated_def)
  next
    case False
    show ?thesis
    proof (cases "rb_is_red sr")
      case True
      with assms RB_Node sc False show ?thesis
        by (cases sr; cases pc) (auto simp: rb_rotated_def)
    next
      case black: False
      with assms RB_Node sc False show ?thesis by (cases pc) auto
    qed
  qed
qed

lemma rb_erase_color_inv:
  "rb_ok n \<Longrightarrow> \<not> rb_is_red n \<Longrightarrow> rb_path_ok ps (Suc (rb_bh n)) \<Longrightarrow>
   \<exists>t. rb_erase_color f n ps = Some t \<and> rb_inv t"
proof (induction f n ps rule: rb_erase_color.induct)
  case (1 f n)
  then show ?case by (simp add: rb_inv_def)
next
  case (2 f n pc p pa sib ps)
  then obtain sl sc s sa sr where sib: "sib = RB_Node sl sc s sa sr"
    by (cases sib) auto
  show ?case
  proof (cases sc)
    case RB_RED
    with 2 sib have sl: "rb_ok sl" "\<not> rb_is_red sl" "rb_bh sl = Suc (rb_bh n)" "sl \<noteq> RB_NULL"
      and pc: "pc = RB_BLACK" by auto
    from rb_erase_left_ok [OF "2.prems"(1,2) sl(1-3),
        of f RB_RED p "f p (rb_aug n) (rb_aug sl)"]
    obtain t where "rb_erase_left f n RB_RED p (f p (rb_aug n) (rb_aug sl)) sl = Some (False, t)"
      "rb_ok t" "rb_bh t = Suc (rb_bh n)"
      by (auto split: if_splits)
    with 2 sib RB_RED sl pc show ?thesis by (auto simp: rb_inv_plug)
  next
    case RB_BLACK
    with 2 sib have s: "rb_ok sib" "\<not> rb_is_red sib" "rb_bh sib = Suc (rb_bh n)" by auto
    from rb_erase_left_ok [OF "2.prems"(1,2) s, of f pc p pa]
    obtain again t where t: "rb_erase_left f n pc p pa sib = Some (again, t)" "rb_ok t"
      and tt: "if again then pc = RB_BLACK \<and> \<not> rb_is_red t \<and> rb_bh t = Suc (rb_bh n)
        else rb_bh t = Suc (rb_bh n) + (if pc = RB_BLACK then 1 else 0) \<and>
          (rb_is_red t \<longrightarrow> pc = RB_RED)"
      by blast
    show ?thesis
    proof (cases again)
      case True
      with "2.IH" [OF sib] "2.prems" sib RB_BLACK t tt show ?thesis by auto
    next
      case False
      with "2.prems" sib RB_BLACK t tt show ?thesis by (auto simp: rb_inv_plug)
    qed
  qed
next
  case (3 f n sib pc p pa ps)
  then obtain sl sc s sa sr where sib: "sib = RB_Node sl sc s sa sr"
    by (cases sib) auto
  show ?case
  proof (cases sc)
    case RB_RED
    with 3 sib have sr: "rb_ok sr" "\<not> rb_is_red sr" "rb_bh sr = Suc (rb_bh n)" "sr \<noteq> RB_NULL"
      and pc: "pc = RB_BLACK" by auto
    from rb_erase_right_ok [OF "3.prems"(1,2) sr(1-3),
        of f RB_RED p "f p (rb_aug sr) (rb_aug n)"]
    obtain t where "rb_erase_right f n RB_RED p (f p (rb_aug sr) (rb_aug n)) sr = Some (False, t)"
      "rb_ok t" "rb_bh t = Suc (rb_bh n)"
      by (auto split: if_splits)
    with 3 sib RB_RED sr pc show ?thesis by (auto simp: rb_inv_plug)
  next
    case RB_BLACK
    with 3 sib have s: "rb_ok sib" "\<not> rb_is_red sib" "rb_bh sib = Suc (rb_bh n)" by auto
    from rb_erase_right_ok [OF "3.prems"(1,2) s, of f pc p pa]
    obtain again t where t: "rb_erase_right f n pc p pa sib = Some (again, t)" "rb_ok t"
      and tt: "if again then pc = RB_BLACK \<and> \<not> rb_is_red t \<and> rb_bh t = Suc (rb_bh n)
        else rb_bh t = Suc (rb_bh n) + (if pc = RB_BLACK then 1 else 0) \<and>
          (rb_is_red t \<longrightarrow> pc = RB_RED)"
      by blast
    show ?thesis
    proof (cases again)
      case True
      with "3.IH" [OF sib] "3.prems" sib RB_BLACK t tt show ?thesis by auto
    next
      case False
      with "3.prems" sib RB_BLACK t tt show ?thesis by (auto simp: rb_inv_plug)
    qed
  qed
qed

lemma rb_path_ok_append_cong [simp]:
  "rb_path_ok (ds @ rb_propagate f v qs) h = rb_path_ok (ds @ qs) h"
proof (induction ds arbitrary: h)
  case (Cons d ds)
  then show ?case by (cases d; cases ds; cases "hd ds") auto
qed simp

lemma rb_path_ok_propagate_append [simp]:
  "rb_path_ok (rb_propagate f v ds @ qs) h = rb_path_ok (ds @ qs) h"
proof (induction f v ds arbitrary: h rule: rb_propagate.induct)
  case (2 f v c x a r ps)
  have "rb_top_black (rb_propagate f (Some (f x v (rb_aug r))) ps @ qs) = rb_top_black (ps @ qs)"
    by (cases ps; cases "hd ps") (auto simp: Let_def)
  with 2 show ?case by (auto simp: Let_def)
next
  case (3 f v l c x a ps)
  have "rb_top_black (rb_propagate f (Some (f x (rb_aug l) v)) ps @ qs) = rb_top_black (ps @ qs)"
    by (cases ps; cases "hd ps") (auto simp: Let_def)
  with 3 show ?case by (auto simp: Let_def)
qed simp

lemma rb_ok_bh_NULL: "rb_ok t \<Longrightarrow> \<not> rb_is_red t \<Longrightarrow> rb_bh t = 0 \<Longrightarrow> t = RB_NULL"
  by (cases t) auto

lemma rb_erase_augmented_at_inv:
  assumes inv: "rb_inv (rb_plug (RB_Node l c x a r) ps)"
  shows "\<exists>n qs b. rb_erase_augmented_at f (RB_Node l c x a r) ps = Some (n, qs, b) \<and>
    (if b then n = RB_NULL \<and> rb_path_ok qs 1 else rb_inv (rb_plug n qs))"
proof -
  from inv have ok: "rb_ok (RB_Node l c x a r)" "rb_path_ok ps (rb_bh (RB_Node l c x a r))"
    "c = RB_RED \<longrightarrow> rb_top_black ps"
    by (auto simp: rb_inv_plug)
  consider (none) "l = RB_NULL" "r = RB_NULL" | (right) "l = RB_NULL" "r \<noteq> RB_NULL"
    | (left) "l \<noteq> RB_NULL" "r = RB_NULL" | (both) "l \<noteq> RB_NULL" "r \<noteq> RB_NULL" by blast
  then show ?thesis
  proof cases
    case none
    have "rb_inv (RB_NULL :: ('a, 'b) rb_tree)" by (simp add: rb_inv_def)
    with none ok show ?thesis by (cases c; cases "ps = []") (simp_all add: rb_inv_plug ex_bool_eq)
  next
    case right
    with ok obtain rl y ra rr where r: "r = RB_Node rl RB_RED y ra rr"
      by (cases r) (auto split: if_splits)
    with right ok have "rb_bh rl = 0" "rb_bh rr = 0" by simp_all
    with right r ok show ?thesis by (cases c) (simp_all add: rb_inv_plug ex_bool_eq)
  next
    case left
    with ok obtain ll y la lr where l: "l = RB_Node ll RB_RED y la lr"
      by (cases l) (auto split: if_splits)
    with left ok have "rb_bh ll = 0" "rb_bh lr = 0" by simp_all
    with left l ok show ?thesis by (cases c) (simp_all add: rb_inv_plug ex_bool_eq)
  next
    case both
    obtain s ds where d: "rb_descend_min r [] = (s, ds)" by fastforce
    from rb_descend_min_node [OF d] both obtain sc y sa sr
      where s: "s = RB_Node RB_NULL sc y sa sr" by auto
    from rb_descend_min_plug [OF d] have r: "rb_plug s ds = r" by simp
    have "rb_plug (RB_Node l c y a r) ps = rb_plug s (ds @ RightOf l c y a # ps)"
      using r by (simp add: rb_plug_append)
    moreover have "rb_inv (rb_plug (RB_Node l c y a r) ps)"
      using ok by (auto simp: rb_inv_plug)
    ultimately have "rb_inv (rb_plug s (ds @ RightOf l c y a # ps))" by simp
    then have sok: "rb_ok s" "rb_path_ok (ds @ RightOf l c y a # ps) (rb_bh s)"
      "rb_is_red s \<longrightarrow> rb_top_black (ds @ RightOf l c y a # ps)"
      by (auto simp: rb_inv_plug)
    let ?v = "rb_aug (rb_set_color RB_BLACK sr)"
    let ?ds = "rb_propagate f ?v ds"
    let ?w = "rb_aug (rb_plug (rb_set_color RB_BLACK sr) ?ds)"
    let ?qs = "?ds @ rb_propagate f ?w (RightOf l c y a # ps)"
    have res: "rb_erase_augmented_at f (RB_Node l c x a r) ps =
        Some (rb_set_color RB_BLACK sr, ?qs, sr = RB_NULL \<and> sc = RB_BLACK)"
      using both d s by (simp add: Let_def del: rb_propagate.simps)
    have qs: "rb_path_ok ?qs (rb_bh s)"
      using sok(2) by (simp del: rb_propagate.simps)
    show ?thesis
    proof (cases "sr = RB_NULL")
      case True
      with qs s have "if sc = RB_BLACK then rb_path_ok ?qs 1 else rb_inv (rb_plug RB_NULL ?qs)"
        by (cases sc) (simp_all add: rb_inv_plug del: rb_propagate.simps)
      then show ?thesis unfolding res using True by (cases sc) (simp_all add: ex_bool_eq)
    next
      case False
      with sok(1) s obtain u y2 ya w where sr: "sr = RB_Node u RB_RED y2 ya w" and "sc = RB_BLACK"
        by (cases sr; cases sc) (auto split: if_splits)
      with sok(1) s have "rb_bh u = 0" "rb_bh w = 0" by simp_all
      with sr \<open>sc = RB_BLACK\<close> qs s sok(1) have "rb_inv (rb_plug (rb_set_color RB_BLACK sr) ?qs)"
        by (simp add: rb_inv_plug del: rb_propagate.simps)
      then show ?thesis unfolding res using False by (simp add: ex_bool_eq)
    qed
  qed
qed

theorem rb_insert_color_correct:
  assumes "rb_inv (rb_plug RB_NULL ps)"
  shows "\<exists>t. rb_insert_color f x a ps = Some t \<and> rb_inv t \<and>
    rb_inorder t = rb_before ps @ x # rb_after ps"
proof -
  have "rb_path_ok ps (rb_bh (rb_link_node x a))"
    using assms by (simp add: rb_inv_plug rb_link_node_def)
  moreover have "rb_ok (rb_link_node x a)" "rb_is_red (rb_link_node x a)"
    by (simp_all add: rb_link_node_def)
  ultimately obtain t where "rb_insert_loop f (rb_link_node x a) ps = Some t" "rb_inv t"
    using rb_insert_loop_inv by blast
  then show ?thesis
    using rb_insert_loop_inorder [of f "rb_link_node x a" ps t]
    by (auto simp: rb_insert_color_def rb_link_node_def)
qed

theorem rb_erase_correct:
  assumes inv: "rb_inv t" and x: "x \<in> set (rb_inorder t)" and dist: "distinct (rb_inorder t)"
  shows "\<exists>t'. rb_erase f x t = Some t' \<and> rb_inv t' \<and> rb_inorder t' = remove1 x (rb_inorder t)"
proof -
  obtain l c a r ps where loc: "rb_locate x t [] = Some (RB_Node l c x a r, ps)"
    and t: "t = rb_plug (RB_Node l c x a r) ps"
    using rb_locate_Nil [OF x] .
  from rb_erase_augmented_at_inv [OF inv [unfolded t], of f] obtain n qs b
    where e: "rb_erase_augmented_at f (RB_Node l c x a r) ps = Some (n, qs, b)"
      and b: "if b then n = RB_NULL \<and> rb_path_ok qs 1 else rb_inv (rb_plug n qs)"
    by blast
  have "rb_inorder t = (rb_before ps @ rb_inorder l) @ x # rb_inorder r @ rb_after ps"
    using t by simp
  then have ord: "rb_before qs @ rb_inorder n @ rb_after qs = remove1 x (rb_inorder t)"
    unfolding rb_erase_augmented_at_inorder [OF e]
    using dist by (simp add: remove1_append)
  show ?thesis
  proof (cases b)
    case True
    with b have "rb_ok n" "\<not> rb_is_red n" "rb_path_ok qs (Suc (rb_bh n))" by auto
    then obtain t' where "rb_erase_color f n qs = Some t'" "rb_inv t'"
      using rb_erase_color_inv by blast
    moreover from this have "rb_inorder t' = remove1 x (rb_inorder t)"
      using rb_erase_color_inorder ord by fastforce
    ultimately show ?thesis
      using True loc e by (simp add: rb_erase_def del: rb_erase_augmented_at.simps)
  next
    case False
    with b loc e ord show ?thesis by (simp add: rb_erase_def del: rb_erase_augmented_at.simps)
  qed
qed

section \<open>Walking in order\<close>

lemma rb_first_inorder: "rb_first t = (case rb_inorder t of [] \<Rightarrow> None | x # _ \<Rightarrow> Some x)"
  by (induction t) (auto split: list.splits)

lemma rb_last_inorder: "rb_last t = (if rb_inorder t = [] then None else Some (last (rb_inorder t)))"
  by (induction t) auto

lemma rb_up_next_after: "rb_up_next ps = (case rb_after ps of [] \<Rightarrow> None | x # _ \<Rightarrow> Some x)"
  by (induction ps rule: rb_up_next.induct) auto

lemma rb_up_prev_before:
  "rb_up_prev ps = (if rb_before ps = [] then None else Some (last (rb_before ps)))"
  by (induction ps rule: rb_up_prev.induct) auto

lemma rb_locate_split:
  assumes "rb_inorder t = us @ x # vs" and "distinct (rb_inorder t)"
  obtains l c a r ps where "rb_locate x t [] = Some (RB_Node l c x a r, ps)"
    and "us = rb_before ps @ rb_inorder l" and "vs = rb_inorder r @ rb_after ps"
proof -
  from assms have "x \<in> set (rb_inorder t)" by simp
  then obtain l c a r ps where loc: "rb_locate x t [] = Some (RB_Node l c x a r, ps)"
    and t: "t = rb_plug (RB_Node l c x a r) ps"
    by (rule rb_locate_Nil)
  from t have "rb_inorder t = (rb_before ps @ rb_inorder l) @ x # rb_inorder r @ rb_after ps"
    by simp
  with assms have "us = rb_before ps @ rb_inorder l \<and> vs = rb_inorder r @ rb_after ps"
    by (metis distinct_split_unique)
  with loc that show thesis by blast
qed

lemma rb_next_inorder:
  assumes "rb_inorder t = us @ x # vs" and "distinct (rb_inorder t)"
  shows "rb_next t x = (case vs of [] \<Rightarrow> None | v # _ \<Rightarrow> Some v)"
  using assms
  by (rule rb_locate_split)
    (auto simp: rb_next_def rb_first_inorder rb_up_next_after split: list.splits)

lemma rb_prev_inorder:
  assumes "rb_inorder t = us @ x # vs" and "distinct (rb_inorder t)"
  shows "rb_prev t x = (if us = [] then None else Some (last us))"
  using assms
  by (rule rb_locate_split)
    (auto simp: rb_prev_def rb_last_inorder rb_up_prev_before)

lemma rb_replace_node_inorder:
  assumes "rb_inorder t = us @ x # vs" and "distinct (rb_inorder t)"
  shows "rb_inorder (rb_replace_node x y t) = us @ y # vs"
  using assms by (rule rb_locate_split) (auto simp: rb_replace_node_def)

lemma rb_replace_node_inv:
  assumes "rb_inv t" shows "rb_inv (rb_replace_node x y t)"
proof (cases "x \<in> set (rb_inorder t)")
  case True
  then obtain l c a r ps where "rb_locate x t [] = Some (RB_Node l c x a r, ps)"
    and "t = rb_plug (RB_Node l c x a r) ps"
    by (rule rb_locate_Nil)
  with assms show ?thesis by (cases c) (auto simp: rb_replace_node_def rb_inv_plug)
next
  case False
  then have "rb_locate x t [] = None" by (simp add: rb_locate_None)
  with assms show ?thesis by (simp add: rb_replace_node_def)
qed

section \<open>The height of a tree\<close>

fun rb_height :: "('a, 'b) rb_tree \<Rightarrow> nat" where
  "rb_height RB_NULL = 0"
| "rb_height (RB_Node l c x a r) = Suc (max (rb_height l) (rb_height r))"

lemma rb_height_bh:
  "rb_ok t \<Longrightarrow> rb_height t \<le> 2 * rb_bh t + (if rb_is_red t then 1 else 0)"
proof (induction t)
  case (RB_Node l c x a r)
  then show ?case by (cases c) (auto split: if_splits)
qed simp

lemma rb_bh_length: "rb_ok t \<Longrightarrow> 2 ^ rb_bh t \<le> Suc (length (rb_inorder t))"
proof (induction t)
  case (RB_Node l c x a r)
  then show ?case by (cases c) auto
qed simp

section \<open>Augmented values\<close>

text \<open>
  The stored value of every node is a function \<open>g\<close> of the in-order content of its subtree.
  For this to be maintained by the callbacks, \<open>rbcompute\<close> has to compute \<open>g\<close> from the
  values of the children: this is the contract between an augmented tree and its user.
\<close>

fun rb_aug_ok :: "('a list \<Rightarrow> 'b) \<Rightarrow> ('a, 'b) rb_tree \<Rightarrow> bool" where
  "rb_aug_ok g RB_NULL = True"
| "rb_aug_ok g (RB_Node l c x a r) \<longleftrightarrow> rb_aug_ok g l \<and> rb_aug_ok g r \<and>
     a = g (rb_inorder l @ x # rb_inorder r)"

fun rb_aug_path :: "('a list \<Rightarrow> 'b) \<Rightarrow> ('a, 'b) rb_path \<Rightarrow> 'a list \<Rightarrow> bool" where
  "rb_aug_path g [] xs = True"
| "rb_aug_path g (LeftOf c x a r # ps) xs \<longleftrightarrow> rb_aug_ok g r \<and>
     a = g (xs @ x # rb_inorder r) \<and> rb_aug_path g ps (xs @ x # rb_inorder r)"
| "rb_aug_path g (RightOf l c x a # ps) xs \<longleftrightarrow> rb_aug_ok g l \<and>
     a = g (rb_inorder l @ x # xs) \<and> rb_aug_path g ps (rb_inorder l @ x # xs)"

definition rb_val :: "('a list \<Rightarrow> 'b) \<Rightarrow> 'a list \<Rightarrow> 'b option" where
  "rb_val g xs = (if xs = [] then None else Some (g xs))"

lemma rb_val_simps [simp]:
  "rb_val g [] = None" "rb_val g (x # xs) = Some (g (x # xs))"
  "rb_val g (xs @ x # ys) = Some (g (xs @ x # ys))"
  by (simp_all add: rb_val_def)

lemma rb_aug_val: "rb_aug_ok g t \<Longrightarrow> rb_aug t = rb_val g (rb_inorder t)"
  by (cases t) auto

lemma rb_aug_ok_set_color [simp]: "rb_aug_ok g (rb_set_color c t) = rb_aug_ok g t"
  by (cases t) auto

lemma rb_aug_ok_plug:
  "rb_aug_ok g (rb_plug t ps) \<longleftrightarrow> rb_aug_ok g t \<and> rb_aug_path g ps (rb_inorder t)"
  by (induction t ps rule: rb_plug.induct) auto

lemma rb_aug_path_append:
  "rb_aug_path g (ps @ qs) xs \<longleftrightarrow>
   rb_aug_path g ps xs \<and> rb_aug_path g qs (rb_before ps @ xs @ rb_after ps)"
  by (induction g ps xs rule: rb_aug_path.induct) auto

locale rb_augmented =
  fixes f :: "('a, 'b) rb_compute" and g :: "'a list \<Rightarrow> 'b"
  assumes compute: "f x (rb_val g xs) (rb_val g ys) = g (xs @ x # ys)"
begin

lemma rotated_aug_ok:
  "rb_aug_ok g l \<Longrightarrow> rb_aug_ok g r \<Longrightarrow> rb_aug_ok g (rb_rotated f l c x r)"
  by (simp add: rb_rotated_def rb_aug_val compute)

lemma insert_loop_aug_ok:
  "rb_insert_loop f n ps = Some t \<Longrightarrow> rb_aug_ok g n \<Longrightarrow> rb_aug_path g ps (rb_inorder n) \<Longrightarrow>
   rb_aug_ok g t"
proof (induction f' \<equiv> f n ps rule: rb_insert_loop.induct)
  case (1 n)
  then show ?case by auto
qed (auto simp: rb_aug_ok_plug rotated_aug_ok split: if_splits rb_tree.splits)

lemma left_cong: "g xs = g ys \<Longrightarrow> xs \<noteq> [] \<Longrightarrow> ys \<noteq> [] \<Longrightarrow> g (xs @ x # zs) = g (ys @ x # zs)"
  by (simp flip: compute add: rb_val_def)

lemma right_cong: "g xs = g ys \<Longrightarrow> xs \<noteq> [] \<Longrightarrow> ys \<noteq> [] \<Longrightarrow> g (zs @ x # xs) = g (zs @ x # ys)"
  by (simp flip: compute add: rb_val_def)

lemma aug_path_cong:
  assumes "rb_aug_path g ps xs" and "g xs = g ys" and "xs \<noteq> []" and "ys \<noteq> []"
  shows "rb_aug_path g ps ys"
  using assms
proof (induction ps arbitrary: xs ys)
  case (Cons p ps)
  show ?case
  proof (cases p)
    case (LeftOf c x a r)
    with Cons.prems left_cong [of xs ys x "rb_inorder r"] show ?thesis
      using Cons.IH [of "xs @ x # rb_inorder r" "ys @ x # rb_inorder r"] by simp
  next
    case (RightOf l c x a)
    with Cons.prems right_cong [of xs ys "rb_inorder l" x] show ?thesis
      using Cons.IH [of "rb_inorder l @ x # xs" "rb_inorder l @ x # ys"] by simp
  qed
qed simp

lemma propagate_step:
  assumes old: "rb_aug_path g ps zs" "zs \<noteq> []"
    and IH: "\<And>ys. rb_aug_path g (rb_propagate f (rb_val g ys) ps) ys"
  shows "rb_aug_ok g r \<Longrightarrow>
      rb_aug_path g (rb_propagate f (rb_val g ys) (LeftOf c x (g zs) r # ps)) ys"
    and "rb_aug_ok g l \<Longrightarrow>
      rb_aug_path g (rb_propagate f (rb_val g ys) (RightOf l c x (g zs) # ps)) ys"
proof -
  have *: "rb_aug_path g (if g us = g zs then ps else rb_propagate f (rb_val g us) ps) us"
    if "us \<noteq> []" for us
    using that aug_path_cong [OF old(1) _ old(2), of us] IH [of us] by simp
  show "rb_aug_path g (rb_propagate f (rb_val g ys) (LeftOf c x (g zs) r # ps)) ys"
    if "rb_aug_ok g r"
    using * [of "ys @ x # rb_inorder r"] that by (auto simp: Let_def rb_aug_val compute)
  show "rb_aug_path g (rb_propagate f (rb_val g ys) (RightOf l c x (g zs) # ps)) ys"
    if "rb_aug_ok g l"
    using * [of "rb_inorder l @ x # ys"] that by (auto simp: Let_def rb_aug_val compute)
qed

lemma propagate_aug_path:
  "rb_aug_path g ps xs \<Longrightarrow> rb_aug_path g (rb_propagate f (rb_val g ys) ps) ys"
proof (induction ps arbitrary: xs ys)
  case (Cons p ps)
  then show ?case
    by (cases p) (auto simp del: rb_propagate.simps intro!: propagate_step)
qed simp

lemma erase_left_aug_ok:
  assumes "rb_erase_left f n pc p pa s = Some (again, t)" and "rb_aug_ok g n" and "rb_aug_ok g s"
    and "pa = g (rb_inorder n @ p # rb_inorder s)"
  shows "rb_aug_ok g t"
  using assms by (cases s) (auto simp: rotated_aug_ok split: if_splits rb_tree.splits)

lemma erase_right_aug_ok:
  assumes "rb_erase_right f n pc p pa s = Some (again, t)" and "rb_aug_ok g n" and "rb_aug_ok g s"
    and "pa = g (rb_inorder s @ p # rb_inorder n)"
  shows "rb_aug_ok g t"
  using assms by (cases s) (auto simp: rotated_aug_ok split: if_splits rb_tree.splits)

lemma erase_color_aug_ok:
  "rb_erase_color f n ps = Some t \<Longrightarrow> rb_aug_ok g n \<Longrightarrow> rb_aug_path g ps (rb_inorder n) \<Longrightarrow>
   rb_aug_ok g t"
proof (induction f' \<equiv> f n ps rule: rb_erase_color.induct)
  case (1 n)
  then show ?case by simp
next
  case (2 n pc p pa sib ps)
  then obtain sl sc s sa sr where sib: "sib = RB_Node sl sc s sa sr"
    by (cases sib) auto
  show ?case
  proof (cases sc)
    case RB_RED
    with "2.prems"(1) sib obtain again u where u: "rb_erase_left f n RB_RED p
        (f p (rb_aug n) (rb_aug sl)) (rb_set_color RB_BLACK sl) = Some (again, u)"
      and t: "t = rb_plug (RB_Node u pc s pa sr) ps"
      by (auto split: if_splits option.splits)
    from "2.prems" sib have "rb_aug_ok g u"
      by (intro erase_left_aug_ok [OF u]) (auto simp: rb_aug_val compute)
    with t sib "2.prems" rb_erase_left_inorder [OF u] show ?thesis by (simp add: rb_aug_ok_plug)
  next
    case RB_BLACK
    with "2.prems"(1) sib obtain again u where u: "rb_erase_left f n pc p pa sib = Some (again, u)"
      by (auto split: option.splits simp del: rb_erase_left.simps)
    from "2.prems" sib have "rb_aug_ok g u"
      by (intro erase_left_aug_ok [OF u]) auto
    with "2.prems" rb_erase_left_inorder [OF u] "2.hyps" [OF sib] sib RB_BLACK u show ?thesis
      by (cases again) (auto simp: rb_aug_ok_plug simp del: rb_erase_left.simps)
  qed
next
  case (3 n sib pc p pa ps)
  then obtain sl sc s sa sr where sib: "sib = RB_Node sl sc s sa sr"
    by (cases sib) auto
  show ?case
  proof (cases sc)
    case RB_RED
    with "3.prems"(1) sib obtain again u where u: "rb_erase_right f n RB_RED p
        (f p (rb_aug sr) (rb_aug n)) (rb_set_color RB_BLACK sr) = Some (again, u)"
      and t: "t = rb_plug (RB_Node sl pc s pa u) ps"
      by (auto split: if_splits option.splits)
    from "3.prems" sib have "rb_aug_ok g u"
      by (intro erase_right_aug_ok [OF u]) (auto simp: rb_aug_val compute)
    with t sib "3.prems" rb_erase_right_inorder [OF u] show ?thesis by (simp add: rb_aug_ok_plug)
  next
    case RB_BLACK
    with "3.prems"(1) sib obtain again u where u: "rb_erase_right f n pc p pa sib = Some (again, u)"
      by (auto split: option.splits simp del: rb_erase_right.simps)
    from "3.prems" sib have "rb_aug_ok g u"
      by (intro erase_right_aug_ok [OF u]) auto
    with "3.prems" rb_erase_right_inorder [OF u] "3.hyps" [OF sib] sib RB_BLACK u show ?thesis
      by (cases again) (auto simp: rb_aug_ok_plug simp del: rb_erase_right.simps)
  qed
qed

lemma erase_augmented_at_aug_ok:
  assumes e: "rb_erase_augmented_at f (RB_Node l c x a r) ps = Some (n, qs, b)"
    and ok: "rb_aug_ok g (rb_plug (RB_Node l c x a r) ps)"
  shows "rb_aug_ok g n \<and> rb_aug_path g qs (rb_inorder n)"
proof -
  from ok have lr: "rb_aug_ok g l" "rb_aug_ok g r" "rb_aug_path g ps (rb_inorder l @ x # rb_inorder r)"
    and a: "a = g (rb_inorder l @ x # rb_inorder r)"
    by (auto simp: rb_aug_ok_plug)
  show ?thesis
  proof (cases "l = RB_NULL \<or> r = RB_NULL")
    case True
    with e lr propagate_aug_path [OF lr(3), of "[]"]
      propagate_aug_path [OF lr(3), of "rb_inorder l"]
      propagate_aug_path [OF lr(3), of "rb_inorder r"] show ?thesis
      by (auto simp: rb_aug_val Let_def split: if_splits)
  next
    case False
    obtain s ds where d: "rb_descend_min r [] = (s, ds)" by fastforce
    from rb_descend_min_node [OF d] False obtain sc y sa sr
      where s: "s = RB_Node RB_NULL sc y sa sr" and b: "rb_before ds = []" by auto
    from rb_descend_min_plug [OF d] have r: "rb_plug s ds = r" by simp
    let ?n = "rb_set_color RB_BLACK sr"
    let ?ds = "rb_propagate f (rb_aug ?n) ds"
    let ?m = "rb_plug ?n ?ds"
    have n: "n = ?n" and qs: "qs = ?ds @ rb_propagate f (rb_aug ?m) (RightOf l c y a # ps)"
      using e False d s by (auto simp: Let_def simp del: rb_propagate.simps)
    from lr(2) r s have sr: "rb_aug_ok g sr" "rb_aug_path g ds (y # rb_inorder sr)"
      by (auto simp flip: r simp: rb_aug_ok_plug)
    have ds: "rb_aug_path g ?ds (rb_inorder sr)"
      using propagate_aug_path [OF sr(2), of "rb_inorder sr"] sr(1) by (simp add: rb_aug_val)
    then have m: "rb_aug_ok g ?m" using sr(1) by (simp add: rb_aug_ok_plug)
    have path: "rb_aug_path g (rb_propagate f (rb_aug ?m) (RightOf l c y a # ps)) (rb_inorder ?m)"
      using lr m a propagate_step(2) [OF lr(3), of l "rb_inorder ?m" c y]
      by (simp add: rb_aug_val propagate_aug_path [OF lr(3)] del: rb_propagate.simps)
    show ?thesis
      using n qs sr(1) ds path b by (simp add: rb_aug_path_append del: rb_propagate.simps)
  qed
qed

lemma insert_color_aug_ok:
  assumes "rb_insert_color f x a ps = Some t" and "a = g [x]" and "rb_aug_path g ps [x]"
  shows "rb_aug_ok g t"
  using insert_loop_aug_ok [of "rb_link_node x a" ps t] assms
  by (simp add: rb_insert_color_def rb_link_node_def)

lemma erase_aug_ok:
  assumes "rb_erase f x t = Some t'" and ok: "rb_aug_ok g t"
  shows "rb_aug_ok g t'"
proof -
  obtain s ps where loc: "rb_locate x t [] = Some (s, ps)"
    using assms(1) by (auto simp: rb_erase_def split: option.splits)
  from rb_locate_plug [OF loc] obtain l c a r where s: "s = RB_Node l c x a r"
    and t: "t = rb_plug (RB_Node l c x a r) ps" by auto
  obtain n qs b where e: "rb_erase_augmented_at f (RB_Node l c x a r) ps = Some (n, qs, b)"
    and t': "(if b then rb_erase_color f n qs else Some (rb_plug n qs)) = Some t'"
    using assms(1) loc s
    by (auto simp: rb_erase_def split: option.splits simp del: rb_erase_augmented_at.simps)
  from erase_augmented_at_aug_ok [OF e] ok t
  have "rb_aug_ok g n" "rb_aug_path g qs (rb_inorder n)" by auto
  with t' show ?thesis
    by (cases b) (auto simp: rb_aug_ok_plug intro: erase_color_aug_ok)
qed

end

end
