(* ===== verification/IntervalTree.thy ===== *)
theory IntervalTree
  imports RBTree
begin

text \<open>
  Interval trees: the template \<^verbatim>\<open>INTERVAL_TREE_DEFINE\<close> of \<^verbatim>\<open>interval_tree_generic.h\<close>. The macros
  \<^verbatim>\<open>ITSTART\<close> and \<^verbatim>\<open>ITLAST\<close> are the parameters \<open>st\<close> and \<open>la\<close> of the definitions; the field
  \<^verbatim>\<open>ITSUBTREE\<close> is the augmented value of the red-black tree.
\<close>

section \<open>The template\<close>

definition compute_subtree_last :: "('a \<Rightarrow> 't::linorder) \<Rightarrow> ('a, 't) rb_compute" where
  "compute_subtree_last la x l r =
     (let mx = la x;
          mx = (case l of None \<Rightarrow> mx | Some v \<Rightarrow> if mx < v then v else mx);
          mx = (case r of None \<Rightarrow> mx | Some v \<Rightarrow> if mx < v then v else mx)
      in mx)"

text \<open>
  The descent of \<^verbatim>\<open>_insert\<close>: it raises \<^verbatim>\<open>ITSUBTREE\<close> on the way down and notes whether it ever went
  to the right.
\<close>

fun it_descend :: "('a \<Rightarrow> 't::linorder) \<Rightarrow> 't \<Rightarrow> 't \<Rightarrow> ('a, 't) rb_tree \<Rightarrow> ('a, 't) rb_path \<Rightarrow> bool \<Rightarrow>
    ('a, 't) rb_path \<times> bool" where
  "it_descend st start lst RB_NULL ps leftmost = (ps, leftmost)"
| "it_descend st start lst (RB_Node l c x a r) ps leftmost =
     (let a' = (if a < lst then lst else a)
      in if start < st x then it_descend st start lst l (LeftOf c x a' r # ps) leftmost
         else it_descend st start lst r (RightOf l c x a' # ps) False)"

definition it_insert :: "('a \<Rightarrow> 't::linorder) \<Rightarrow> ('a \<Rightarrow> 't) \<Rightarrow> 'a \<Rightarrow> ('a, 't) rb_root_cached \<Rightarrow>
    ('a, 't) rb_root_cached option" where
  "it_insert st la x root =
     (let (ps, leftmost) = it_descend st (st x) (la x) (rb_root root) [] True
      in rb_insert_augmented_cached (compute_subtree_last la) x (la x) ps leftmost root)"

definition it_remove :: "('a \<Rightarrow> 't::linorder) \<Rightarrow> 'a \<Rightarrow> ('a, 't) rb_root_cached \<Rightarrow>
    ('a, 't) rb_root_cached option" where
  "it_remove la x root = rb_erase_augmented_cached (compute_subtree_last la) x root"

fun it_above :: "'t::linorder \<Rightarrow> ('a, 't) rb_tree \<Rightarrow> bool" where
  "it_above start RB_NULL = False"
| "it_above start (RB_Node l c x a r) = (start \<le> a)"

fun it_subtree_search :: "('a \<Rightarrow> 't::linorder) \<Rightarrow> ('a \<Rightarrow> 't) \<Rightarrow> ('a, 't) rb_tree \<Rightarrow> 't \<Rightarrow> 't \<Rightarrow>
    'a option" where
  "it_subtree_search st la RB_NULL start lst = None"
| "it_subtree_search st la (RB_Node l c x a r) start lst =
     (if it_above start l then it_subtree_search st la l start lst
      else if st x \<le> lst then
        (if start \<le> la x then Some x
         else if it_above start r then it_subtree_search st la r start lst
         else None)
      else None)"

definition it_iter_first :: "('a \<Rightarrow> 't::linorder) \<Rightarrow> ('a \<Rightarrow> 't) \<Rightarrow> ('a, 't) rb_root_cached \<Rightarrow>
    't \<Rightarrow> 't \<Rightarrow> 'a option" where
  "it_iter_first st la root start lst =
     (case rb_root root of
        RB_NULL \<Rightarrow> None
      | RB_Node l c x a r \<Rightarrow>
          if a < start then None
          else (case rb_leftmost root of
                  None \<Rightarrow> None
                | Some lm \<Rightarrow>
                    if st lm > lst then None
                    else it_subtree_search st la (rb_root root) start lst))"

text \<open>The part of \<^verbatim>\<open>_iter_next\<close> that moves up until it comes from a left child.\<close>

fun it_climb :: "('a \<Rightarrow> 't::linorder) \<Rightarrow> ('a \<Rightarrow> 't) \<Rightarrow> ('a, 't) rb_path \<Rightarrow> 't \<Rightarrow> 't \<Rightarrow> 'a option" where
  "it_climb st la [] start lst = None"
| "it_climb st la (RightOf l c x a # ps) start lst = it_climb st la ps start lst"
| "it_climb st la (LeftOf c x a r # ps) start lst =
     (if lst < st x then None
      else if start \<le> la x then Some x
      else if it_above start r then it_subtree_search st la r start lst
      else it_climb st la ps start lst)"

definition it_iter_next :: "('a \<Rightarrow> 't::linorder) \<Rightarrow> ('a \<Rightarrow> 't) \<Rightarrow> ('a, 't) rb_root_cached \<Rightarrow> 'a \<Rightarrow>
    't \<Rightarrow> 't \<Rightarrow> 'a option" where
  "it_iter_next st la root x start lst =
     (case rb_locate x (rb_root root) [] of
        Some (RB_Node l c y a r, ps) \<Rightarrow>
          if it_above start r then it_subtree_search st la r start lst
          else it_climb st la ps start lst
      | _ \<Rightarrow> None)"

section \<open>The augmented value is the greatest endpoint\<close>

definition it_max :: "('a \<Rightarrow> 't::linorder) \<Rightarrow> 'a list \<Rightarrow> 't" where
  "it_max la xs = Max (la ` set xs)"

lemma it_max_append:
  "xs \<noteq> [] \<Longrightarrow> ys \<noteq> [] \<Longrightarrow> it_max la (xs @ ys) = max (it_max la xs) (it_max la ys)"
  by (simp add: it_max_def image_Un Max_Un)

lemma it_max_single [simp]: "it_max la [x] = la x"
  by (simp add: it_max_def)

lemma it_max_Cons: "ys \<noteq> [] \<Longrightarrow> it_max la (x # ys) = max (la x) (it_max la ys)"
  using it_max_append [of "[x]" ys la] by simp

lemma it_max_ge: "xs \<noteq> [] \<Longrightarrow> start \<le> it_max la xs \<longleftrightarrow> (\<exists>x\<in>set xs. start \<le> la x)"
  by (simp add: it_max_def Max_ge_iff)

interpretation it: rb_augmented "compute_subtree_last la" "it_max la" for la
proof
  fix x :: 'a and xs ys :: "'a list"
  show "compute_subtree_last la x (rb_val (it_max la) xs) (rb_val (it_max la) ys) =
      it_max la (xs @ x # ys)"
    by (cases "xs = []"; cases "ys = []")
      (auto simp: rb_val_def compute_subtree_last_def it_max_append it_max_Cons max_def Let_def)
qed

lemma it_above_iff:
  "rb_aug_ok (it_max la) t \<Longrightarrow> it_above start t \<longleftrightarrow> (\<exists>x\<in>set (rb_inorder t). start \<le> la x)"
  by (cases t) (simp_all add: it_max_ge del: set_append)

section \<open>Searching\<close>

definition it_hits :: "('a \<Rightarrow> 't::linorder) \<Rightarrow> ('a \<Rightarrow> 't) \<Rightarrow> 't \<Rightarrow> 't \<Rightarrow> 'a \<Rightarrow> bool" where
  "it_hits st la start lst x \<longleftrightarrow> st x \<le> lst \<and> start \<le> la x"

lemma find_append: "find P (xs @ ys) = (case find P xs of None \<Rightarrow> find P ys | Some x \<Rightarrow> Some x)"
  by (induction xs) auto

lemma find_None_all: "(\<And>x. x \<in> set xs \<Longrightarrow> \<not> P x) \<Longrightarrow> find P xs = None"
  by (simp add: find_None_iff)

text \<open>
  If some interval of \<open>xs\<close> reaches up to \<open>start\<close> but none intersects, then it starts after
  \<open>lst\<close>, and so does everything behind it.
\<close>

lemma it_hits_behind:
  assumes "sorted (map st (xs @ ys))" and "y \<in> set xs" and "start \<le> la y"
    and "find (it_hits st la start lst) xs = None"
  shows "find (it_hits st la start lst) ys = None"
proof (rule find_None_all)
  fix z assume "z \<in> set ys"
  with assms(1,2) have "st y \<le> st z" by (auto simp: sorted_append)
  moreover have "lst < st y"
    using assms(2-4) by (fastforce simp: find_None_iff it_hits_def not_le)
  ultimately show "\<not> it_hits st la start lst z" by (auto simp: it_hits_def)
qed

lemma it_subtree_search_find:
  assumes "rb_aug_ok (it_max la) t" and "sorted (map st (rb_inorder t))"
  shows "it_subtree_search st la t start lst = find (it_hits st la start lst) (rb_inorder t)"
  using assms
proof (induction t)
  case RB_NULL
  then show ?case by simp
next
  case (RB_Node l c x a r)
  let ?P = "it_hits st la start lst"
  from RB_Node.prems have ok: "rb_aug_ok (it_max la) l" "rb_aug_ok (it_max la) r"
    and srt: "sorted (map st (rb_inorder l))" "sorted (map st (rb_inorder r))"
    and all: "sorted (map st (rb_inorder l @ x # rb_inorder r))"
    by (auto simp: sorted_append)
  show ?case
  proof (cases "it_above start l")
    case True
    then obtain y where "y \<in> set (rb_inorder l)" "start \<le> la y"
      using it_above_iff [OF ok(1)] by blast
    then have "find ?P (rb_inorder l) = None \<Longrightarrow> find ?P (x # rb_inorder r) = None"
      using it_hits_behind [OF all] by blast
    with True RB_Node.IH(1) [OF ok(1) srt(1)] show ?thesis
      by (simp add: find_append split: option.splits)
  next
    case False
    then have l: "find ?P (rb_inorder l) = None"
      using it_above_iff [OF ok(1)] by (auto simp: find_None_iff it_hits_def)
    have r: "\<not> it_above start r \<Longrightarrow> find ?P (rb_inorder r) = None"
      using it_above_iff [OF ok(2)] by (auto simp: find_None_iff it_hits_def)
    have "\<not> st x \<le> lst \<Longrightarrow> find ?P (rb_inorder r) = None"
      using all by (auto simp: find_None_iff it_hits_def sorted_append)
    with False l r RB_Node.IH(2) [OF ok(2) srt(2)] show ?thesis
      by (auto simp: find_append it_hits_def [of st la start lst x])
  qed
qed

lemma it_climb_find:
  assumes "rb_aug_path (it_max la) ps xs" and "sorted (map st (rb_after ps))"
  shows "it_climb st la ps start lst = find (it_hits st la start lst) (rb_after ps)"
  using assms
proof (induction ps arbitrary: xs)
  case Nil
  then show ?case by simp
next
  case (Cons p ps)
  let ?P = "it_hits st la start lst"
  show ?case
  proof (cases p)
    case (RightOf l c x a)
    with Cons show ?thesis by auto
  next
    case (LeftOf c x a r)
    with Cons.prems have r: "rb_aug_ok (it_max la) r" "sorted (map st (rb_inorder r))"
      and all: "sorted (map st (rb_inorder r @ rb_after ps))"
      and x: "\<forall>z\<in>set (rb_inorder r @ rb_after ps). st x \<le> st z"
      and rest: "sorted (map st (rb_after ps))"
      and path: "rb_aug_path (it_max la) ps (xs @ x # rb_inorder r)"
      by (auto simp: sorted_append)
    have beyond: "lst < st x \<Longrightarrow> find ?P (rb_inorder r @ rb_after ps) = None"
      using x by (intro find_None_all) (force simp: it_hits_def)
    have behind: "it_above start r \<Longrightarrow> find ?P (rb_inorder r) = None \<Longrightarrow> find ?P (rb_after ps) = None"
      using it_above_iff [OF r(1)] it_hits_behind [OF all] by blast
    have none: "\<not> it_above start r \<Longrightarrow> find ?P (rb_inorder r) = None"
      using it_above_iff [OF r(1)] by (auto simp: find_None_iff it_hits_def)
    show ?thesis
      using beyond behind none Cons.IH [OF path rest] it_subtree_search_find [OF r] LeftOf
      by (auto simp: find_append it_hits_def [of st la start lst x] split: option.splits)
  qed
qed

section \<open>The interval tree as an ordered sequence of intervals\<close>

definition it_inv :: "('a \<Rightarrow> 't::linorder) \<Rightarrow> ('a \<Rightarrow> 't) \<Rightarrow> ('a, 't) rb_root_cached \<Rightarrow> bool" where
  "it_inv st la root \<longleftrightarrow> rb_inv (rb_root root) \<and> rb_aug_ok (it_max la) (rb_root root) \<and>
     rb_leftmost root = rb_first (rb_root root) \<and>
     sorted (map st (rb_inorder (rb_root root))) \<and> distinct (rb_inorder (rb_root root))"

abbreviation it_list :: "('a, 't) rb_root_cached \<Rightarrow> 'a list" where
  "it_list root \<equiv> rb_inorder (rb_root root)"

theorem it_iter_first_correct:
  assumes "it_inv st la root"
  shows "it_iter_first st la root start lst = find (it_hits st la start lst) (it_list root)"
proof (cases "rb_root root")
  case RB_NULL
  then show ?thesis by (simp add: it_iter_first_def)
next
  case (RB_Node l c x a r)
  let ?t = "rb_root root"
  let ?P = "it_hits st la start lst"
  from assms have ok: "rb_aug_ok (it_max la) ?t" and srt: "sorted (map st (rb_inorder ?t))"
    by (auto simp: it_inv_def)
  obtain lm ys where lm: "rb_inorder ?t = lm # ys" using RB_Node
    by (cases "rb_inorder ?t") auto
  with assms have first: "rb_leftmost root = Some lm"
    by (simp add: it_inv_def rb_first_inorder)
  have 1: "find ?P (rb_inorder ?t) = None" if "a < start"
    using that it_above_iff [OF ok, of start] RB_Node
    by (auto simp: find_None_iff it_hits_def)
  have 2: "find ?P (rb_inorder ?t) = None" if "lst < st lm"
    using that srt by (intro find_None_all) (force simp: lm it_hits_def)
  show ?thesis
    using 1 2 first it_subtree_search_find [OF ok srt, of start lst] RB_Node
    by (auto simp: it_iter_first_def simp del: it_subtree_search.simps rb_inorder.simps)
qed

theorem it_iter_next_correct:
  assumes inv: "it_inv st la root" and split: "it_list root = us @ x # vs"
    and cond1: "st x \<le> lst"
  shows "it_iter_next st la root x start lst = find (it_hits st la start lst) vs"
proof -
  let ?t = "rb_root root"
  let ?P = "it_hits st la start lst"
  from inv have ok: "rb_aug_ok (it_max la) ?t" and srt: "sorted (map st (rb_inorder ?t))"
    and dist: "distinct (rb_inorder ?t)"
    by (auto simp: it_inv_def)
  obtain l c a r ps where loc: "rb_locate x ?t [] = Some (RB_Node l c x a r, ps)"
    and us: "us = rb_before ps @ rb_inorder l" and vs: "vs = rb_inorder r @ rb_after ps"
    using rb_locate_split [OF split dist] .
  from rb_locate_plug [OF loc] have "?t = rb_plug (RB_Node l c x a r) ps" by auto
  with ok have r: "rb_aug_ok (it_max la) r"
    and ps: "rb_aug_path (it_max la) ps (rb_inorder l @ x # rb_inorder r)"
    by (auto simp: rb_aug_ok_plug)
  have all: "sorted (map st (rb_inorder r @ rb_after ps))"
    using srt split vs by (auto simp: sorted_append)
  then have srts: "sorted (map st (rb_inorder r))" "sorted (map st (rb_after ps))"
    by (auto simp: sorted_append)
  have "it_above start r \<Longrightarrow> find ?P (rb_inorder r) = None \<Longrightarrow> find ?P (rb_after ps) = None"
    using it_above_iff [OF r] it_hits_behind [OF all] by blast
  moreover have "\<not> it_above start r \<Longrightarrow> find ?P (rb_inorder r) = None"
    using it_above_iff [OF r] by (auto simp: find_None_iff it_hits_def)
  ultimately show ?thesis
    using loc vs it_subtree_search_find [OF r srts(1), of start lst]
      it_climb_find [OF ps srts(2), of start lst]
    by (auto simp: it_iter_next_def find_append split: option.splits)
qed

section \<open>Insertion and removal\<close>

lemma it_max_cong: "set xs = set ys \<Longrightarrow> it_max la xs = it_max la ys"
  by (simp add: it_max_def)

lemma it_max_insert:
  assumes "set ys = insert x (set xs)" and "xs \<noteq> []"
  shows "it_max la ys = max (it_max la xs) (la x)"
proof -
  have "it_max la ys = it_max la (x # xs)" using assms(1) by (intro it_max_cong) simp
  then show ?thesis using it_max_Cons [OF assms(2), of la x] by (simp add: max.commute)
qed

text \<open>The values on the path are those of the tree with \<open>x\<close> added below.\<close>

definition it_grown :: "('a \<Rightarrow> 't::linorder) \<Rightarrow> 'a \<Rightarrow> ('a, 't) rb_path \<Rightarrow> 'a set \<Rightarrow> bool" where
  "it_grown la x ps S \<longleftrightarrow> (\<forall>ys. set ys = insert x S \<longrightarrow> rb_aug_path (it_max la) ps ys)"

lemma it_grown_step:
  assumes "it_grown la x ps (set (rb_inorder (RB_Node l c y a r)))"
    and "rb_aug_ok (it_max la) (RB_Node l c y a r)" and "a' = max a (la x)"
  shows "it_grown la x (LeftOf c y a' r # ps) (set (rb_inorder l))"
    and "it_grown la x (RightOf l c y a' # ps) (set (rb_inorder r))"
proof -
  have a: "a = it_max la (rb_inorder l @ y # rb_inorder r)" using assms(2) by simp
  have "a' = it_max la zs" if "set zs = insert x (set (rb_inorder l @ y # rb_inorder r))" for zs
    using it_max_insert [OF that, of la] a assms(3) by simp
  moreover have "rb_aug_path (it_max la) ps zs"
    if "set zs = insert x (set (rb_inorder l @ y # rb_inorder r))" for zs
    using that assms(1) by (auto simp: it_grown_def)
  ultimately show "it_grown la x (LeftOf c y a' r # ps) (set (rb_inorder l))"
    and "it_grown la x (RightOf l c y a' # ps) (set (rb_inorder r))"
    using assms(2) by (auto simp: it_grown_def insert_commute)
qed

lemma it_descend_grown:
  "it_descend st start lst t ps lm = (qs, lm') \<Longrightarrow> rb_aug_ok (it_max la) t \<Longrightarrow> lst = la x \<Longrightarrow>
   it_grown la x ps (set (rb_inorder t)) \<Longrightarrow> it_grown la x qs {}"
proof (induction st start lst t ps lm arbitrary: qs lm' rule: it_descend.induct)
  case (2 st start lst l c y a r ps lm)
  let ?a = "if a < lst then lst else a"
  have a: "?a = max a (la x)" using "2.prems" by (auto simp: max_def)
  note grown = it_grown_step [OF "2.prems"(4,2) a]
  from 2 grown show ?case by (auto simp: Let_def split: if_splits)
qed simp

lemma it_descend_path_ok:
  "it_descend st start lst t ps lm = (qs, lm') \<Longrightarrow> rb_inv (rb_plug t ps) \<Longrightarrow>
   rb_inv (rb_plug RB_NULL qs)"
proof (induction st start lst t ps lm arbitrary: qs lm' rule: it_descend.induct)
  case (2 st start lst l c y a r ps lm)
  then show ?case by (cases c) (auto simp: Let_def rb_inv_plug split: if_splits)
qed simp

lemma it_descend_place:
  "it_descend st start lst t ps lm = (qs, lm') \<Longrightarrow> sorted (map st (rb_inorder t)) \<Longrightarrow>
   \<exists>us vs. rb_inorder t = us @ vs \<and> rb_before qs = rb_before ps @ us \<and>
     rb_after qs = vs @ rb_after ps \<and> (\<forall>u\<in>set us. st u \<le> start) \<and> (\<forall>v\<in>set vs. start < st v) \<and>
     (lm' \<longleftrightarrow> lm \<and> us = [])"
proof (induction st start lst t ps lm arbitrary: qs lm' rule: it_descend.induct)
  case (2 st start lst l c y a r ps lm)
  from "2.prems"(2) have srt: "sorted (map st (rb_inorder l))" "sorted (map st (rb_inorder r))"
    "\<forall>u\<in>set (rb_inorder l). st u \<le> st y" "\<forall>v\<in>set (rb_inorder r). st y \<le> st v"
    by (auto simp: sorted_append)
  let ?a = "if a < lst then lst else a"
  show ?case
  proof (cases "start < st y")
    case True
    with "2.prems"(1) have "it_descend st start lst l (LeftOf c y ?a r # ps) lm = (qs, lm')"
      by (simp add: Let_def)
    from "2.IH"(1) [OF refl True this srt(1)] True srt(4) show ?thesis
      by (fastforce dest: less_le_trans)
  next
    case False
    with "2.prems"(1) have "it_descend st start lst r (RightOf l c y ?a # ps) False = (qs, lm')"
      by (simp add: Let_def)
    from "2.IH"(2) [OF refl False this srt(2)] obtain us vs where
      "rb_inorder r = us @ vs" "rb_before qs = rb_before (RightOf l c y ?a # ps) @ us"
      "rb_after qs = vs @ rb_after ps" "\<forall>u\<in>set us. st u \<le> start" "\<forall>v\<in>set vs. start < st v" "\<not> lm'"
      by auto
    with False srt(3) show ?thesis
      by (intro exI [of _ "rb_inorder l @ y # us"] exI [of _ vs]) (auto intro: order_trans)
  qed
qed auto

lemma it_inv_list: "it_inv st la root \<Longrightarrow> sorted (map st (it_list root)) \<and> distinct (it_list root)"
  by (simp add: it_inv_def)

text \<open>Linking a new node at the end of a path whose values have been raised.\<close>

lemma it_insert_at:
  assumes inv: "it_inv st la root" and x: "x \<notin> set (it_list root)"
    and qs: "rb_inv (rb_plug RB_NULL qs)" "it_grown la x qs {}"
    and place: "it_list root = rb_before qs @ rb_after qs"
      "\<forall>u\<in>set (rb_before qs). st u \<le> st x" "\<forall>v\<in>set (rb_after qs). st x \<le> st v"
    and lm: "lm \<longleftrightarrow> rb_before qs = []"
  shows "\<exists>root'. rb_insert_augmented_cached (compute_subtree_last la) x (la x) qs lm root = Some root' \<and>
    it_inv st la root' \<and> it_list root' = rb_before qs @ x # rb_after qs"
proof -
  from rb_insert_color_correct [OF qs(1)] obtain t
    where t: "rb_insert_color (compute_subtree_last la) x (la x) qs = Some t" "rb_inv t"
      "rb_inorder t = rb_before qs @ x # rb_after qs" by blast
  have aug: "rb_aug_ok (it_max la) t"
    using it.insert_color_aug_ok [OF t(1)] qs(2) by (simp add: it_grown_def)
  have srt: "sorted (map st (rb_inorder t))" "distinct (rb_inorder t)"
    using inv x place t(3) by (auto simp: it_inv_def sorted_append)
  have "(if lm then Some x else rb_leftmost root) = rb_first t"
    using inv place(1) lm t(3)
    by (cases "rb_before qs") (simp_all add: it_inv_def rb_first_inorder)
  then show ?thesis
    using t aug srt by (simp add: rb_insert_augmented_cached_def it_inv_def)
qed

theorem it_insert_correct:
  assumes inv: "it_inv st la root" and x: "x \<notin> set (it_list root)"
  shows "\<exists>root' us vs. it_insert st la x root = Some root' \<and> it_inv st la root' \<and>
    it_list root = us @ vs \<and> it_list root' = us @ x # vs \<and>
    (\<forall>u\<in>set us. st u \<le> st x) \<and> (\<forall>v\<in>set vs. st x < st v)"
proof -
  obtain qs lm where d: "it_descend st (st x) (la x) (rb_root root) [] True = (qs, lm)"
    by fastforce
  from it_descend_place [OF d] it_inv_list [OF inv]
  have place: "it_list root = rb_before qs @ rb_after qs" "\<forall>u\<in>set (rb_before qs). st u \<le> st x"
    "\<forall>v\<in>set (rb_after qs). st x < st v" "lm \<longleftrightarrow> rb_before qs = []"
    by auto
  have ok: "rb_inv (rb_plug RB_NULL qs)" "it_grown la x qs {}"
    using it_descend_path_ok [OF d] it_descend_grown [OF d, of la x] inv
    by (auto simp: it_inv_def it_grown_def)
  from it_insert_at [OF inv x ok place(1,2) _ place(4)] place(3)
  obtain root' where
    "rb_insert_augmented_cached (compute_subtree_last la) x (la x) qs lm root = Some root'"
    "it_inv st la root'" "it_list root' = rb_before qs @ x # rb_after qs"
    by fastforce
  with d place show ?thesis
    by (intro exI [of _ root'] exI [of _ "rb_before qs"] exI [of _ "rb_after qs"])
      (simp add: it_insert_def)
qed

theorem it_remove_correct:
  assumes inv: "it_inv st la root" and x: "x \<in> set (it_list root)"
  shows "\<exists>root'. it_remove la x root = Some root' \<and> it_inv st la root' \<and>
    it_list root' = remove1 x (it_list root)"
proof -
  let ?f = "compute_subtree_last la"
  from inv have dist: "distinct (it_list root)" by (simp add: it_inv_def)
  from rb_erase_correct [of "rb_root root" x ?f] inv x obtain t where
    t: "rb_erase ?f x (rb_root root) = Some t" "rb_inv t" "rb_inorder t = remove1 x (it_list root)"
    by (auto simp: it_inv_def)
  from it.erase_aug_ok [OF t(1)] inv have aug: "rb_aug_ok (it_max la) t" by (simp add: it_inv_def)
  from x obtain us vs where split: "it_list root = us @ x # vs" by (meson split_list)
  with dist t(3) have t': "rb_inorder t = us @ vs" by (simp add: remove1_append)
  have srt: "sorted (map st (rb_inorder t))" "distinct (rb_inorder t)"
    using inv split t' by (auto simp: it_inv_def sorted_append)
  have first: "rb_leftmost root = rb_first (rb_root root)" using inv by (simp add: it_inv_def)
  have "(if rb_leftmost root = Some x then rb_next (rb_root root) x else rb_leftmost root) = rb_first t"
  proof (cases us)
    case Nil
    with split first t' rb_next_inorder [OF split dist] show ?thesis
      by (simp add: rb_first_inorder)
  next
    case (Cons u us')
    with split first dist t' show ?thesis by (auto simp: rb_first_inorder)
  qed
  with t aug srt show ?thesis
    by (simp add: it_remove_def rb_erase_augmented_cached_def it_inv_def)
qed

end
