(* ===== verification/Trees_Correct.thy ===== *)
theory Trees_Correct
  imports IntervalTree
begin

text \<open>
  What the red-black trees and the interval trees promise to their users: insertion and removal
  keep the tree balanced and ordered, and the iterators visit what they should.
\<close>

section \<open>Loops over a tree\<close>

text \<open>\<^verbatim>\<open>for (node = rb_first(root); node; node = rb_next(node))\<close>, with a bound on the number of rounds.\<close>

fun rb_walk :: "nat \<Rightarrow> ('a, 'b) rb_tree \<Rightarrow> 'a option \<Rightarrow> 'a list option" where
  "rb_walk fuel t None = Some []"
| "rb_walk 0 t (Some x) = None"
| "rb_walk (Suc fuel) t (Some x) = map_option (Cons x) (rb_walk fuel t (rb_next t x))"

lemma rb_walk_suffix:
  "rb_inorder t = us @ vs \<Longrightarrow> distinct (rb_inorder t) \<Longrightarrow> length vs \<le> fuel \<Longrightarrow>
   rb_walk fuel t (hd_option vs) = Some vs"
proof (induction vs arbitrary: us fuel)
  case (Cons v vs)
  then obtain fuel' where "fuel = Suc fuel'" by (cases fuel) auto
  moreover have "rb_next t v = hd_option vs"
    using rb_next_inorder [OF Cons.prems(1,2)] by (simp add: hd_option_def)
  ultimately show ?case using Cons.IH [of "us @ [v]" fuel'] Cons.prems by simp
qed simp

text \<open>The loop over all intervals that meet \<open>[start, lst]\<close>: \<^verbatim>\<open>_iter_first\<close>, then \<^verbatim>\<open>_iter_next\<close>.\<close>

fun it_walk :: "nat \<Rightarrow> ('a \<Rightarrow> 't::linorder) \<Rightarrow> ('a \<Rightarrow> 't) \<Rightarrow> ('a, 't) rb_root_cached \<Rightarrow> 't \<Rightarrow> 't \<Rightarrow>
    'a option \<Rightarrow> 'a list option" where
  "it_walk fuel st la root start lst None = Some []"
| "it_walk 0 st la root start lst (Some x) = None"
| "it_walk (Suc fuel) st la root start lst (Some x) =
     map_option (Cons x) (it_walk fuel st la root start lst (it_iter_next st la root x start lst))"

lemma find_Some_split:
  "find P xs = Some x \<Longrightarrow> \<exists>us vs. xs = us @ x # vs \<and> P x \<and> filter P xs = x # filter P vs"
proof (induction xs)
  case (Cons y ys)
  show ?case
  proof (cases "P y")
    case True
    with Cons.prems show ?thesis by (intro exI [of _ "[]"] exI [of _ ys]) auto
  next
    case False
    with Cons obtain us vs where "ys = us @ x # vs" "P x" "filter P ys = x # filter P vs" by auto
    with False show ?thesis by (intro exI [of _ "y # us"] exI [of _ vs]) auto
  qed
qed simp

lemma it_walk_suffix:
  assumes inv: "it_inv st la root"
  shows "it_list root = us @ vs \<Longrightarrow> length vs \<le> fuel \<Longrightarrow>
    it_walk fuel st la root start lst (find (it_hits st la start lst) vs) =
      Some (filter (it_hits st la start lst) vs)"
proof (induction fuel arbitrary: us vs)
  case (Suc fuel)
  let ?P = "it_hits st la start lst"
  show ?case
  proof (cases "find ?P vs")
    case None
    then have "filter ?P vs = []" by (simp add: find_None_iff)
    with None show ?thesis by simp
  next
    case (Some x)
    then obtain ws zs where vs: "vs = ws @ x # zs" "?P x" "filter ?P vs = x # filter ?P zs"
      using find_Some_split by metis
    have split: "it_list root = (us @ ws) @ x # zs" using Suc.prems(1) vs(1) by simp
    have nxt: "it_iter_next st la root x start lst = find ?P zs"
      using it_iter_next_correct [OF inv split] vs(2) by (simp add: it_hits_def [of st la start lst x])
    have "it_walk fuel st la root start lst (find ?P zs) = Some (filter ?P zs)"
      using Suc.IH [of "us @ ws @ [x]" zs] Suc.prems vs(1) by simp
    with Some nxt vs(3) show ?thesis by simp
  qed
qed simp

section \<open>The height of a tree\<close>

lemma rb_inv_height:
  assumes "rb_inv t"
  shows "2 ^ (rb_height t div 2) \<le> Suc (length (rb_inorder t))"
proof -
  from assms have ok: "rb_ok t" "\<not> rb_is_red t" by (simp_all add: rb_inv_def)
  from rb_height_bh [OF ok(1)] ok(2) have "rb_height t div 2 \<le> rb_bh t" by simp
  then have "(2::nat) ^ (rb_height t div 2) \<le> 2 ^ rb_bh t" by simp
  also have "\<dots> \<le> Suc (length (rb_inorder t))" using rb_bh_length [OF ok(1)] .
  finally show ?thesis .
qed

section \<open>Example trees\<close>

text \<open>Intervals are numbered \<open>0\<close>, \<open>1\<close>, \<open>2\<close>, \dots; interval \<open>n\<close> is \<open>[10 n, 10 n + 14]\<close>.\<close>

definition ex_start :: "nat \<Rightarrow> nat" where "ex_start n = 10 * n"
definition ex_last :: "nat \<Rightarrow> nat" where "ex_last n = 10 * n + 14"

definition ex_root :: "(nat, nat) rb_root_cached" where
  "ex_root = the (it_insert ex_start ex_last 2 (the (it_insert ex_start ex_last 1
     (the (it_insert ex_start ex_last 3 RB_ROOT_CACHED)))))"

lemma it_inv_empty: "it_inv st la RB_ROOT_CACHED"
  by (simp add: it_inv_def RB_ROOT_CACHED_def rb_inv_def)

lemma ex_root: "it_inv ex_start ex_last ex_root" "it_list ex_root = [1, 2, 3]"
proof -
  have e: "it_list (RB_ROOT_CACHED :: (nat, nat) rb_root_cached) = []" by (simp add: RB_ROOT_CACHED_def)
  obtain r1 us vs where r1: "it_insert ex_start ex_last 3 RB_ROOT_CACHED = Some r1"
    "it_inv ex_start ex_last r1" "[] = us @ vs" "it_list r1 = us @ 3 # vs"
    using it_insert_correct [OF it_inv_empty, of 3 ex_start ex_last] e by auto
  then have l1: "it_list r1 = [3]" by simp
  obtain r2 us vs where r2: "it_insert ex_start ex_last 1 r1 = Some r2"
    "it_inv ex_start ex_last r2" "[3] = us @ vs" "it_list r2 = us @ 1 # vs"
    "\<forall>u\<in>set us. ex_start u \<le> ex_start 1"
    using it_insert_correct [OF r1(2), of 1] l1 by auto
  then have l2: "it_list r2 = [1, 3]"
    by (cases us) (auto simp: ex_start_def Cons_eq_append_conv)
  obtain r3 us vs where r3: "it_insert ex_start ex_last 2 r2 = Some r3"
    "it_inv ex_start ex_last r3" "[1, 3] = us @ vs" "it_list r3 = us @ 2 # vs"
    "\<forall>u\<in>set us. ex_start u \<le> ex_start 2" "\<forall>v\<in>set vs. ex_start 2 < ex_start v"
    using it_insert_correct [OF r2(2), of 2] l2 by auto
  then have "it_list r3 = [1, 2, 3]"
    by (cases us) (auto simp: ex_start_def Cons_eq_append_conv)
  with r1(1) r2(1) r3(1,2) show "it_inv ex_start ex_last ex_root" "it_list ex_root = [1, 2, 3]"
    by (simp_all add: ex_root_def)
qed

section \<open>Properties\<close>

text \<open>
  C7. Linking a new node below a leaf position of a red-black tree and rebalancing with
  \<^verbatim>\<open>__rb_insert_augmented\<close> never dereferences a null pointer, gives a red-black tree again, puts the node
  at that position of the in-order sequence, and keeps the height at most \<open>2 log2 (n + 1) + 1\<close>.
\<close>

theorem rb_insert_balanced:
  assumes "rb_inv (rb_plug RB_NULL ps)"
  shows "\<exists>t. rb_insert_color f x a ps = Some t \<and> rb_inv t \<and>
    rb_inorder t = rb_before ps @ x # rb_after ps \<and>
    2 ^ (rb_height t div 2) \<le> Suc (Suc (length (rb_before ps @ rb_after ps)))"
proof -
  from rb_insert_color_correct [OF assms, of f x a] obtain t where
    t: "rb_insert_color f x a ps = Some t" "rb_inv t" "rb_inorder t = rb_before ps @ x # rb_after ps"
    by blast
  with rb_inv_height [OF t(2)] show ?thesis by auto
qed

theorem rb_insert_balanced_witness:
  "\<exists>t. rb_insert_color (\<lambda>_ _ _. ()) (2 :: nat) () [LeftOf RB_BLACK 3 () RB_NULL] = Some t \<and> rb_inv t \<and>
     rb_inorder t = [2, 3]"
  using rb_insert_balanced [of "[LeftOf RB_BLACK 3 () RB_NULL]" "\<lambda>_ _ _. ()" "2 :: nat" "()"]
  by (auto simp: rb_inv_def)

text \<open>
  C8. \<^verbatim>\<open>rb_erase\<close> of a node of a red-black tree never dereferences a null pointer, gives a red-black tree,
  removes exactly that node from the in-order sequence, and keeps the height bound.
\<close>

theorem rb_erase_balanced:
  assumes "rb_inv t" and "x \<in> set (rb_inorder t)" and "distinct (rb_inorder t)"
  shows "\<exists>t'. rb_erase f x t = Some t' \<and> rb_inv t' \<and> rb_inorder t' = remove1 x (rb_inorder t) \<and>
    2 ^ (rb_height t' div 2) \<le> length (rb_inorder t)"
proof -
  from rb_erase_correct [OF assms, of f] obtain t' where
    t': "rb_erase f x t = Some t'" "rb_inv t'" "rb_inorder t' = remove1 x (rb_inorder t)" by blast
  have "Suc (length (remove1 x (rb_inorder t))) = length (rb_inorder t)"
    using assms(2) by (auto simp: length_remove1 dest: length_pos_if_in_set)
  with t' rb_inv_height [OF t'(2)] show ?thesis by auto
qed

theorem rb_erase_balanced_witness:
  "\<exists>t'. rb_erase (compute_subtree_last ex_last) 2 (rb_root ex_root) = Some t' \<and> rb_inv t' \<and> rb_inorder t' = [1, 3]"
  using rb_erase_balanced [of "rb_root ex_root" 2 "compute_subtree_last ex_last"] ex_root
  by (auto simp: it_inv_def)

text \<open>
  C25. The loop from \<^verbatim>\<open>rb_first\<close> over \<^verbatim>\<open>rb_next\<close> ends after as many rounds as the tree has nodes and visits the
  nodes in order.
\<close>

theorem rb_loop_visits_all:
  assumes "distinct (rb_inorder t)"
  shows "rb_walk (length (rb_inorder t)) t (rb_first t) = Some (rb_inorder t)"
  using rb_walk_suffix [of t "[]" "rb_inorder t" "length (rb_inorder t)"] assms
  by (simp add: rb_first_inorder hd_option_def)

theorem rb_loop_visits_all_witness: "rb_walk 3 (rb_root ex_root) (rb_first (rb_root ex_root)) = Some [1, 2, 3]"
  using rb_loop_visits_all [of "rb_root ex_root"] ex_root by (simp add: numeral_3_eq_3)

text \<open>
  C26. The loop over \<^verbatim>\<open>_iter_first\<close> and \<^verbatim>\<open>_iter_next\<close> of an interval tree ends and visits, in the order of
  their starts, exactly the intervals that meet the query.
\<close>

theorem it_loop_visits_overlaps:
  assumes "it_inv st la root"
  shows "it_walk (length (it_list root)) st la root start lst (it_iter_first st la root start lst) =
    Some (filter (it_hits st la start lst) (it_list root))"
  using it_walk_suffix [OF assms, of "[]"] it_iter_first_correct [OF assms] by simp

theorem it_loop_visits_overlaps_witness:
  "it_walk 3 ex_start ex_last ex_root 22 25 (it_iter_first ex_start ex_last ex_root 22 25) = Some [1, 2]"
  using it_loop_visits_overlaps [OF ex_root(1), of 22 25] ex_root(2)
  by (simp add: it_hits_def ex_start_def ex_last_def numeral_3_eq_3)

text \<open>
  Inserting an interval and removing it again gives back the content of the tree, and both keep the
  tree's order, balance, cached leftmost node and subtree maxima.
\<close>

theorem it_insert_remove:
  assumes "it_inv st la root" and "x \<notin> set (it_list root)"
  shows "\<exists>root1 root2. it_insert st la x root = Some root1 \<and> it_inv st la root1 \<and>
    set (it_list root1) = insert x (set (it_list root)) \<and>
    it_remove la x root1 = Some root2 \<and> it_inv st la root2 \<and> it_list root2 = it_list root"
proof -
  obtain root1 us vs where r1: "it_insert st la x root = Some root1" "it_inv st la root1"
    "it_list root = us @ vs" "it_list root1 = us @ x # vs"
    using it_insert_correct [OF assms] by blast
  obtain root2 where "it_remove la x root1 = Some root2" "it_inv st la root2"
    "it_list root2 = remove1 x (it_list root1)"
    using it_remove_correct [OF r1(2), of x] r1(4) by auto
  with r1 assms(2) show ?thesis by (auto simp: remove1_append)
qed

theorem it_insert_remove_witness:
  "\<exists>root1 root2. it_insert ex_start ex_last 7 ex_root = Some root1 \<and>
     it_remove ex_last 7 root1 = Some root2 \<and> it_list root2 = [1, 2, 3]"
  using it_insert_remove [OF ex_root(1), of 7] by (auto simp: ex_root)

end
