(* ===== verification/DrmMM.thy ===== *)
theory DrmMM
  imports IntervalTree
begin

text \<open>
  The range allocator \<^verbatim>\<open>drm_mm.c\<close> / \<^verbatim>\<open>drm_mm.h\<close>: data model and operations.

  A \<^verbatim>\<open>struct drm_mm_node *\<close> is a number; \<open>mm_nodes\<close> is the memory that holds the structures. The
  number 0 is \<^verbatim>\<open>mm->head_node\<close>. The circular \<^verbatim>\<open>node_list\<close> is the list of the nodes behind the
  head, \<^verbatim>\<open>hole_stack\<close> the list of the nodes a hole follows, most recent first. The three
  red-black trees are those of theory \<open>RBTree\<close>, over node numbers, with the key read from
  memory as in the code.

  The functions return \<open>None\<close> where the C code would dereference \<^verbatim>\<open>NULL\<close> or run for ever.
  The callback \<^verbatim>\<open>color_adjust\<close> gets the node in front of the hole and the node behind it, which
  the drivers reach through \<^verbatim>\<open>list_next_entry\<close>. \<^verbatim>\<open>DRM_MM_BUG_ON\<close> compiles to nothing without
  \<^verbatim>\<open>CONFIG_DRM_DEBUG_MM\<close>; what it asserts is part of the invariant of theory \<open>DrmMM_Inv\<close>.
\<close>

unbundle bit_operations_syntax

section \<open>Data\<close>

datatype drm_mm_insert_mode =
  DRM_MM_INSERT_BEST | DRM_MM_INSERT_LOW | DRM_MM_INSERT_HIGH | DRM_MM_INSERT_EVICT

text \<open>
  \<open>nd_prev\<close> and \<open>nd_next\<close> are the links that stay in a node when \<^verbatim>\<open>__list_del_entry\<close> takes it
  out of the node list; while it is on the list its links are given by the list.
\<close>

record drm_mm_node =
  nd_color :: u64
  nd_start :: u64
  nd_size :: u64
  nd_hole_size :: u64
  nd_allocated :: bool
  nd_scanned_block :: bool
  nd_prev :: nat
  nd_next :: nat

type_synonym color_adjust = "drm_mm_node \<Rightarrow> drm_mm_node \<Rightarrow> u64 \<Rightarrow> u64 \<times> u64 \<Rightarrow> u64 \<times> u64"

text \<open>The number of nodes in a scan is a natural number: every node is counted once, so that it cannot wrap around.\<close>

record drm_mm =
  mm_color_adjust :: "color_adjust option"
  mm_hole_stack :: "nat list"
  mm_nodes :: "nat \<Rightarrow> drm_mm_node"
  mm_node_list :: "nat list"
  mm_interval_tree :: "(nat, u64) rb_root_cached"
  mm_holes_size :: "(nat, unit) rb_tree"
  mm_holes_addr :: "(nat, unit) rb_tree"
  mm_scan_active :: nat

record drm_mm_scan =
  sc_size :: u64
  sc_alignment :: u64
  sc_remainder_mask :: u64
  sc_range_start :: u64
  sc_range_end :: u64
  sc_hit_start :: u64
  sc_hit_end :: u64
  sc_color :: u64
  sc_mode :: drm_mm_insert_mode

definition HEAD :: nat where "HEAD = 0"

text \<open>A structure cleared with \<^verbatim>\<open>memset\<close>.\<close>

definition drm_mm_node_zero :: drm_mm_node where
  "drm_mm_node_zero = \<lparr>nd_color = 0, nd_start = 0, nd_size = 0, nd_hole_size = 0,
     nd_allocated = False, nd_scanned_block = False, nd_prev = 0, nd_next = 0\<rparr>"

section \<open>The lists\<close>

fun next_in :: "'a list \<Rightarrow> 'a \<Rightarrow> 'a \<Rightarrow> 'a" where
  "next_in [] n d = d"
| "next_in (x # xs) n d = (if x = n then (case xs of [] \<Rightarrow> d | y # _ \<Rightarrow> y) else next_in xs n d)"

fun list_add_behind :: "'a \<Rightarrow> 'a \<Rightarrow> 'a list \<Rightarrow> 'a list" where
  "list_add_behind h n [] = []"
| "list_add_behind h n (x # xs) = (if x = h then x # n # xs else x # list_add_behind h n xs)"

definition mm_list_next :: "drm_mm \<Rightarrow> nat \<Rightarrow> nat" where
  "mm_list_next mm n = next_in (HEAD # mm_node_list mm) n HEAD"

definition mm_list_prev :: "drm_mm \<Rightarrow> nat \<Rightarrow> nat" where
  "mm_list_prev mm n = next_in (HEAD # rev (mm_node_list mm)) n HEAD"

definition mm_list_add :: "nat \<Rightarrow> nat \<Rightarrow> drm_mm \<Rightarrow> drm_mm" where
  "mm_list_add n h mm = mm\<lparr>mm_node_list := tl (list_add_behind h n (HEAD # mm_node_list mm))\<rparr>"

definition mm_set :: "nat \<Rightarrow> (drm_mm_node \<Rightarrow> drm_mm_node) \<Rightarrow> drm_mm \<Rightarrow> drm_mm" where
  "mm_set n u mm = mm\<lparr>mm_nodes := (mm_nodes mm)(n := u (mm_nodes mm n))\<rparr>"

section \<open>Nodes and holes\<close>

abbreviation START :: "drm_mm \<Rightarrow> nat \<Rightarrow> u64" where
  "START mm n \<equiv> nd_start (mm_nodes mm n)"

definition LAST :: "drm_mm \<Rightarrow> nat \<Rightarrow> u64" where
  "LAST mm n = nd_start (mm_nodes mm n) + nd_size (mm_nodes mm n) - 1"

definition drm_mm_node_allocated :: "drm_mm \<Rightarrow> nat \<Rightarrow> bool" where
  "drm_mm_node_allocated mm n = nd_allocated (mm_nodes mm n)"

definition drm_mm_hole_follows :: "drm_mm \<Rightarrow> nat \<Rightarrow> bool" where
  "drm_mm_hole_follows mm n = (nd_hole_size (mm_nodes mm n) \<noteq> 0)"

definition drm_mm_hole_node_start :: "drm_mm \<Rightarrow> nat \<Rightarrow> u64" where
  "drm_mm_hole_node_start mm n = nd_start (mm_nodes mm n) + nd_size (mm_nodes mm n)"

definition drm_mm_hole_node_end :: "drm_mm \<Rightarrow> nat \<Rightarrow> u64" where
  "drm_mm_hole_node_end mm n = nd_start (mm_nodes mm (mm_list_next mm n))"

definition drm_mm_clean :: "drm_mm \<Rightarrow> bool" where
  "drm_mm_clean mm = (mm_node_list mm = [])"

definition drm_mm_interval_first :: "drm_mm \<Rightarrow> u64 \<Rightarrow> u64 \<Rightarrow> nat" where
  "drm_mm_interval_first mm start lst =
     (case it_iter_first (START mm) (LAST mm) (mm_interval_tree mm) start lst of
        Some n \<Rightarrow> n | None \<Rightarrow> HEAD)"

text \<open>
  \<^verbatim>\<open>drm_mm_interval_tree_add_node\<close>. From an allocated \<^verbatim>\<open>hole_node\<close> upwards the subtree ends are raised
  until one is large enough; the descent then starts at its right child. Note that the
  descent sets \<^verbatim>\<open>leftmost = true\<close> when it turns right, where the template of the interval tree
  has \<^verbatim>\<open>false\<close>.
\<close>

fun mm_raise :: "u64 \<Rightarrow> (nat, u64) rb_path \<Rightarrow> (nat, u64) rb_path" where
  "mm_raise lst [] = []"
| "mm_raise lst (LeftOf c x a r # ps) =
     (if a \<ge> lst then LeftOf c x a r # ps else LeftOf c x lst r # mm_raise lst ps)"
| "mm_raise lst (RightOf l c x a # ps) =
     (if a \<ge> lst then RightOf l c x a # ps else RightOf l c x lst # mm_raise lst ps)"

fun mm_descend :: "(nat \<Rightarrow> u64) \<Rightarrow> u64 \<Rightarrow> u64 \<Rightarrow> (nat, u64) rb_tree \<Rightarrow> (nat, u64) rb_path \<Rightarrow> bool \<Rightarrow>
    (nat, u64) rb_path \<times> bool" where
  "mm_descend st start lst RB_NULL ps leftmost = (ps, leftmost)"
| "mm_descend st start lst (RB_Node l c x a r) ps leftmost =
     (let a' = (if a < lst then lst else a)
      in if start < st x then mm_descend st start lst l (LeftOf c x a' r # ps) leftmost
         else mm_descend st start lst r (RightOf l c x a' # ps) True)"

definition drm_mm_interval_tree_add_node :: "nat \<Rightarrow> nat \<Rightarrow> drm_mm \<Rightarrow> drm_mm option" where
  "drm_mm_interval_tree_add_node hole node mm =
     (let tree = mm_interval_tree mm;
          start = nd_start (mm_nodes mm node);
          lst = LAST mm node;
          place =
            (if nd_allocated (mm_nodes mm hole) then
               (case rb_locate hole (rb_root tree) [] of
                  Some (RB_Node l c h a r, ps) \<Rightarrow>
                    Some (mm_descend (START mm) start lst r
                            (mm_raise lst (RightOf l c h a # ps)) False)
                | _ \<Rightarrow> None)
             else Some (mm_descend (START mm) start lst (rb_root tree) [] True))
      in case place of
           None \<Rightarrow> None
         | Some (ps, leftmost) \<Rightarrow>
             map_option (\<lambda>tree'. mm\<lparr>mm_interval_tree := tree'\<rparr>)
               (rb_insert_augmented_cached (compute_subtree_last (LAST mm)) node lst ps leftmost tree))"

definition drm_mm_interval_tree_remove :: "nat \<Rightarrow> drm_mm \<Rightarrow> drm_mm option" where
  "drm_mm_interval_tree_remove node mm =
     map_option (\<lambda>tree'. mm\<lparr>mm_interval_tree := tree'\<rparr>)
       (it_remove (LAST mm) node (mm_interval_tree mm))"

text \<open>The macro \<^verbatim>\<open>RB_INSERT\<close>.\<close>

fun rb_insert_descend :: "(nat \<Rightarrow> u64) \<Rightarrow> u64 \<Rightarrow> (nat, unit) rb_tree \<Rightarrow> (nat, unit) rb_path \<Rightarrow>
    (nat, unit) rb_path" where
  "rb_insert_descend expr x RB_NULL ps = ps"
| "rb_insert_descend expr x (RB_Node l c y a r) ps =
     (if x < expr y then rb_insert_descend expr x l (LeftOf c y a r # ps)
      else rb_insert_descend expr x r (RightOf l c y a # ps))"

definition no_augment :: "(nat, unit) rb_compute" where
  "no_augment x l r = ()"

definition RB_INSERT :: "(nat \<Rightarrow> u64) \<Rightarrow> nat \<Rightarrow> (nat, unit) rb_tree \<Rightarrow> (nat, unit) rb_tree option" where
  "RB_INSERT expr node root =
     rb_insert_color no_augment node () (rb_insert_descend expr (expr node) root [])"

abbreviation HOLE_SIZE :: "drm_mm \<Rightarrow> nat \<Rightarrow> u64" where
  "HOLE_SIZE mm n \<equiv> nd_hole_size (mm_nodes mm n)"

abbreviation HOLE_ADDR :: "drm_mm \<Rightarrow> nat \<Rightarrow> u64" where
  "HOLE_ADDR mm n \<equiv> drm_mm_hole_node_start mm n"

definition add_hole :: "nat \<Rightarrow> drm_mm \<Rightarrow> drm_mm option" where
  "add_hole node mm =
     (let mm1 = mm_set node (\<lambda>nd. nd\<lparr>nd_hole_size :=
                  drm_mm_hole_node_end mm node - drm_mm_hole_node_start mm node\<rparr>) mm
      in case RB_INSERT (HOLE_SIZE mm1) node (mm_holes_size mm1) of
           None \<Rightarrow> None
         | Some hs \<Rightarrow>
             (case RB_INSERT (HOLE_ADDR mm1) node (mm_holes_addr mm1) of
                None \<Rightarrow> None
              | Some ha \<Rightarrow>
                  Some (mm1\<lparr>mm_holes_size := hs, mm_holes_addr := ha,
                            mm_hole_stack := node # mm_hole_stack mm1\<rparr>)))"

definition rm_hole :: "nat \<Rightarrow> drm_mm \<Rightarrow> drm_mm option" where
  "rm_hole node mm =
     (case rb_erase no_augment node (mm_holes_size mm) of
        None \<Rightarrow> None
      | Some hs \<Rightarrow>
          (case rb_erase no_augment node (mm_holes_addr mm) of
             None \<Rightarrow> None
           | Some ha \<Rightarrow>
               Some (mm_set node (\<lambda>nd. nd\<lparr>nd_hole_size := 0\<rparr>)
                 (mm\<lparr>mm_hole_stack := remove1 node (mm_hole_stack mm),
                     mm_holes_size := hs, mm_holes_addr := ha\<rparr>))))"

section \<open>Looking for a hole\<close>

fun best_hole_at :: "(nat \<Rightarrow> u64) \<Rightarrow> u64 \<Rightarrow> (nat, unit) rb_tree \<Rightarrow> nat option \<Rightarrow> nat option" where
  "best_hole_at hsize sz RB_NULL best = best"
| "best_hole_at hsize sz (RB_Node l c x a r) best =
     (if sz \<le> hsize x then best_hole_at hsize sz l (Some x) else best_hole_at hsize sz r best)"

definition best_hole :: "drm_mm \<Rightarrow> u64 \<Rightarrow> nat option" where
  "best_hole mm sz = best_hole_at (HOLE_SIZE mm) sz (mm_holes_size mm) None"

text \<open>\<^verbatim>\<open>find_hole\<close> returns the last node it looked at, also when no hole contains the address.\<close>

fun find_hole_at :: "drm_mm \<Rightarrow> u64 \<Rightarrow> (nat, unit) rb_tree \<Rightarrow> nat option \<Rightarrow> nat option" where
  "find_hole_at mm addr RB_NULL node = node"
| "find_hole_at mm addr (RB_Node l c x a r) node =
     (let hole_start = drm_mm_hole_node_start mm x
      in if addr < hole_start then find_hole_at mm addr l (Some x)
         else if addr > hole_start + HOLE_SIZE mm x then find_hole_at mm addr r (Some x)
         else Some x)"

definition find_hole :: "drm_mm \<Rightarrow> u64 \<Rightarrow> nat option" where
  "find_hole mm addr = find_hole_at mm addr (mm_holes_addr mm) None"

definition first_hole :: "drm_mm \<Rightarrow> u64 \<Rightarrow> u64 \<Rightarrow> u64 \<Rightarrow> drm_mm_insert_mode \<Rightarrow> nat option" where
  "first_hole mm start end sz mode =
     (if mm_holes_size mm = RB_NULL then None
      else case mode of
        DRM_MM_INSERT_BEST \<Rightarrow> best_hole mm sz
      | DRM_MM_INSERT_LOW \<Rightarrow> find_hole mm start
      | DRM_MM_INSERT_HIGH \<Rightarrow> find_hole mm end
      | DRM_MM_INSERT_EVICT \<Rightarrow>
          (case mm_hole_stack mm of [] \<Rightarrow> None | n # _ \<Rightarrow> Some n))"

fun next_on_list :: "'a \<Rightarrow> 'a list \<Rightarrow> 'a option" where
  "next_on_list n [] = None"
| "next_on_list n (x # xs) =
     (if x = n then (case xs of [] \<Rightarrow> None | y # _ \<Rightarrow> Some y) else next_on_list n xs)"

definition next_hole :: "drm_mm \<Rightarrow> nat \<Rightarrow> drm_mm_insert_mode \<Rightarrow> nat option" where
  "next_hole mm node mode =
     (case mode of
        DRM_MM_INSERT_BEST \<Rightarrow> rb_next (mm_holes_size mm) node
      | DRM_MM_INSERT_LOW \<Rightarrow> rb_next (mm_holes_addr mm) node
      | DRM_MM_INSERT_HIGH \<Rightarrow> rb_prev (mm_holes_addr mm) node
      | DRM_MM_INSERT_EVICT \<Rightarrow> next_on_list node (mm_hole_stack mm))"

definition is_power_of_2 :: "u64 \<Rightarrow> bool" where
  "is_power_of_2 n \<longleftrightarrow> n \<noteq> 0 \<and> n AND (n - 1) = 0"

definition mm_alignment :: "u64 \<Rightarrow> u64" where
  "mm_alignment al = (if al \<le> 1 then 0 else al)"

definition mm_remainder_mask :: "u64 \<Rightarrow> u64" where
  "mm_remainder_mask al = (if is_power_of_2 al then al - 1 else 0)"

definition mm_color_range :: "drm_mm \<Rightarrow> nat \<Rightarrow> u64 \<Rightarrow> u64 \<times> u64 \<Rightarrow> u64 \<times> u64" where
  "mm_color_range mm hole color rng =
     (case mm_color_adjust mm of
        None \<Rightarrow> rng
      | Some adj \<Rightarrow> adj (mm_nodes mm hole) (mm_nodes mm (mm_list_next mm hole)) color rng)"

text \<open>
  Where in a hole the block would go, from the comparison of the range with the hole to the
  corrections for the alignment; \<open>None\<close> is the \<^verbatim>\<open>continue\<close> of the insertion and the
  \<^verbatim>\<open>return false\<close> of the scan, which have this code in common.
\<close>

definition mm_fit :: "drm_mm_insert_mode \<Rightarrow> u64 \<Rightarrow> u64 \<Rightarrow> u64 \<Rightarrow> u64 \<Rightarrow> u64 \<Rightarrow> u64 \<Rightarrow> u64 \<Rightarrow> u64 option" where
  "mm_fit mode sz alignment remainder_mask range_start range_end col_start col_end =
     (let adj_start = max col_start range_start;
          adj_end = min col_end range_end
      in if adj_end \<le> adj_start \<or> adj_end - adj_start < sz then None
         else
           let adj_start = (if mode = DRM_MM_INSERT_HIGH then adj_end - sz else adj_start);
               rem = (if remainder_mask \<noteq> 0 then adj_start AND remainder_mask
                      else adj_start mod alignment)
           in if alignment = 0 \<or> rem = 0 then Some adj_start
              else
                let adj_start = adj_start - rem;
                    adj_start = (if mode \<noteq> DRM_MM_INSERT_HIGH then adj_start + alignment
                                 else adj_start)
                in if adj_start < max col_start range_start \<or>
                      min col_end range_end - adj_start < sz then None
                   else if adj_end \<le> adj_start \<or> adj_end - adj_start < sz then None
                   else Some adj_start)"

section \<open>Inserting, removing and replacing nodes\<close>

text \<open>The part that \<^verbatim>\<open>drm_mm_reserve_node\<close> and \<^verbatim>\<open>drm_mm_insert_node_in_range\<close> share: linking a node, whose
  place is set, into a hole.\<close>

definition mm_link_node :: "nat \<Rightarrow> nat \<Rightarrow> u64 \<Rightarrow> u64 \<Rightarrow> u64 \<Rightarrow> u64 \<Rightarrow> drm_mm \<Rightarrow> drm_mm option" where
  "mm_link_node hole node hole_start hole_end node_start node_end mm =
     (case drm_mm_interval_tree_add_node hole node (mm_list_add node hole mm) of
        None \<Rightarrow> None
      | Some mm1 \<Rightarrow>
          (case rm_hole hole (mm_set node (\<lambda>nd. nd\<lparr>nd_allocated := True, nd_hole_size := 0\<rparr>) mm1) of
             None \<Rightarrow> None
           | Some mm2 \<Rightarrow>
               (case (if node_start > hole_start then add_hole hole mm2 else Some mm2) of
                  None \<Rightarrow> None
                | Some mm3 \<Rightarrow>
                    if node_end < hole_end then add_hole node mm3 else Some mm3)))"

definition drm_mm_reserve_node :: "drm_mm \<Rightarrow> nat \<Rightarrow> (errno + drm_mm) option" where
  "drm_mm_reserve_node mm node =
     (let start = nd_start (mm_nodes mm node);
          end = start + nd_size (mm_nodes mm node)
      in if end \<le> start then Some (Inl ENOSPC)
         else case find_hole mm start of
           None \<Rightarrow> Some (Inl ENOSPC)
         | Some hole \<Rightarrow>
             (let hole_start = drm_mm_hole_node_start mm hole;
                  hole_end = hole_start + HOLE_SIZE mm hole;
                  (adj_start, adj_end) =
                    mm_color_range mm hole (nd_color (mm_nodes mm node)) (hole_start, hole_end)
              in if adj_start > start \<or> adj_end < end then Some (Inl ENOSPC)
                 else map_option Inr (mm_link_node hole node hole_start hole_end start end mm)))"

text \<open>
  The loop of \<^verbatim>\<open>drm_mm_insert_node_in_range\<close>. \<open>fuel\<close> counts the holes that are still to be looked at;
  running out of it is \<open>None\<close>.
\<close>

fun mm_insert_loop :: "nat \<Rightarrow> drm_mm \<Rightarrow> nat \<Rightarrow> u64 \<Rightarrow> u64 \<Rightarrow> u64 \<Rightarrow> u64 \<Rightarrow> u64 \<Rightarrow>
    drm_mm_insert_mode \<Rightarrow> nat option \<Rightarrow> (errno + drm_mm) option" where
  "mm_insert_loop fuel mm node sz alignment color range_start range_end mode None =
     Some (Inl ENOSPC)"
| "mm_insert_loop 0 mm node sz alignment color range_start range_end mode (Some hole) = None"
| "mm_insert_loop (Suc fuel) mm node sz alignment color range_start range_end mode (Some hole) =
     (let hole_start = drm_mm_hole_node_start mm hole;
          hole_end = hole_start + HOLE_SIZE mm hole
      in if mode = DRM_MM_INSERT_LOW \<and> hole_start \<ge> range_end then Some (Inl ENOSPC)
         else if mode = DRM_MM_INSERT_HIGH \<and> hole_end \<le> range_start then Some (Inl ENOSPC)
         else
           let (col_start, col_end) = mm_color_range mm hole color (hole_start, hole_end)
           in case mm_fit mode sz alignment (mm_remainder_mask alignment)
                     range_start range_end col_start col_end of
                None \<Rightarrow>
                  mm_insert_loop fuel mm node sz alignment color range_start range_end mode
                    (next_hole mm hole mode)
              | Some adj_start \<Rightarrow>
                  map_option Inr
                    (mm_link_node hole node hole_start hole_end adj_start (adj_start + sz)
                      (mm_set node (\<lambda>nd. nd\<lparr>nd_size := sz, nd_start := adj_start,
                                          nd_color := color, nd_hole_size := 0\<rparr>) mm)))"

definition drm_mm_insert_node_in_range :: "drm_mm \<Rightarrow> nat \<Rightarrow> u64 \<Rightarrow> u64 \<Rightarrow> u64 \<Rightarrow> u64 \<Rightarrow> u64 \<Rightarrow>
    drm_mm_insert_mode \<Rightarrow> (errno + drm_mm) option" where
  "drm_mm_insert_node_in_range mm node sz alignment color range_start range_end mode =
     (if sz = 0 \<or> range_end - range_start < sz then Some (Inl ENOSPC)
      else mm_insert_loop (length (mm_hole_stack mm)) mm node sz (mm_alignment alignment) color
             range_start range_end mode (first_hole mm range_start range_end sz mode))"

definition drm_mm_insert_node_generic :: "drm_mm \<Rightarrow> nat \<Rightarrow> u64 \<Rightarrow> u64 \<Rightarrow> u64 \<Rightarrow>
    drm_mm_insert_mode \<Rightarrow> (errno + drm_mm) option" where
  "drm_mm_insert_node_generic mm node sz alignment color mode =
     drm_mm_insert_node_in_range mm node sz alignment color 0 (- 1) mode"

definition drm_mm_insert_node :: "drm_mm \<Rightarrow> nat \<Rightarrow> u64 \<Rightarrow> (errno + drm_mm) option" where
  "drm_mm_insert_node mm node sz =
     drm_mm_insert_node_generic mm node sz 0 0 DRM_MM_INSERT_BEST"

definition drm_mm_remove_node :: "nat \<Rightarrow> drm_mm \<Rightarrow> drm_mm option" where
  "drm_mm_remove_node node mm =
     (let prev_node = mm_list_prev mm node
      in case (if drm_mm_hole_follows mm node then rm_hole node mm else Some mm) of
           None \<Rightarrow> None
         | Some mm1 \<Rightarrow>
             (case drm_mm_interval_tree_remove node mm1 of
                None \<Rightarrow> None
              | Some mm2 \<Rightarrow>
                  (let mm3 = mm_set node (\<lambda>nd. nd\<lparr>nd_allocated := False\<rparr>)
                               (mm2\<lparr>mm_node_list := remove1 node (mm_node_list mm2)\<rparr>)
                   in case (if drm_mm_hole_follows mm3 prev_node then rm_hole prev_node mm3
                            else Some mm3) of
                        None \<Rightarrow> None
                      | Some mm4 \<Rightarrow> add_hole prev_node mm4)))"

definition list_replace :: "'a \<Rightarrow> 'a \<Rightarrow> 'a list \<Rightarrow> 'a list" where
  "list_replace old new xs = map (\<lambda>x. if x = old then new else x) xs"

definition drm_mm_replace_node :: "nat \<Rightarrow> nat \<Rightarrow> drm_mm \<Rightarrow> drm_mm" where
  "drm_mm_replace_node old new mm =
     (let mm1 = mm_set new (\<lambda>_. mm_nodes mm old) mm;
          mm2 = mm1\<lparr>mm_node_list := list_replace old new (mm_node_list mm1),
                    mm_interval_tree := rb_replace_node_cached old new (mm_interval_tree mm1)\<rparr>;
          mm3 = (if drm_mm_hole_follows mm2 old then
                   mm2\<lparr>mm_hole_stack := list_replace old new (mm_hole_stack mm2),
                       mm_holes_size := rb_replace_node old new (mm_holes_size mm2),
                       mm_holes_addr := rb_replace_node old new (mm_holes_addr mm2)\<rparr>
                 else mm2)
      in mm_set new (\<lambda>nd. nd\<lparr>nd_allocated := True\<rparr>)
           (mm_set old (\<lambda>nd. nd\<lparr>nd_allocated := False\<rparr>) mm3))"

section \<open>Scanning for evictions\<close>

definition drm_mm_scan_init_with_range :: "u64 \<Rightarrow> u64 \<Rightarrow> u64 \<Rightarrow> u64 \<Rightarrow> u64 \<Rightarrow>
    drm_mm_insert_mode \<Rightarrow> drm_mm_scan" where
  "drm_mm_scan_init_with_range sz alignment color start end mode =
     (let alignment = mm_alignment alignment
      in \<lparr>sc_size = sz, sc_alignment = alignment,
          sc_remainder_mask = mm_remainder_mask alignment,
          sc_range_start = start, sc_range_end = end,
          sc_hit_start = - 1, sc_hit_end = 0, sc_color = color, sc_mode = mode\<rparr>)"

definition drm_mm_scan_init :: "u64 \<Rightarrow> u64 \<Rightarrow> u64 \<Rightarrow> drm_mm_insert_mode \<Rightarrow> drm_mm_scan" where
  "drm_mm_scan_init sz alignment color mode =
     drm_mm_scan_init_with_range sz alignment color 0 (- 1) mode"

definition drm_mm_scan_add_block :: "nat \<Rightarrow> drm_mm_scan \<Rightarrow> drm_mm \<Rightarrow>
    bool \<times> drm_mm_scan \<times> drm_mm" where
  "drm_mm_scan_add_block node scan mm =
     (let hole = mm_list_prev mm node;
          mm1 = mm_set node (\<lambda>nd. nd\<lparr>nd_scanned_block := True, nd_prev := hole,
                                    nd_next := mm_list_next mm node\<rparr>)
                  (mm\<lparr>mm_scan_active := mm_scan_active mm + 1,
                      mm_node_list := remove1 node (mm_node_list mm)\<rparr>);
          hole_start = drm_mm_hole_node_start mm1 hole;
          hole_end = drm_mm_hole_node_end mm1 hole;
          (col_start, col_end) = mm_color_range mm1 hole (sc_color scan) (hole_start, hole_end)
      in case mm_fit (sc_mode scan) (sc_size scan) (sc_alignment scan) (sc_remainder_mask scan)
                (sc_range_start scan) (sc_range_end scan) col_start col_end of
           None \<Rightarrow> (False, scan, mm1)
         | Some adj_start \<Rightarrow>
             (True, scan\<lparr>sc_hit_start := adj_start, sc_hit_end := adj_start + sc_size scan\<rparr>, mm1))"

definition drm_mm_scan_remove_block :: "nat \<Rightarrow> drm_mm_scan \<Rightarrow> drm_mm \<Rightarrow> bool \<times> drm_mm" where
  "drm_mm_scan_remove_block node scan mm =
     (let mm1 = mm_set node (\<lambda>nd. nd\<lparr>nd_scanned_block := False\<rparr>)
                  (mm\<lparr>mm_scan_active := mm_scan_active mm - 1\<rparr>);
          prev_node = nd_prev (mm_nodes mm1 node);
          nd = mm_nodes mm1 node
      in (nd_start nd + nd_size nd > sc_hit_start scan \<and> nd_start nd < sc_hit_end scan,
          mm_list_add node prev_node mm1))"

definition drm_mm_scan_color_evict :: "drm_mm_scan \<Rightarrow> drm_mm \<Rightarrow> nat option" where
  "drm_mm_scan_color_evict scan mm =
     (case mm_color_adjust mm of
        None \<Rightarrow> None
      | Some adj \<Rightarrow>
          (case find (\<lambda>hole. drm_mm_hole_node_start mm hole \<le> sc_hit_start scan \<and>
                        drm_mm_hole_node_start mm hole + HOLE_SIZE mm hole \<ge> sc_hit_end scan)
                  (mm_hole_stack mm) of
             None \<Rightarrow> None
           | Some hole \<Rightarrow>
               (let (hole_start, hole_end) = adj (mm_nodes mm hole)
                      (mm_nodes mm (mm_list_next mm hole)) (sc_color scan)
                      (drm_mm_hole_node_start mm hole,
                       drm_mm_hole_node_start mm hole + HOLE_SIZE mm hole)
                in if hole_start > sc_hit_start scan then Some hole
                   else if hole_end < sc_hit_end scan then Some (mm_list_next mm hole)
                   else None)))"

section \<open>Setting up and taking down\<close>

definition drm_mm_init :: "(nat \<Rightarrow> drm_mm_node) \<Rightarrow> u64 \<Rightarrow> u64 \<Rightarrow> drm_mm option" where
  "drm_mm_init memory start sz =
     add_hole HEAD
       \<lparr>mm_color_adjust = None, mm_hole_stack = [],
        mm_nodes = memory(HEAD := drm_mm_node_zero\<lparr>nd_start := start + sz, nd_size := - sz\<rparr>),
        mm_node_list = [], mm_interval_tree = RB_ROOT_CACHED,
        mm_holes_size = RB_NULL, mm_holes_addr = RB_NULL, mm_scan_active = 0\<rparr>"

text \<open>\<^verbatim>\<open>drm_mm_takedown\<close> warns when the allocator is not clean; the result is whether it does.\<close>

definition drm_mm_takedown :: "drm_mm \<Rightarrow> bool" where
  "drm_mm_takedown mm = (\<not> drm_mm_clean mm)"

text \<open>The totals that \<^verbatim>\<open>drm_mm_print\<close> computes: all, used and free.\<close>

definition drm_mm_print_totals :: "drm_mm \<Rightarrow> u64 \<times> u64 \<times> u64" where
  "drm_mm_print_totals mm =
     (let (used, free) =
            fold (\<lambda>n (used, free). (used + nd_size (mm_nodes mm n), free + HOLE_SIZE mm n))
              (mm_node_list mm) (0, HOLE_SIZE mm HEAD)
      in (free + used, used, free))"

section \<open>The guard pages of i915\<close>

text \<open>The callback that the i915 driver installs on its global graphics address space.\<close>

definition I915_GTT_PAGE_SIZE :: u64 where "I915_GTT_PAGE_SIZE = 4096"

definition i915_gtt_color_adjust :: color_adjust where
  "i915_gtt_color_adjust node next color rng =
     (let (start, end) = rng
      in (if nd_allocated node \<and> nd_color node \<noteq> color then start + I915_GTT_PAGE_SIZE else start,
          if nd_color next \<noteq> color then end - I915_GTT_PAGE_SIZE else end))"

end
