(* ===== verification/DrmMM_Inv.thy ===== *)
theory DrmMM_Inv
  imports DrmMM
begin

text \<open>
  The invariant of the range allocator and the lemmas on its parts: the node list as a chain
  of disjoint blocks, the trees of holes as ordered indexes, and the primitive steps
  \<^verbatim>\<open>add_hole\<close>, \<^verbatim>\<open>rm_hole\<close> and \<^verbatim>\<open>drm_mm_interval_tree_add_node\<close>.
\<close>

section \<open>Lists with a head\<close>

abbreviation mm_ring :: "drm_mm \<Rightarrow> nat list" where
  "mm_ring mm \<equiv> HEAD # mm_node_list mm"

lemma next_in_split: "n \<notin> set us \<Longrightarrow> next_in (us @ n # vs) n d = (case vs of [] \<Rightarrow> d | v # _ \<Rightarrow> v)"
  by (induction us) auto

lemma list_add_behind_split: "h \<notin> set us \<Longrightarrow> list_add_behind h n (us @ h # vs) = us @ h # n # vs"
  by (induction us) auto

lemma next_on_list_split:
  "n \<notin> set us \<Longrightarrow> next_on_list n (us @ n # vs) = (case vs of [] \<Rightarrow> None | v # _ \<Rightarrow> Some v)"
  by (induction us) auto

text \<open>The hole behind \<open>h\<close> lies between the nodes \<open>us\<close> and the nodes \<open>vs\<close>.\<close>

definition mm_gap :: "drm_mm \<Rightarrow> nat \<Rightarrow> nat list \<Rightarrow> nat list \<Rightarrow> bool" where
  "mm_gap mm h us vs \<longleftrightarrow> mm_node_list mm = us @ vs \<and> h = last (HEAD # us)"

definition mm_list_ok :: "drm_mm \<Rightarrow> bool" where
  "mm_list_ok mm \<longleftrightarrow> distinct (mm_ring mm)"

lemma mm_gapE:
  assumes "h \<in> set (mm_ring mm)"
  obtains us vs where "mm_gap mm h us vs"
proof (cases "h = HEAD")
  case True
  then have "mm_gap mm h [] (mm_node_list mm)" by (simp add: mm_gap_def)
  then show thesis by (rule that)
next
  case False
  with assms obtain us vs where "mm_node_list mm = us @ h # vs" by (auto dest: split_list)
  then have "mm_gap mm h (us @ [h]) vs" by (simp add: mm_gap_def)
  then show thesis by (rule that)
qed

lemma mm_gap_ring:
  assumes "mm_gap mm h us vs" "mm_list_ok mm"
  obtains xs where "HEAD # us = xs @ [h]" "h \<notin> set xs" "mm_ring mm = xs @ h # vs" "h \<notin> set vs"
proof -
  let ?xs = "butlast (HEAD # us)"
  from assms(1) have us: "HEAD # us = ?xs @ [h]" and ns: "mm_node_list mm = us @ vs"
    unfolding mm_gap_def by (metis append_butlast_last_id list.distinct(1), simp)
  then have ring: "mm_ring mm = ?xs @ h # vs"
    by (metis append.assoc append_Cons append_Nil)
  with assms(2) have "h \<notin> set ?xs" "h \<notin> set vs"
    unfolding mm_list_ok_def ring by (simp_all del: butlast.simps)
  with us ring that show thesis by blast
qed

lemma mm_list_next_gap:
  assumes "mm_gap mm h us vs" "mm_list_ok mm"
  shows "mm_list_next mm h = (case vs of [] \<Rightarrow> HEAD | v # _ \<Rightarrow> v)"
proof -
  obtain xs where "mm_ring mm = xs @ h # vs" "h \<notin> set xs"
    using mm_gap_ring [OF assms] by blast
  then show ?thesis unfolding mm_list_next_def by (simp add: next_in_split)
qed

lemma mm_node_list_add:
  assumes "mm_gap mm h us vs" "mm_list_ok mm"
  shows "mm_node_list (mm_list_add n h mm) = us @ n # vs"
proof -
  obtain xs where xs: "HEAD # us = xs @ [h]" "h \<notin> set xs" "mm_ring mm = xs @ h # vs"
    using mm_gap_ring [OF assms] by blast
  then have "list_add_behind h n (mm_ring mm) = (HEAD # us) @ n # vs"
    by (simp add: list_add_behind_split)
  then show ?thesis by (simp add: mm_list_add_def)
qed

lemma mm_list_prev_split:
  assumes "mm_node_list mm = us @ n # vs" "mm_list_ok mm"
  shows "mm_list_prev mm n = last (HEAD # us)"
proof -
  have "HEAD # rev (mm_node_list mm) = (HEAD # rev vs) @ n # rev us" using assms(1) by simp
  moreover have "n \<notin> set (HEAD # rev vs)" using assms by (auto simp: mm_list_ok_def)
  ultimately have "mm_list_prev mm n = (case rev us of [] \<Rightarrow> HEAD | v # _ \<Rightarrow> v)"
    unfolding mm_list_prev_def by (metis next_in_split)
  also have "\<dots> = last (HEAD # us)" by (cases us rule: rev_cases) auto
  finally show ?thesis .
qed

section \<open>The node list is a chain of disjoint blocks\<close>

fun mm_chain :: "(nat \<Rightarrow> drm_mm_node) \<Rightarrow> u64 \<Rightarrow> nat list \<Rightarrow> u64 \<Rightarrow> bool" where
  "mm_chain N p [] e \<longleftrightarrow> p \<le> e"
| "mm_chain N p (n # ns) e \<longleftrightarrow> p \<le> nd_start (N n) \<and>
     nd_start (N n) < nd_start (N n) + nd_size (N n) \<and>
     mm_chain N (nd_start (N n) + nd_size (N n)) ns e"

lemma mm_chain_middle:
  "mm_chain N p (us @ n # vs) e \<longleftrightarrow> mm_chain N p us (nd_start (N n)) \<and>
     nd_start (N n) < nd_start (N n) + nd_size (N n) \<and>
     mm_chain N (nd_start (N n) + nd_size (N n)) vs e"
  by (induction us arbitrary: p) auto

lemma mm_chain_le: "mm_chain N p ns e \<Longrightarrow> p \<le> e"
proof (induction ns arbitrary: p)
  case (Cons n ns)
  then show ?case by (meson less_imp_le mm_chain.simps(2) order_trans)
qed simp

lemma mm_chain_mem:
  "mm_chain N p ns e \<Longrightarrow> n \<in> set ns \<Longrightarrow>
   p \<le> nd_start (N n) \<and> nd_start (N n) < nd_start (N n) + nd_size (N n) \<and>
   nd_start (N n) + nd_size (N n) \<le> e"
proof (induction ns arbitrary: p)
  case (Cons m ns)
  then show ?case by (auto dest: mm_chain_le) (meson less_imp_le order_trans)+
qed simp

lemma mm_chain_cong:
  "(\<And>n. n \<in> set ns \<Longrightarrow> nd_start (M n) = nd_start (N n) \<and> nd_size (M n) = nd_size (N n)) \<Longrightarrow>
   mm_chain M p ns e = mm_chain N p ns e"
  by (induction ns arbitrary: p) auto

text \<open>Where the blocks \<open>us\<close> end, and the condition for further blocks to follow them.\<close>

definition mm_chain_end :: "(nat \<Rightarrow> drm_mm_node) \<Rightarrow> u64 \<Rightarrow> nat list \<Rightarrow> u64" where
  "mm_chain_end N p us =
     (if us = [] then p else nd_start (N (last us)) + nd_size (N (last us)))"

lemma mm_chain_append:
  "mm_chain N p (us @ vs) e \<longleftrightarrow>
   mm_chain N p us (mm_chain_end N p us) \<and> mm_chain N (mm_chain_end N p us) vs e"
proof (induction us arbitrary: p)
  case (Cons u us)
  then show ?case by (cases us) (auto simp: mm_chain_end_def)
qed (simp add: mm_chain_end_def)

lemma mm_chain_mono: "mm_chain N p us e \<Longrightarrow> e \<le> e' \<Longrightarrow> mm_chain N p us e'"
  by (induction us arbitrary: p) auto

lemma mm_chain_sorted_wrt:
  "mm_chain N p ns e \<Longrightarrow>
   sorted_wrt (\<lambda>a b. nd_start (N a) + nd_size (N a) \<le> nd_start (N b)) ns"
  by (induction ns arbitrary: p) (auto dest: mm_chain_mem)

lemma mm_chain_sorted: "mm_chain N p ns e \<Longrightarrow> sorted (map (\<lambda>n. nd_start (N n)) ns)"
  by (induction ns arbitrary: p) (auto dest: mm_chain_mem intro: order_trans less_imp_le)

section \<open>Ordered indexes\<close>

text \<open>
  What the allocator asks of the trees it keeps its holes in: insertion by a key that is read
  from memory, removal by identity, and that the order only depends on the keys of the
  members.
\<close>

locale ordered_index =
  fixes index_ok :: "('k \<Rightarrow> 'v::linorder) \<Rightarrow> 't \<Rightarrow> 'k set \<Rightarrow> bool"
    and ins :: "('k \<Rightarrow> 'v) \<Rightarrow> 'k \<Rightarrow> 't \<Rightarrow> 't option"
    and del :: "'k \<Rightarrow> 't \<Rightarrow> 't option"
  assumes ins_ok: "index_ok key t S \<Longrightarrow> k \<notin> S \<Longrightarrow> \<exists>t'. ins key k t = Some t' \<and> index_ok key t' (insert k S)"
    and del_ok: "index_ok key t S \<Longrightarrow> k \<in> S \<Longrightarrow> \<exists>t'. del k t = Some t' \<and> index_ok key t' (S - {k})"
    and key_cong: "index_ok key t S \<Longrightarrow> (\<And>k. k \<in> S \<Longrightarrow> key' k = key k) \<Longrightarrow> index_ok key' t S"
begin

lemma del_rekey:
  assumes "index_ok key t S" and "k \<in> S" and "\<And>x. x \<in> S \<Longrightarrow> x \<noteq> k \<Longrightarrow> key' x = key x"
  shows "\<exists>t'. del k t = Some t' \<and> index_ok key' t' (S - {k})"
  using del_ok [OF assms(1,2)] key_cong assms(3) by blast

lemma ins_rekey:
  assumes "index_ok key t S" and "k \<notin> S" and "\<And>x. x \<in> S \<Longrightarrow> key' x = key x"
  shows "\<exists>t'. ins key' k t = Some t' \<and> index_ok key' t' (insert k S)"
  using ins_ok key_cong assms by blast

end

definition hole_index :: "(nat \<Rightarrow> u64) \<Rightarrow> (nat, unit) rb_tree \<Rightarrow> nat set \<Rightarrow> bool" where
  "hole_index key t S \<longleftrightarrow> rb_inv t \<and> distinct (rb_inorder t) \<and> set (rb_inorder t) = S \<and>
     sorted (map key (rb_inorder t))"

lemma rb_insert_descend_inv:
  "rb_inv (rb_plug t ps) \<Longrightarrow> rb_inv (rb_plug RB_NULL (rb_insert_descend expr x t ps))"
proof (induction expr x t ps rule: rb_insert_descend.induct)
  case (2 expr x l c y a r ps)
  then show ?case by (cases c) (auto simp: rb_inv_plug)
qed simp

lemma rb_insert_descend_place:
  "sorted (map expr (rb_inorder t)) \<Longrightarrow>
   \<exists>us vs. rb_inorder t = us @ vs \<and>
     rb_before (rb_insert_descend expr x t ps) = rb_before ps @ us \<and>
     rb_after (rb_insert_descend expr x t ps) = vs @ rb_after ps \<and>
     (\<forall>u\<in>set us. expr u \<le> x) \<and> (\<forall>v\<in>set vs. x < expr v)"
proof (induction expr x t ps rule: rb_insert_descend.induct)
  case (2 expr x l c y a r ps)
  from "2.prems" have srt: "sorted (map expr (rb_inorder l))" "sorted (map expr (rb_inorder r))"
    "\<forall>u\<in>set (rb_inorder l). expr u \<le> expr y" "\<forall>v\<in>set (rb_inorder r). expr y \<le> expr v"
    by (auto simp: sorted_append)
  show ?case
  proof (cases "x < expr y")
    case True
    from "2.IH"(1) [OF True srt(1)] True srt(4) show ?thesis
      by (fastforce dest: less_le_trans)
  next
    case False
    from "2.IH"(2) [OF False srt(2)] obtain us vs where
      "rb_inorder r = us @ vs"
      "rb_before (rb_insert_descend expr x r (RightOf l c y a # ps)) = rb_before (RightOf l c y a # ps) @ us"
      "rb_after (rb_insert_descend expr x r (RightOf l c y a # ps)) = vs @ rb_after ps"
      "\<forall>u\<in>set us. expr u \<le> x" "\<forall>v\<in>set vs. x < expr v"
      by auto
    with False srt(3) show ?thesis
      by (intro exI [of _ "rb_inorder l @ y # us"] exI [of _ vs]) (auto intro: order_trans)
  qed
qed auto

interpretation holes: ordered_index hole_index RB_INSERT "rb_erase no_augment"
proof
  fix key :: "nat \<Rightarrow> u64" and t S and k :: nat
  assume ok: "hole_index key t S" and k: "k \<notin> S"
  let ?qs = "rb_insert_descend key (key k) t []"
  from ok have "rb_inv (rb_plug t [])" by (simp add: hole_index_def)
  from rb_insert_color_correct [OF rb_insert_descend_inv [OF this], of no_augment k "()" key "key k"]
  obtain t' where t': "RB_INSERT key k t = Some t'" "rb_inv t'"
    "rb_inorder t' = rb_before ?qs @ k # rb_after ?qs"
    unfolding RB_INSERT_def by blast
  from rb_insert_descend_place [of key t "key k" "[]"] ok
  have place: "rb_inorder t = rb_before ?qs @ rb_after ?qs" "\<forall>u\<in>set (rb_before ?qs). key u \<le> key k"
    "\<forall>v\<in>set (rb_after ?qs). key k < key v"
    by (auto simp: hole_index_def)
  have "distinct (rb_inorder t')" "sorted (map key (rb_inorder t'))"
    using ok k place t'(3) by (auto simp: hole_index_def sorted_append)
  moreover have "set (rb_inorder t') = insert k S"
    using ok place(1) t'(3) by (auto simp: hole_index_def)
  ultimately show "\<exists>t'. RB_INSERT key k t = Some t' \<and> hole_index key t' (insert k S)"
    using t' by (auto simp: hole_index_def)
next
  fix key :: "nat \<Rightarrow> u64" and t S and k :: nat
  assume ok: "hole_index key t S" and k: "k \<in> S"
  then obtain t' where t': "rb_erase no_augment k t = Some t'" "rb_inv t'"
    "rb_inorder t' = remove1 k (rb_inorder t)"
    using rb_erase_correct [of t k no_augment] by (auto simp: hole_index_def)
  from ok have dist: "distinct (rb_inorder t)" and srt: "sorted (map key (rb_inorder t))"
    and set: "set (rb_inorder t) = S"
    by (auto simp: hole_index_def)
  from k set obtain us vs where split: "rb_inorder t = us @ k # vs" by (meson split_list)
  then have "rb_inorder t' = us @ vs" using t'(3) dist by (simp add: remove1_append)
  with t'(1,2) dist srt set split show "\<exists>t'. rb_erase no_augment k t = Some t' \<and> hole_index key t' (S - {k})"
    by (auto simp: hole_index_def sorted_append)
next
  fix key key' :: "nat \<Rightarrow> u64" and t S
  assume "hole_index key t S" and "\<And>k. k \<in> S \<Longrightarrow> key' k = key k"
  then show "hole_index key' t S"
    by (auto simp: hole_index_def cong: map_cong)
qed

section \<open>The interval tree\<close>

lemma rb_aug_ok_cong:
  "(\<And>x. x \<in> set (rb_inorder t) \<Longrightarrow> la' x = la x) \<Longrightarrow>
   rb_aug_ok (it_max la') t = rb_aug_ok (it_max la) t"
proof (induction t)
  case (RB_Node l c x a r)
  then have "it_max la' (rb_inorder l @ x # rb_inorder r) = it_max la (rb_inorder l @ x # rb_inorder r)"
    unfolding it_max_def by (intro arg_cong [where f = Max] image_cong) auto
  with RB_Node show ?case by auto
qed simp

lemma it_inv_cong:
  assumes "it_inv st la root"
    and "\<And>x. x \<in> set (it_list root) \<Longrightarrow> st' x = st x \<and> la' x = la x"
  shows "it_inv st' la' root"
  using assms rb_aug_ok_cong [of "rb_root root" la' la]
  by (auto simp: it_inv_def cong: map_cong)

lemma mm_raise_before [simp]: "rb_before (mm_raise lst ps) = rb_before ps"
  by (induction lst ps rule: mm_raise.induct) auto

lemma mm_raise_after [simp]: "rb_after (mm_raise lst ps) = rb_after ps"
  by (induction lst ps rule: mm_raise.induct) auto

lemma mm_raise_top_black [simp]: "rb_top_black (mm_raise lst ps) = rb_top_black ps"
  by (cases ps; cases "hd ps") auto

lemma mm_raise_path_ok [simp]: "rb_path_ok (mm_raise lst ps) h = rb_path_ok ps h"
  by (induction lst ps arbitrary: h rule: mm_raise.induct) auto

lemma mm_raise_stop:
  assumes "rb_aug_path (it_max la) ps zs" and "zs \<noteq> []" and "la x \<le> it_max la zs"
    and "set ys = insert x (set zs)"
  shows "rb_aug_path (it_max la) ps ys"
proof (rule it.aug_path_cong [OF assms(1) _ assms(2)])
  show "it_max la zs = it_max la ys"
    using it_max_insert [OF assms(4,2), of la] assms(3) by (simp add: max_def)
  show "ys \<noteq> []" using assms(4) by auto
qed

lemma mm_raise_grown:
  "rb_aug_path (it_max la) ps zs \<Longrightarrow> zs \<noteq> [] \<or> ps \<noteq> [] \<Longrightarrow>
   it_grown la x (mm_raise (la x) ps) (set zs)"
proof (induction ps arbitrary: zs)
  case Nil
  then show ?case by (simp add: it_grown_def)
next
  case (Cons p ps)
  obtain us where us: "us \<noteq> []" "rb_aug_path (it_max la) ps us" and cs:
    "(\<exists>c y r. p = LeftOf c y (it_max la us) r \<and> rb_aug_ok (it_max la) r \<and> us = zs @ y # rb_inorder r) \<or>
     (\<exists>l c y. p = RightOf l c y (it_max la us) \<and> rb_aug_ok (it_max la) l \<and> us = rb_inorder l @ y # zs)"
    using Cons.prems by (cases p) auto
  have grown: "it_grown la x (mm_raise (la x) ps) (set us)"
    using us by (intro Cons.IH) auto
  have stop: "la x \<le> it_max la us \<Longrightarrow> rb_aug_path (it_max la) ps ys"
    if "set ys = insert x (set us)" for ys
    using mm_raise_stop [OF us(2,1) _ that] .
  have mx: "it_max la ys = max (it_max la us) (la x)" if "set ys = insert x (set us)" for ys
    using it_max_insert [OF that us(1)] .
  have both: "it_max la ys = (if la x \<le> it_max la us then it_max la us else la x) \<and>
      rb_aug_path (it_max la) (if la x \<le> it_max la us then ps else mm_raise (la x) ps) ys"
    if ys: "set ys = insert x (set us)" for ys
  proof (cases "la x \<le> it_max la us")
    case True
    with mx [OF ys] stop [OF ys] show ?thesis by (simp add: max_absorb1)
  next
    case False
    with mx [OF ys] grown ys show ?thesis by (simp add: max_absorb2 it_grown_def)
  qed
  from cs show ?case
  proof (elim disjE exE conjE)
    fix c y r assume p: "p = LeftOf c y (it_max la us) r" "rb_aug_ok (it_max la) r"
      "us = zs @ y # rb_inorder r"
    show ?thesis
      unfolding it_grown_def
    proof (intro allI impI)
      fix ys assume "set ys = insert x (set zs)"
      then have "set (ys @ y # rb_inorder r) = insert x (set us)" unfolding p(3) by auto
      from both [OF this] show "rb_aug_path (it_max la) (mm_raise (la x) (p # ps)) ys"
        unfolding p(1) using p(2) by (cases "la x \<le> it_max la us") simp_all
    qed
  next
    fix l c y assume p: "p = RightOf l c y (it_max la us)" "rb_aug_ok (it_max la) l"
      "us = rb_inorder l @ y # zs"
    show ?thesis
      unfolding it_grown_def
    proof (intro allI impI)
      fix ys assume "set ys = insert x (set zs)"
      then have "set (rb_inorder l @ y # ys) = insert x (set us)" unfolding p(3) by auto
      from both [OF this] show "rb_aug_path (it_max la) (mm_raise (la x) (p # ps)) ys"
        unfolding p(1) using p(2) by (cases "la x \<le> it_max la us") simp_all
    qed
  qed
qed

lemma mm_descend_path:
  "fst (mm_descend st start lst t ps lm) = fst (it_descend st start lst t ps lm')"
  by (induction st start lst t ps lm arbitrary: lm' rule: mm_descend.induct) (auto simp: Let_def)

text \<open>
  When every member of the subtree starts behind the new node, the descent never turns right,
  so the suspicious assignment of \<^verbatim>\<open>leftmost\<close> in that branch is never reached.
\<close>

lemma mm_descend_left:
  "(\<And>y. y \<in> set (rb_inorder t) \<Longrightarrow> start < st y) \<Longrightarrow> snd (mm_descend st start lst t ps lm) = lm"
  by (induction st start lst t ps lm rule: mm_descend.induct) (auto simp: Let_def)

lemma mm_descend_place:
  assumes "\<And>y. y \<in> set (rb_inorder t) \<Longrightarrow> start < st y" and "sorted (map st (rb_inorder t))"
    and "mm_descend st start lst t ps lm = (qs, lm')"
  shows "rb_before qs = rb_before ps \<and> rb_after qs = rb_inorder t @ rb_after ps \<and> lm' = lm"
proof -
  obtain lm'' where d: "it_descend st start lst t ps True = (qs, lm'')"
    using assms(3) mm_descend_path [of st start lst t ps lm True]
    by (cases "it_descend st start lst t ps True") auto
  from it_descend_place [OF d assms(2)] obtain us vs where "rb_inorder t = us @ vs"
    "rb_before qs = rb_before ps @ us" "rb_after qs = vs @ rb_after ps" "\<forall>u\<in>set us. st u \<le> start"
    by blast
  moreover from this assms(1) have "us = []" by (cases us) (auto simp: not_less [symmetric])
  moreover have "lm' = lm"
    using mm_descend_left [of t start st lst ps lm] assms(1,3) by simp
  ultimately show ?thesis by simp
qed

theorem drm_mm_interval_tree_add_node_correct:
  assumes inv: "it_inv (START mm) (LAST mm) (mm_interval_tree mm)"
    and list: "it_list (mm_interval_tree mm) = us @ vs" and node: "node \<notin> set (us @ vs)"
    and hole: "nd_allocated (mm_nodes mm hole) \<longleftrightarrow> us \<noteq> []" "us \<noteq> [] \<Longrightarrow> hole = last us"
    and order: "\<And>u. u \<in> set us \<Longrightarrow> START mm u \<le> START mm node"
      "\<And>v. v \<in> set vs \<Longrightarrow> START mm node < START mm v"
  shows "\<exists>tree'. drm_mm_interval_tree_add_node hole node mm = Some (mm\<lparr>mm_interval_tree := tree'\<rparr>) \<and>
    it_inv (START mm) (LAST mm) tree' \<and> it_list tree' = us @ node # vs"
proof -
  let ?tree = "mm_interval_tree mm"
  let ?t = "rb_root ?tree"
  let ?start = "START mm node" and ?lst = "LAST mm node"
  from inv have srt: "sorted (map (START mm) (rb_inorder ?t))" and dist: "distinct (rb_inorder ?t)"
    and rb: "rb_inv ?t" and aug: "rb_aug_ok (it_max (LAST mm)) ?t"
    by (auto simp: it_inv_def)
  have finish: "\<exists>tree'. rb_insert_augmented_cached (compute_subtree_last (LAST mm)) node ?lst qs lm ?tree
        = Some tree' \<and> it_inv (START mm) (LAST mm) tree' \<and> it_list tree' = us @ node # vs"
    if "rb_inv (rb_plug RB_NULL qs)" "it_grown (LAST mm) node qs {}" "rb_before qs = us"
      "rb_after qs = vs" "lm \<longleftrightarrow> us = []" for qs lm
    using it_insert_at [OF inv, of node qs lm] that node list order
    by (auto intro: less_imp_le)
  show ?thesis
  proof (cases "us = []")
    case True
    obtain qs lm where d: "mm_descend (START mm) ?start ?lst ?t [] True = (qs, lm)" by fastforce
    have place: "rb_before qs = [] \<and> rb_after qs = vs \<and> lm"
      using mm_descend_place [OF _ srt d] list order(2) True by auto
    obtain lm2 where d2: "it_descend (START mm) ?start ?lst ?t [] True = (qs, lm2)"
      using d mm_descend_path [of "START mm" ?start ?lst ?t "[]" True True]
      by (cases "it_descend (START mm) ?start ?lst ?t [] True") auto
    have "rb_inv (rb_plug RB_NULL qs)" "it_grown (LAST mm) node qs {}"
      using it_descend_path_ok [OF d2] rb it_descend_grown [OF d2, of "LAST mm" node] aug
      by (auto simp: it_grown_def)
    with finish [of qs lm] place True d hole(1) show ?thesis
      by (auto simp: drm_mm_interval_tree_add_node_def)
  next
    case False
    with hole obtain us' where us: "us = us' @ [hole]" by (metis append_butlast_last_id)
    with list have split: "rb_inorder ?t = us' @ hole # vs" by simp
    obtain l c a r ps where loc: "rb_locate hole ?t [] = Some (RB_Node l c hole a r, ps)"
      and us': "us' = rb_before ps @ rb_inorder l" and vs: "vs = rb_inorder r @ rb_after ps"
      using rb_locate_split [OF split dist] .
    from rb_locate_plug [OF loc] have t: "?t = rb_plug r (RightOf l c hole a # ps)" by auto
    let ?ps = "mm_raise ?lst (RightOf l c hole a # ps)"
    obtain qs lm where d: "mm_descend (START mm) ?start ?lst r ?ps False = (qs, lm)" by fastforce
    have r: "sorted (map (START mm) (rb_inorder r))" "rb_aug_ok (it_max (LAST mm)) r"
      "rb_aug_path (it_max (LAST mm)) (RightOf l c hole a # ps) (rb_inorder r)"
      using srt split vs aug t by (auto simp: sorted_append rb_aug_ok_plug)
    have place: "rb_before qs = us \<and> rb_after qs = vs \<and> \<not> lm"
      using mm_descend_place [OF _ r(1) d] order(2) us us' vs by auto
    obtain lm2 where d2: "it_descend (START mm) ?start ?lst r ?ps False = (qs, lm2)"
      using d mm_descend_path [of "START mm" ?start ?lst r ?ps False False]
      by (cases "it_descend (START mm) ?start ?lst r ?ps False") auto
    have "rb_inv (rb_plug r ?ps)"
      using rb t by (simp add: rb_inv_plug del: mm_raise.simps rb_plug.simps)
    moreover have "it_grown (LAST mm) node ?ps (set (rb_inorder r))"
      using mm_raise_grown [OF r(3)] by blast
    ultimately have "rb_inv (rb_plug RB_NULL qs)" "it_grown (LAST mm) node qs {}"
      using it_descend_path_ok [OF d2] it_descend_grown [OF d2, of "LAST mm" node] r(2)
      by auto
    with finish [of qs lm] place False d hole(1) loc show ?thesis
      by (auto simp: drm_mm_interval_tree_add_node_def simp del: mm_raise.simps)
  qed
qed

section \<open>The indexes of the holes\<close>

definition mm_holes_ok :: "drm_mm \<Rightarrow> nat set \<Rightarrow> bool" where
  "mm_holes_ok mm H \<longleftrightarrow> distinct (mm_hole_stack mm) \<and> set (mm_hole_stack mm) = H \<and>
     hole_index (HOLE_SIZE mm) (mm_holes_size mm) H \<and>
     hole_index (HOLE_ADDR mm) (mm_holes_addr mm) H"

lemma mm_holes_ok_cong:
  assumes "mm_holes_ok mm H"
    and "mm_hole_stack mm' = mm_hole_stack mm" "mm_holes_size mm' = mm_holes_size mm"
      "mm_holes_addr mm' = mm_holes_addr mm"
    and "\<And>n. n \<in> H \<Longrightarrow> HOLE_SIZE mm' n = HOLE_SIZE mm n \<and> HOLE_ADDR mm' n = HOLE_ADDR mm n"
  shows "mm_holes_ok mm' H"
  using assms holes.key_cong [of "HOLE_SIZE mm" "mm_holes_size mm" H "HOLE_SIZE mm'"]
    holes.key_cong [of "HOLE_ADDR mm" "mm_holes_addr mm" H "HOLE_ADDR mm'"]
  by (auto simp: mm_holes_ok_def)

lemma mm_set_simps [simp]:
  "mm_nodes (mm_set n u mm) = (mm_nodes mm)(n := u (mm_nodes mm n))"
  "mm_node_list (mm_set n u mm) = mm_node_list mm"
  "mm_hole_stack (mm_set n u mm) = mm_hole_stack mm"
  "mm_interval_tree (mm_set n u mm) = mm_interval_tree mm"
  "mm_holes_size (mm_set n u mm) = mm_holes_size mm"
  "mm_holes_addr (mm_set n u mm) = mm_holes_addr mm"
  "mm_color_adjust (mm_set n u mm) = mm_color_adjust mm"
  "mm_scan_active (mm_set n u mm) = mm_scan_active mm"
  by (simp_all add: mm_set_def)

lemma mm_list_add_simps [simp]:
  "mm_nodes (mm_list_add n h mm) = mm_nodes mm"
  "mm_hole_stack (mm_list_add n h mm) = mm_hole_stack mm"
  "mm_interval_tree (mm_list_add n h mm) = mm_interval_tree mm"
  "mm_holes_size (mm_list_add n h mm) = mm_holes_size mm"
  "mm_holes_addr (mm_list_add n h mm) = mm_holes_addr mm"
  "mm_color_adjust (mm_list_add n h mm) = mm_color_adjust mm"
  "mm_scan_active (mm_list_add n h mm) = mm_scan_active mm"
  by (simp_all add: mm_list_add_def)

text \<open>The operations on holes change the hole size of one node and the indexes, and nothing else.\<close>

definition mm_same_but_holes :: "drm_mm \<Rightarrow> drm_mm \<Rightarrow> nat \<Rightarrow> u64 \<Rightarrow> bool" where
  "mm_same_but_holes mm mm' n v \<longleftrightarrow>
     mm_nodes mm' = (mm_nodes mm)(n := (mm_nodes mm n)\<lparr>nd_hole_size := v\<rparr>) \<and>
     mm_node_list mm' = mm_node_list mm \<and> mm_interval_tree mm' = mm_interval_tree mm \<and>
     mm_color_adjust mm' = mm_color_adjust mm \<and> mm_scan_active mm' = mm_scan_active mm"

lemma rm_hole_correct:
  assumes "mm_holes_ok mm H" and "n \<in> H"
  shows "\<exists>mm'. rm_hole n mm = Some mm' \<and> mm_holes_ok mm' (H - {n}) \<and> mm_same_but_holes mm mm' n 0 \<and>
    mm_hole_stack mm' = remove1 n (mm_hole_stack mm)"
proof -
  let ?mm = "mm_set n (\<lambda>nd. nd\<lparr>nd_hole_size := 0\<rparr>) mm"
  obtain hs where hs: "rb_erase no_augment n (mm_holes_size mm) = Some hs"
    "hole_index (HOLE_SIZE ?mm) hs (H - {n})"
    using holes.del_rekey [of "HOLE_SIZE mm" "mm_holes_size mm" H n "HOLE_SIZE ?mm"] assms
    by (auto simp: mm_holes_ok_def)
  obtain ha where ha: "rb_erase no_augment n (mm_holes_addr mm) = Some ha"
    "hole_index (HOLE_ADDR ?mm) ha (H - {n})"
    using holes.del_rekey [of "HOLE_ADDR mm" "mm_holes_addr mm" H n "HOLE_ADDR ?mm"] assms
    by (auto simp: mm_holes_ok_def drm_mm_hole_node_start_def)
  have "drm_mm_hole_node_start (mm_set n u (mm'\<lparr>mm_hole_stack := xs, mm_holes_size := s, mm_holes_addr := a\<rparr>))
      = drm_mm_hole_node_start (mm_set n u mm')" for u mm' xs s a
    by (simp add: drm_mm_hole_node_start_def fun_eq_iff)
  with assms hs ha show ?thesis
    by (auto simp: rm_hole_def mm_holes_ok_def mm_same_but_holes_def set_remove1_eq)
qed

lemma add_hole_correct:
  assumes "mm_holes_ok mm H" and "n \<notin> H"
  shows "\<exists>mm'. add_hole n mm = Some mm' \<and> mm_holes_ok mm' (insert n H) \<and>
    mm_same_but_holes mm mm' n (drm_mm_hole_node_end mm n - drm_mm_hole_node_start mm n) \<and>
    mm_hole_stack mm' = n # mm_hole_stack mm"
proof -
  let ?v = "drm_mm_hole_node_end mm n - drm_mm_hole_node_start mm n"
  let ?mm = "mm_set n (\<lambda>nd. nd\<lparr>nd_hole_size := ?v\<rparr>) mm"
  have addr: "HOLE_ADDR ?mm x = HOLE_ADDR mm x" for x
    by (simp add: drm_mm_hole_node_start_def)
  have size: "HOLE_SIZE ?mm x = HOLE_SIZE mm x" if "x \<in> H" for x
    using that assms(2) by auto
  obtain hs where hs: "RB_INSERT (HOLE_SIZE ?mm) n (mm_holes_size mm) = Some hs"
    "hole_index (HOLE_SIZE ?mm) hs (insert n H)"
    using holes.ins_rekey [of "HOLE_SIZE mm" "mm_holes_size mm" H n "HOLE_SIZE ?mm"] assms size
    unfolding mm_holes_ok_def by blast
  obtain ha where ha: "RB_INSERT (HOLE_ADDR ?mm) n (mm_holes_addr mm) = Some ha"
    "hole_index (HOLE_ADDR ?mm) ha (insert n H)"
    using holes.ins_rekey [of "HOLE_ADDR mm" "mm_holes_addr mm" H n "HOLE_ADDR ?mm"] assms addr
    unfolding mm_holes_ok_def by blast
  have "drm_mm_hole_node_start (mm'\<lparr>mm_holes_size := s, mm_holes_addr := a, mm_hole_stack := xs\<rparr>)
      = drm_mm_hole_node_start mm'" for mm' xs s a
    by (simp add: drm_mm_hole_node_start_def fun_eq_iff)
  with assms hs ha show ?thesis
    by (auto simp: add_hole_def mm_holes_ok_def mm_same_but_holes_def Let_def simp del: fun_upd_apply)
qed

section \<open>The invariant\<close>

definition mm_lo :: "drm_mm \<Rightarrow> u64" where
  "mm_lo mm = drm_mm_hole_node_start mm HEAD"

definition mm_hi :: "drm_mm \<Rightarrow> u64" where
  "mm_hi mm = nd_start (mm_nodes mm HEAD)"

definition mm_hole_set :: "drm_mm \<Rightarrow> nat set" where
  "mm_hole_set mm = {n \<in> set (mm_ring mm). drm_mm_hole_follows mm n}"

definition mm_gaps_ok :: "drm_mm \<Rightarrow> nat \<Rightarrow> bool" where
  "mm_gaps_ok mm n \<longleftrightarrow>
     HOLE_SIZE mm n = drm_mm_hole_node_end mm n - drm_mm_hole_node_start mm n"

definition mm_layout :: "drm_mm \<Rightarrow> bool" where
  "mm_layout mm \<longleftrightarrow> mm_list_ok mm \<and>
     (\<forall>n. nd_allocated (mm_nodes mm n) \<longleftrightarrow> n \<in> set (mm_node_list mm)) \<and>
     mm_chain (mm_nodes mm) (mm_lo mm) (mm_node_list mm) (mm_hi mm) \<and>
     it_inv (START mm) (LAST mm) (mm_interval_tree mm) \<and>
     it_list (mm_interval_tree mm) = mm_node_list mm"

definition mm_inv :: "drm_mm \<Rightarrow> bool" where
  "mm_inv mm \<longleftrightarrow> mm_layout mm \<and> mm_holes_ok mm (mm_hole_set mm) \<and>
     (\<forall>n\<in>set (mm_ring mm). mm_gaps_ok mm n) \<and>
     mm_scan_active mm = 0 \<and> (\<forall>n\<in>set (mm_node_list mm). \<not> nd_scanned_block (mm_nodes mm n))"

lemma mm_same_but_holes_simps:
  assumes "mm_same_but_holes mm mm' n v"
  shows "mm_node_list mm' = mm_node_list mm" "mm_interval_tree mm' = mm_interval_tree mm"
    "mm_color_adjust mm' = mm_color_adjust mm" "mm_scan_active mm' = mm_scan_active mm"
    "nd_start (mm_nodes mm' k) = nd_start (mm_nodes mm k)"
    "nd_size (mm_nodes mm' k) = nd_size (mm_nodes mm k)"
    "nd_color (mm_nodes mm' k) = nd_color (mm_nodes mm k)"
    "nd_allocated (mm_nodes mm' k) = nd_allocated (mm_nodes mm k)"
    "nd_scanned_block (mm_nodes mm' k) = nd_scanned_block (mm_nodes mm k)"
    "nd_hole_size (mm_nodes mm' k) = (if k = n then v else nd_hole_size (mm_nodes mm k))"
    "mm_list_next mm' k = mm_list_next mm k" "mm_list_prev mm' k = mm_list_prev mm k"
    "drm_mm_hole_node_start mm' k = drm_mm_hole_node_start mm k"
    "drm_mm_hole_node_end mm' k = drm_mm_hole_node_end mm k"
    "LAST mm' k = LAST mm k"
    "mm_lo mm' = mm_lo mm" "mm_hi mm' = mm_hi mm"
  using assms
  by (auto simp: mm_same_but_holes_def mm_list_next_def mm_list_prev_def drm_mm_hole_node_start_def
      drm_mm_hole_node_end_def LAST_def mm_lo_def mm_hi_def)

lemma mm_layout_same:
  assumes "mm_same_but_holes mm mm' n v" and "mm_layout mm"
  shows "mm_layout mm'"
proof -
  note same = mm_same_but_holes_simps [OF assms(1)]
  have "mm_chain (mm_nodes mm') p ns e = mm_chain (mm_nodes mm) p ns e" for p ns e
    using same by (intro mm_chain_cong) auto
  moreover have "START mm' = START mm" "LAST mm' = LAST mm" using same by auto
  ultimately show ?thesis
    using assms(2) same by (simp add: mm_layout_def mm_list_ok_def)
qed

text \<open>The place of the hole behind \<open>h\<close>.\<close>

lemma mm_chain_gap_bounds:
  assumes ok: "mm_list_ok mm" and chain': "mm_chain (mm_nodes mm) (mm_lo mm) (mm_node_list mm) (mm_hi mm)"
    and gap: "mm_gap mm h us vs"
  shows "drm_mm_hole_node_start mm h = mm_chain_end (mm_nodes mm) (mm_lo mm) us"
    and "drm_mm_hole_node_end mm h = (case vs of [] \<Rightarrow> mm_hi mm | v # _ \<Rightarrow> nd_start (mm_nodes mm v))"
    and "mm_chain (mm_nodes mm) (mm_lo mm) us (drm_mm_hole_node_start mm h)"
    and "mm_chain (mm_nodes mm) (drm_mm_hole_node_end mm h) vs (mm_hi mm)"
    and "drm_mm_hole_node_start mm h \<le> drm_mm_hole_node_end mm h"
proof -
  from gap chain' have ns: "mm_node_list mm = us @ vs" and h: "h = last (HEAD # us)"
    and chain: "mm_chain (mm_nodes mm) (mm_lo mm) (us @ vs) (mm_hi mm)"
    by (auto simp: mm_gap_def)
  show 1: "drm_mm_hole_node_start mm h = mm_chain_end (mm_nodes mm) (mm_lo mm) us"
    using h by (simp add: mm_chain_end_def drm_mm_hole_node_start_def mm_lo_def)
  show 2: "drm_mm_hole_node_end mm h = (case vs of [] \<Rightarrow> mm_hi mm | v # _ \<Rightarrow> nd_start (mm_nodes mm v))"
    using mm_list_next_gap [OF gap ok]
    by (simp add: drm_mm_hole_node_end_def mm_hi_def split: list.splits)
  from chain show "mm_chain (mm_nodes mm) (mm_lo mm) us (drm_mm_hole_node_start mm h)"
    unfolding 1 mm_chain_append by simp
  from chain have c2: "mm_chain (mm_nodes mm) (drm_mm_hole_node_start mm h) vs (mm_hi mm)"
    unfolding 1 mm_chain_append by simp
  then show "mm_chain (mm_nodes mm) (drm_mm_hole_node_end mm h) vs (mm_hi mm)"
    and "drm_mm_hole_node_start mm h \<le> drm_mm_hole_node_end mm h"
    unfolding 2 by (auto split: list.splits)
qed

lemma mm_layout_chain:
  assumes "mm_layout mm"
  shows "mm_list_ok mm" "mm_chain (mm_nodes mm) (mm_lo mm) (mm_node_list mm) (mm_hi mm)"
  using assms by (simp_all add: mm_layout_def)

lemma mm_gap_bounds:
  assumes "mm_layout mm" and "mm_gap mm h us vs"
  shows "drm_mm_hole_node_start mm h = mm_chain_end (mm_nodes mm) (mm_lo mm) us"
    and "drm_mm_hole_node_end mm h = (case vs of [] \<Rightarrow> mm_hi mm | v # _ \<Rightarrow> nd_start (mm_nodes mm v))"
    and "mm_chain (mm_nodes mm) (mm_lo mm) us (drm_mm_hole_node_start mm h)"
    and "mm_chain (mm_nodes mm) (drm_mm_hole_node_end mm h) vs (mm_hi mm)"
    and "drm_mm_hole_node_start mm h \<le> drm_mm_hole_node_end mm h"
  using mm_chain_gap_bounds [OF mm_layout_chain [OF assms(1)] assms(2)] by blast+

lemma mm_gap_same:
  "mm_node_list mm' = mm_node_list mm \<Longrightarrow> mm_gap mm' h us vs = mm_gap mm h us vs"
  by (simp add: mm_gap_def)

lemma mm_hole_end_size:
  assumes "mm_inv mm" and "n \<in> set (mm_ring mm)"
  shows "drm_mm_hole_node_start mm n + HOLE_SIZE mm n = drm_mm_hole_node_end mm n"
  using assms by (auto simp: mm_inv_def mm_gaps_ok_def)

end
