(* ===== verification/DrmMM_Ops.thy ===== *)
theory DrmMM_Ops
  imports DrmMM_Inv
begin

text \<open>
  Every operation of the range allocator keeps the invariant, and what each one does to the
  blocks: setting up, linking a node into a hole, removing a node, reserving a given place.
\<close>

section \<open>Setting up\<close>

lemma mm_maybe_add_hole:
  assumes "mm_holes_ok mm H" and "n \<notin> H" and "HOLE_SIZE mm n = 0"
    and "drm_mm_hole_node_start mm n \<le> drm_mm_hole_node_end mm n"
    and c: "c \<longleftrightarrow> drm_mm_hole_node_start mm n < drm_mm_hole_node_end mm n"
  shows "\<exists>mm'. (if c then add_hole n mm else Some mm) = Some mm' \<and>
    mm_holes_ok mm' (if c then insert n H else H) \<and>
    mm_same_but_holes mm mm' n (drm_mm_hole_node_end mm n - drm_mm_hole_node_start mm n)"
proof (cases c)
  case True
  with add_hole_correct [OF assms(1,2)] show ?thesis by auto
next
  case False
  with c assms(4) have "drm_mm_hole_node_end mm n - drm_mm_hole_node_start mm n = 0" by simp
  moreover have "mm_same_but_holes mm mm n 0"
    using assms(3) by (auto simp: mm_same_but_holes_def fun_eq_iff)
  ultimately show ?thesis using False assms(1) by auto
qed

lemma HEAD_ring: "mm_list_ok mm \<Longrightarrow> HEAD \<notin> set (mm_node_list mm)"
  by (simp add: mm_list_ok_def)

lemma drm_mm_init_correct:
  assumes "start < start + sz" and "\<And>n. \<not> nd_allocated (memory n)"
  shows "\<exists>mm. drm_mm_init memory start sz = Some mm \<and> mm_inv mm \<and> mm_node_list mm = [] \<and>
    mm_lo mm = start \<and> mm_hi mm = start + sz \<and> mm_color_adjust mm = None \<and>
    (\<forall>n. n \<noteq> HEAD \<longrightarrow> mm_nodes mm n = memory n)"
proof -
  let ?mm = "\<lparr>mm_color_adjust = None, mm_hole_stack = [],
      mm_nodes = memory(HEAD := drm_mm_node_zero\<lparr>nd_start := start + sz, nd_size := - sz\<rparr>),
      mm_node_list = [], mm_interval_tree = RB_ROOT_CACHED,
      mm_holes_size = RB_NULL, mm_holes_addr = RB_NULL, mm_scan_active = 0\<rparr> :: drm_mm"
  have ok: "mm_holes_ok ?mm {}"
    by (simp add: mm_holes_ok_def hole_index_def rb_inv_def)
  have lo: "drm_mm_hole_node_start ?mm HEAD = start" and hi: "drm_mm_hole_node_end ?mm HEAD = start + sz"
    by (simp_all add: drm_mm_hole_node_start_def drm_mm_hole_node_end_def mm_list_next_def)
  from add_hole_correct [OF ok, of HEAD] obtain mm where
    mm: "add_hole HEAD ?mm = Some mm" "mm_holes_ok mm {HEAD}"
      "mm_same_but_holes ?mm mm HEAD sz"
    by (auto simp: lo hi)
  note same = mm_same_but_holes_simps [OF mm(3)]
  have layout: "mm_layout ?mm"
    using assms lo
    by (auto simp: mm_layout_def mm_list_ok_def mm_lo_def mm_hi_def it_inv_def RB_ROOT_CACHED_def
        rb_inv_def drm_mm_node_zero_def)
  from assms(1) have "sz \<noteq> 0" by auto
  then have "mm_hole_set mm = {HEAD}"
    using same by (auto simp: mm_hole_set_def drm_mm_hole_follows_def)
  moreover have "mm_gaps_ok mm HEAD"
    using same lo hi by (simp add: mm_gaps_ok_def)
  ultimately have "mm_inv mm"
    using mm(2) mm_layout_same [OF mm(3) layout] same by (simp add: mm_inv_def)
  moreover have "mm_nodes mm n = memory n" if "n \<noteq> HEAD" for n
    using mm(3) that by (simp add: mm_same_but_holes_def)
  ultimately show ?thesis
    using mm(1) same lo by (auto simp: drm_mm_init_def mm_lo_def mm_hi_def)
qed

section \<open>Linking a node into a hole\<close>

lemma next_in_insert:
  "n \<noteq> h \<Longrightarrow> n \<noteq> x \<Longrightarrow> next_in (us @ h # x # vs) n d = next_in (us @ h # vs) n d"
proof (induction us)
  case Nil
  then show ?case by simp
next
  case (Cons u us)
  then show ?case by (cases us) auto
qed

lemma mm_chain_prefix: "mm_chain N p vs e \<Longrightarrow> q \<le> p \<Longrightarrow> mm_chain N q vs e"
  by (cases vs) (auto intro: order_trans)

text \<open>What linking and removing a node leave alone: the blocks of all nodes and the callback.\<close>

definition mm_same_blocks :: "drm_mm \<Rightarrow> drm_mm \<Rightarrow> bool" where
  "mm_same_blocks mm mm' \<longleftrightarrow> mm_color_adjust mm' = mm_color_adjust mm \<and>
     (\<forall>k. nd_start (mm_nodes mm' k) = nd_start (mm_nodes mm k) \<and>
          nd_size (mm_nodes mm' k) = nd_size (mm_nodes mm k) \<and>
          nd_color (mm_nodes mm' k) = nd_color (mm_nodes mm k) \<and>
          nd_scanned_block (mm_nodes mm' k) = nd_scanned_block (mm_nodes mm k))"

lemma mm_same_blocks_trans:
  "mm_same_blocks a b \<Longrightarrow> mm_same_blocks b c \<Longrightarrow> mm_same_blocks a c"
  by (simp add: mm_same_blocks_def)

lemma mm_same_blocks_holes: "mm_same_but_holes mm mm' n v \<Longrightarrow> mm_same_blocks mm mm'"
  by (simp add: mm_same_blocks_def mm_same_but_holes_simps)

lemma mm_same_blocks_lo_hi:
  "mm_same_blocks mm mm' \<Longrightarrow> mm_lo mm' = mm_lo mm \<and> mm_hi mm' = mm_hi mm"
  by (simp add: mm_same_blocks_def mm_lo_def mm_hi_def drm_mm_hole_node_start_def)

lemma mm_link_layout:
  assumes inv: "mm_inv mm" and gap: "mm_gap mm h us vs" and node: "node \<notin> set (mm_ring mm)"
    and place: "drm_mm_hole_node_start mm h \<le> START mm node"
      "START mm node < START mm node + nd_size (mm_nodes mm node)"
      "START mm node + nd_size (mm_nodes mm node) \<le> drm_mm_hole_node_end mm h"
  shows "\<exists>tree'. drm_mm_interval_tree_add_node h node (mm_list_add node h mm) =
      Some (mm_list_add node h mm\<lparr>mm_interval_tree := tree'\<rparr>) \<and>
    mm_layout (mm_set node (\<lambda>nd. nd\<lparr>nd_allocated := True, nd_hole_size := 0\<rparr>)
      (mm_list_add node h mm\<lparr>mm_interval_tree := tree'\<rparr>))"
proof -
  let ?mm0 = "mm_list_add node h mm"
  from inv have layout: "mm_layout mm" by (simp add: mm_inv_def)
  then have ok: "mm_list_ok mm" and it: "it_inv (START mm) (LAST mm) (mm_interval_tree mm)"
    and lst: "it_list (mm_interval_tree mm) = mm_node_list mm"
    and alloc: "\<And>n. nd_allocated (mm_nodes mm n) \<longleftrightarrow> n \<in> set (mm_node_list mm)"
    by (auto simp: mm_layout_def)
  from gap have ns: "mm_node_list mm = us @ vs" and h: "h = last (HEAD # us)"
    by (auto simp: mm_gap_def)
  note bounds = mm_gap_bounds [OF layout gap]
  have ns0: "mm_node_list ?mm0 = us @ node # vs" by (rule mm_node_list_add [OF gap ok])
  have fn: "START ?mm0 = START mm" "LAST ?mm0 = LAST mm" by (auto simp: LAST_def)
  have u: "START mm u \<le> START mm node" if "u \<in> set us" for u
    using mm_chain_mem [OF bounds(3) that] place(1) by (meson less_imp_le order_trans)
  have v: "START mm node < START mm v" if "v \<in> set vs" for v
    using mm_chain_mem [OF bounds(4) that] place(2,3) by (meson less_le_trans order_trans)
  have "\<exists>tree'. drm_mm_interval_tree_add_node h node ?mm0 = Some (?mm0\<lparr>mm_interval_tree := tree'\<rparr>) \<and>
      it_inv (START ?mm0) (LAST ?mm0) tree' \<and> it_list tree' = us @ node # vs"
  proof (rule drm_mm_interval_tree_add_node_correct)
    show "it_inv (START ?mm0) (LAST ?mm0) (mm_interval_tree ?mm0)" unfolding fn using it by simp
    show "it_list (mm_interval_tree ?mm0) = us @ vs" using lst ns by simp
    show "node \<notin> set (us @ vs)" using node ns by auto
    show "nd_allocated (mm_nodes ?mm0 h) \<longleftrightarrow> us \<noteq> []"
      using alloc h ns HEAD_ring [OF ok] by auto
    show "us \<noteq> [] \<Longrightarrow> h = last us" using h by simp
  qed (use u v in auto)
  then obtain tree' where tree': "drm_mm_interval_tree_add_node h node ?mm0 = Some (?mm0\<lparr>mm_interval_tree := tree'\<rparr>)"
    "it_inv (START mm) (LAST mm) tree'" "it_list tree' = us @ node # vs"
    unfolding fn by blast
  let ?mm1 = "mm_set node (\<lambda>nd. nd\<lparr>nd_allocated := True, nd_hole_size := 0\<rparr>)
      (?mm0\<lparr>mm_interval_tree := tree'\<rparr>)"
  have fn1: "START ?mm1 = START mm" "LAST ?mm1 = LAST mm" by (auto simp: LAST_def)
  have lohi: "mm_lo ?mm1 = mm_lo mm" "mm_hi ?mm1 = mm_hi mm"
    by (auto simp: mm_lo_def mm_hi_def drm_mm_hole_node_start_def)
  have "mm_chain (mm_nodes mm) (mm_lo mm) (us @ node # vs) (mm_hi mm)"
    unfolding mm_chain_middle
    using mm_chain_mono [OF bounds(3) place(1)] place(2) mm_chain_prefix [OF bounds(4) place(3)]
    by simp
  then have "mm_chain (mm_nodes ?mm1) (mm_lo ?mm1) (us @ node # vs) (mm_hi ?mm1)"
    unfolding lohi by (subst mm_chain_cong [where N = "mm_nodes mm"]) auto
  moreover have "distinct (mm_ring ?mm1)"
    using ok node ns ns0 by (auto simp: mm_list_ok_def)
  ultimately have "mm_layout ?mm1"
    unfolding mm_layout_def fn1 using tree'(2,3) ns0 ns alloc by (simp add: mm_list_ok_def)
  with tree'(1) show ?thesis by blast
qed

theorem mm_link_node_correct:
  assumes inv: "mm_inv mm" and gap: "mm_gap mm h us vs" and node: "node \<notin> set (mm_ring mm)"
    and hole: "h \<in> mm_hole_set mm" and scan: "\<not> nd_scanned_block (mm_nodes mm node)"
    and place: "drm_mm_hole_node_start mm h \<le> START mm node"
      "START mm node < START mm node + nd_size (mm_nodes mm node)"
      "START mm node + nd_size (mm_nodes mm node) \<le> drm_mm_hole_node_end mm h"
  shows "\<exists>mm'. mm_link_node h node (drm_mm_hole_node_start mm h) (drm_mm_hole_node_end mm h)
      (START mm node) (START mm node + nd_size (mm_nodes mm node)) mm = Some mm' \<and>
    mm_inv mm' \<and> mm_node_list mm' = us @ node # vs \<and> mm_same_blocks mm mm'"
proof -
  let ?s = "START mm node" and ?e = "START mm node + nd_size (mm_nodes mm node)"
  let ?hs = "drm_mm_hole_node_start mm h" and ?he = "drm_mm_hole_node_end mm h"
  let ?mm0 = "mm_list_add node h mm"
  obtain tree' where add: "drm_mm_interval_tree_add_node h node ?mm0 = Some (?mm0\<lparr>mm_interval_tree := tree'\<rparr>)"
    and layout1: "mm_layout (mm_set node (\<lambda>nd. nd\<lparr>nd_allocated := True, nd_hole_size := 0\<rparr>)
      (?mm0\<lparr>mm_interval_tree := tree'\<rparr>))"
    using mm_link_layout [OF inv gap node place] by blast
  define mm1 where "mm1 = mm_set node (\<lambda>nd. nd\<lparr>nd_allocated := True, nd_hole_size := 0\<rparr>)
      (?mm0\<lparr>mm_interval_tree := tree'\<rparr>)"
  from inv have ok: "mm_list_ok mm" by (simp add: mm_inv_def mm_layout_def)
  have ns1: "mm_node_list mm1 = us @ node # vs"
    using mm_node_list_add [OF gap ok] by (simp add: mm1_def)
  have ns: "mm_node_list mm = us @ vs" using gap by (simp add: mm_gap_def)
  have hn: "h \<noteq> node" using hole node by (auto simp: mm_hole_set_def)
  have hr: "h \<in> set (mm_ring mm)" using hole by (simp add: mm_hole_set_def)
  have blocks1: "mm_same_blocks mm mm1" by (auto simp: mm_same_blocks_def mm1_def)
  have H: "mm_holes_ok mm1 (mm_hole_set mm)"
  proof (rule mm_holes_ok_cong)
    show "mm_holes_ok mm (mm_hole_set mm)" using inv by (simp add: mm_inv_def)
    fix n assume "n \<in> mm_hole_set mm"
    then have "n \<noteq> node" using node by (auto simp: mm_hole_set_def)
    then show "HOLE_SIZE mm1 n = HOLE_SIZE mm n \<and> HOLE_ADDR mm1 n = HOLE_ADDR mm n"
      by (simp add: mm1_def drm_mm_hole_node_start_def)
  qed (simp_all add: mm1_def)
  have next_other: "mm_list_next mm1 n = mm_list_next mm n" if "n \<noteq> h" "n \<noteq> node" for n
  proof -
    obtain xs where xs: "HEAD # us = xs @ [h]" "mm_ring mm = xs @ h # vs"
      using mm_gap_ring [OF gap ok] by blast
    then have "mm_ring mm1 = xs @ h # node # vs" using ns1 by simp
    with xs(2) next_in_insert [OF that] show ?thesis by (simp add: mm_list_next_def)
  qed
  have gap1: "mm_gap mm1 h us (node # vs)" "mm_gap mm1 node (us @ [node]) vs"
    using gap ns1 by (auto simp: mm_gap_def)
  have ok1: "mm_list_ok mm1" using layout1 by (simp add: mm1_def mm_layout_def)
  have nxt: "mm_list_next mm1 h = node" "mm_list_next mm1 node = mm_list_next mm h"
    using mm_list_next_gap [OF gap1(1) ok1] mm_list_next_gap [OF gap1(2) ok1]
      mm_list_next_gap [OF gap ok] by auto
  have hs1: "drm_mm_hole_node_start mm1 n = drm_mm_hole_node_start mm n" for n
    using blocks1 by (simp add: drm_mm_hole_node_start_def mm_same_blocks_def)
  have he1: "drm_mm_hole_node_end mm1 n =
      (if n = h then ?s else if n = node then ?he else drm_mm_hole_node_end mm n)" for n
    using nxt next_other hn blocks1 by (simp add: drm_mm_hole_node_end_def mm_same_blocks_def)
  have size1: "HOLE_SIZE mm1 n = (if n = node then 0 else HOLE_SIZE mm n)" for n
    by (simp add: mm1_def)
  have hsn: "drm_mm_hole_node_start mm node = ?e" by (simp add: drm_mm_hole_node_start_def)
  obtain mm2 where mm2: "rm_hole h mm1 = Some mm2" "mm_holes_ok mm2 (mm_hole_set mm - {h})"
    "mm_same_but_holes mm1 mm2 h 0"
    using rm_hole_correct [OF H hole] by blast
  note same2 = mm_same_but_holes_simps [OF mm2(3)]
  have "\<exists>mm3. (if ?s > ?hs then add_hole h mm2 else Some mm2) = Some mm3 \<and>
      mm_holes_ok mm3 (if ?s > ?hs then insert h (mm_hole_set mm - {h}) else mm_hole_set mm - {h}) \<and>
      mm_same_but_holes mm2 mm3 h (drm_mm_hole_node_end mm2 h - drm_mm_hole_node_start mm2 h)"
    using mm2(2) place(1) by (intro mm_maybe_add_hole) (auto simp: same2 hs1 he1)
  then obtain mm3 where mm3: "(if ?s > ?hs then add_hole h mm2 else Some mm2) = Some mm3"
    "mm_holes_ok mm3 (if ?s > ?hs then mm_hole_set mm else mm_hole_set mm - {h})"
    "mm_same_but_holes mm2 mm3 h (?s - ?hs)"
    using hole by (auto simp: same2 hs1 he1 insert_absorb split: if_splits)
  note same3 = mm_same_but_holes_simps [OF mm3(3)]
  define H3 where "H3 = (if ?s > ?hs then mm_hole_set mm else mm_hole_set mm - {h})"
  have nH: "node \<notin> H3" using node by (auto simp: H3_def mm_hole_set_def)
  have "\<exists>mm4. (if ?e < ?he then add_hole node mm3 else Some mm3) = Some mm4 \<and>
      mm_holes_ok mm4 (if ?e < ?he then insert node H3 else H3) \<and>
      mm_same_but_holes mm3 mm4 node (drm_mm_hole_node_end mm3 node - drm_mm_hole_node_start mm3 node)"
    using mm3(2) nH place(3) hn
    by (intro mm_maybe_add_hole) (auto simp: H3_def same3 same2 hs1 he1 hsn size1)
  then obtain mm4 where mm4: "(if ?e < ?he then add_hole node mm3 else Some mm3) = Some mm4"
    "mm_holes_ok mm4 (if ?e < ?he then insert node H3 else H3)"
    "mm_same_but_holes mm3 mm4 node (?he - ?e)"
    using hn by (auto simp: same3 same2 hs1 he1 hsn)
  note same4 = mm_same_but_holes_simps [OF mm4(3)]
  have ns4: "mm_node_list mm4 = us @ node # vs" using same4 same3 same2 ns1 by simp
  have size4: "HOLE_SIZE mm4 n = (if n = node then ?he - ?e else if n = h then ?s - ?hs
      else HOLE_SIZE mm n)" for n
    using same4 same3 same2 by (simp add: size1)
  have gaps: "mm_gaps_ok mm4 n" if "n \<in> set (mm_ring mm4)" for n
  proof -
    have "mm_gaps_ok mm n" if "n \<noteq> node"
      using that inv \<open>n \<in> set (mm_ring mm4)\<close> ns4 ns by (auto simp: mm_inv_def)
    then show ?thesis
      using hn by (auto simp: mm_gaps_ok_def size4 same4 same3 same2 hs1 he1 hsn)
  qed
  have "mm_hole_set mm4 = (if ?e < ?he then insert node H3 else H3)"
  proof -
    have "?he - ?e = 0 \<longleftrightarrow> \<not> ?e < ?he" "?s - ?hs = 0 \<longleftrightarrow> \<not> ?s > ?hs"
      using place by auto
    then show ?thesis
      using hn hr node hole
      by (auto simp: mm_hole_set_def drm_mm_hole_follows_def size4 H3_def ns4 ns split: if_splits)
  qed
  moreover have "mm_layout mm4"
    using layout1 mm_layout_same mm2(3) mm3(3) mm4(3) unfolding mm1_def by blast
  moreover have "mm_scan_active mm4 = 0" using same4 same3 same2 inv by (simp add: mm1_def mm_inv_def)
  moreover have "\<forall>n\<in>set (mm_node_list mm4). \<not> nd_scanned_block (mm_nodes mm4 n)"
    using inv scan by (auto simp: ns4 ns same4 same3 same2 mm1_def mm_inv_def)
  ultimately have "mm_inv mm4" using mm4(2) gaps by (simp add: mm_inv_def)
  moreover have "mm_same_blocks mm mm4"
    using blocks1 mm2(3) mm3(3) mm4(3) by (meson mm_same_blocks_holes mm_same_blocks_trans)
  moreover have "mm_link_node h node ?hs ?he ?s ?e mm = Some mm4"
    using add mm2(1) mm3(1) mm4(1) by (simp add: mm_link_node_def mm1_def)
  ultimately show ?thesis using ns4 by blast
qed

section \<open>Removing a node\<close>

lemma mm_maybe_rm_hole:
  assumes "mm_holes_ok mm H" and "n \<notin> H \<Longrightarrow> HOLE_SIZE mm n = 0"
    and c: "c \<longleftrightarrow> n \<in> H"
  shows "\<exists>mm'. (if c then rm_hole n mm else Some mm) = Some mm' \<and> mm_holes_ok mm' (H - {n}) \<and>
    mm_same_but_holes mm mm' n 0"
proof (cases c)
  case True
  with c rm_hole_correct [OF assms(1)] show ?thesis by auto
next
  case False
  with c assms(2) have "mm_same_but_holes mm mm n 0"
    by (auto simp: mm_same_but_holes_def fun_eq_iff)
  with False c assms(1) show ?thesis by auto
qed

lemma mm_unlink_layout:
  assumes layout: "mm_layout mm" and ns: "mm_node_list mm = us @ node # vs"
  shows "\<exists>tree'. drm_mm_interval_tree_remove node mm = Some (mm\<lparr>mm_interval_tree := tree'\<rparr>) \<and>
    mm_layout (mm_set node (\<lambda>nd. nd\<lparr>nd_allocated := False\<rparr>)
      (mm\<lparr>mm_interval_tree := tree', mm_node_list := us @ vs\<rparr>))"
proof -
  from layout have ok: "mm_list_ok mm" and it: "it_inv (START mm) (LAST mm) (mm_interval_tree mm)"
    and lst: "it_list (mm_interval_tree mm) = us @ node # vs"
    and alloc: "\<And>n. nd_allocated (mm_nodes mm n) \<longleftrightarrow> n \<in> set (us @ node # vs)"
    and chain: "mm_chain (mm_nodes mm) (mm_lo mm) (us @ node # vs) (mm_hi mm)"
    using ns by (auto simp: mm_layout_def)
  from ok ns have dist: "distinct (us @ node # vs)" "HEAD \<notin> set (us @ node # vs)"
    by (auto simp: mm_list_ok_def)
  from it_remove_correct [OF it, of node] lst dist obtain tree' where
    tree': "it_remove (LAST mm) node (mm_interval_tree mm) = Some tree'"
      "it_inv (START mm) (LAST mm) tree'" "it_list tree' = us @ vs"
    by (auto simp: remove1_append)
  let ?mm = "mm_set node (\<lambda>nd. nd\<lparr>nd_allocated := False\<rparr>)
      (mm\<lparr>mm_interval_tree := tree', mm_node_list := us @ vs\<rparr>)"
  have fn: "START ?mm = START mm" "LAST ?mm = LAST mm" by (auto simp: LAST_def)
  have lohi: "mm_lo ?mm = mm_lo mm" "mm_hi ?mm = mm_hi mm"
    by (auto simp: mm_lo_def mm_hi_def drm_mm_hole_node_start_def)
  from chain have "mm_chain (mm_nodes mm) (mm_lo mm) (us @ vs) (mm_hi mm)"
    unfolding mm_chain_append [of _ _ us]
    by (auto intro: mm_chain_prefix order_trans less_imp_le)
  then have "mm_chain (mm_nodes ?mm) (mm_lo ?mm) (us @ vs) (mm_hi ?mm)"
    unfolding lohi by (subst mm_chain_cong [where N = "mm_nodes mm"]) auto
  then have "mm_layout ?mm"
    unfolding mm_layout_def fn using tree'(2,3) dist alloc by (auto simp: mm_list_ok_def)
  with tree'(1) show ?thesis by (auto simp: drm_mm_interval_tree_remove_def)
qed

theorem drm_mm_remove_node_correct:
  assumes inv: "mm_inv mm" and ns: "mm_node_list mm = us @ node # vs"
  shows "\<exists>mm'. drm_mm_remove_node node mm = Some mm' \<and> mm_inv mm' \<and> mm_node_list mm' = us @ vs \<and>
    mm_same_blocks mm mm' \<and> hd (mm_hole_stack mm') = last (HEAD # us)"
proof -
  define p where "p = last (HEAD # us)"
  from inv have layout: "mm_layout mm" and H: "mm_holes_ok mm (mm_hole_set mm)" by (auto simp: mm_inv_def)
  then have ok: "mm_list_ok mm" by (simp add: mm_layout_def)
  have prev: "mm_list_prev mm node = p" using mm_list_prev_split [OF ns ok] by (simp add: p_def)
  have dist: "distinct (HEAD # us @ node # vs)" using ok ns by (simp add: mm_list_ok_def)
  have pn: "p \<noteq> node" using dist by (auto simp: p_def split: if_splits)
  have pr: "p \<in> set (HEAD # us)" unfolding p_def by (rule last_in_set) simp
  have ringn: "node \<in> set (mm_ring mm)" using ns by simp
  obtain mm1 where mm1: "(if drm_mm_hole_follows mm node then rm_hole node mm else Some mm) = Some mm1"
    "mm_holes_ok mm1 (mm_hole_set mm - {node})" "mm_same_but_holes mm mm1 node 0"
    using mm_maybe_rm_hole [OF H, of node "drm_mm_hole_follows mm node"] ringn
    by (auto simp: mm_hole_set_def drm_mm_hole_follows_def)
  note same1 = mm_same_but_holes_simps [OF mm1(3)]
  obtain tree' where tree': "drm_mm_interval_tree_remove node mm1 = Some (mm1\<lparr>mm_interval_tree := tree'\<rparr>)"
    and layout3: "mm_layout (mm_set node (\<lambda>nd. nd\<lparr>nd_allocated := False\<rparr>)
      (mm1\<lparr>mm_interval_tree := tree', mm_node_list := us @ vs\<rparr>))"
    using mm_unlink_layout [OF mm_layout_same [OF mm1(3) layout]] ns same1 by metis
  define mm3 where "mm3 = mm_set node (\<lambda>nd. nd\<lparr>nd_allocated := False\<rparr>)
      (mm1\<lparr>mm_interval_tree := tree', mm_node_list := us @ vs\<rparr>)"
  have ns3: "mm_node_list mm3 = us @ vs" by (simp add: mm3_def)
  have blocks3: "mm_same_blocks mm mm3"
    using mm_same_blocks_holes [OF mm1(3)] by (auto simp: mm_same_blocks_def mm3_def)
  have size3: "HOLE_SIZE mm3 n = (if n = node then 0 else HOLE_SIZE mm n)" for n
    by (simp add: mm3_def same1)
  have H3: "mm_holes_ok mm3 (mm_hole_set mm - {node})"
    by (rule mm_holes_ok_cong [OF mm1(2)]) (auto simp: mm3_def drm_mm_hole_node_start_def)
  have gap: "mm_gap mm p us (node # vs)" "mm_gap mm node (us @ [node]) vs"
    "mm_gap mm3 p us vs"
    using ns ns3 by (auto simp: mm_gap_def p_def)
  have ok3: "mm_list_ok mm3" using layout3 by (simp add: mm3_def mm_layout_def)
  have nxt: "mm_list_next mm3 p = mm_list_next mm node"
    using mm_list_next_gap [OF gap(2) ok] mm_list_next_gap [OF gap(3) ok3] by simp
  have next_other: "mm_list_next mm3 n = mm_list_next mm n" if "n \<noteq> p" "n \<noteq> node" for n
  proof -
    obtain xs where xs: "HEAD # us = xs @ [p]" "mm_ring mm = xs @ p # node # vs"
      using mm_gap_ring [OF gap(1) ok] by blast
    then have "mm_ring mm3 = xs @ p # vs" using ns3 by simp
    with xs(2) next_in_insert [OF that] show ?thesis by (simp add: mm_list_next_def)
  qed
  have hs3: "drm_mm_hole_node_start mm3 n = drm_mm_hole_node_start mm n" for n
    using blocks3 by (simp add: drm_mm_hole_node_start_def mm_same_blocks_def)
  have he3: "n \<noteq> node \<Longrightarrow> drm_mm_hole_node_end mm3 n =
      (if n = p then drm_mm_hole_node_end mm node else drm_mm_hole_node_end mm n)" for n
    using nxt next_other blocks3 by (simp add: drm_mm_hole_node_end_def mm_same_blocks_def)
  have pr': "p \<in> set (mm_ring mm)" using pr ns by auto
  obtain mm4 where mm4: "(if drm_mm_hole_follows mm3 p then rm_hole p mm3 else Some mm3) = Some mm4"
    "mm_holes_ok mm4 (mm_hole_set mm - {node} - {p})" "mm_same_but_holes mm3 mm4 p 0"
    using mm_maybe_rm_hole [OF H3, of p "drm_mm_hole_follows mm3 p"] pn pr'
    by (auto simp: mm_hole_set_def drm_mm_hole_follows_def size3)
  note same4 = mm_same_but_holes_simps [OF mm4(3)]
  obtain mm5 where mm5: "add_hole p mm4 = Some mm5"
    "mm_holes_ok mm5 (insert p (mm_hole_set mm - {node} - {p}))"
    "mm_same_but_holes mm4 mm5 p (drm_mm_hole_node_end mm node - drm_mm_hole_node_start mm p)"
    "mm_hole_stack mm5 = p # mm_hole_stack mm4"
    using add_hole_correct [OF mm4(2), of p] pn by (auto simp: same4 hs3 he3)
  note same5 = mm_same_but_holes_simps [OF mm5(3)]
  have ns5: "mm_node_list mm5 = us @ vs" using same5 same4 ns3 by simp
  have "drm_mm_hole_node_start mm p < drm_mm_hole_node_end mm node"
    using mm_gap_bounds(5) [OF layout gap(1)] mm_gap_bounds(2) [OF layout gap(1)]
      mm_gap_bounds(5) [OF layout gap(2)] mm_chain_mem [of "mm_nodes mm" "mm_lo mm" "mm_node_list mm" "mm_hi mm" node]
      layout ns
    by (auto simp: mm_layout_def drm_mm_hole_node_start_def [of mm node])
  then have "mm_hole_set mm5 = insert p (mm_hole_set mm - {node} - {p})"
    using ns5 ns pr dist pn
    by (auto simp: mm_hole_set_def drm_mm_hole_follows_def same5 same4 size3 split: if_splits)
  moreover have "mm_gaps_ok mm5 n" if "n \<in> set (mm_ring mm5)" for n
  proof -
    have n: "n \<noteq> node" "n \<in> set (mm_ring mm)" using that ns5 ns dist by auto
    with inv have "mm_gaps_ok mm n" by (auto simp: mm_inv_def)
    with n(1) show ?thesis by (simp add: mm_gaps_ok_def same5 same4 hs3 he3 size3)
  qed
  moreover have "mm_layout mm5"
    using layout3 mm_layout_same mm4(3) mm5(3) unfolding mm3_def by blast
  moreover have "mm_scan_active mm5 = 0"
    using same5 same4 same1 inv by (simp add: mm3_def mm_inv_def)
  moreover have "\<forall>n\<in>set (mm_node_list mm5). \<not> nd_scanned_block (mm_nodes mm5 n)"
    using inv ns by (auto simp: ns5 same5 same4 same1 mm3_def mm_inv_def)
  ultimately have "mm_inv mm5" using mm5(2) by (simp add: mm_inv_def)
  moreover have "mm_same_blocks mm mm5"
    using blocks3 mm4(3) mm5(3) by (meson mm_same_blocks_holes mm_same_blocks_trans)
  moreover have "drm_mm_remove_node node mm = Some mm5"
  proof -
    have "remove1 node (mm_node_list mm1) = us @ vs"
      using ns same1 dist by (simp add: remove1_append)
    then have "mm_set node (\<lambda>nd. nd\<lparr>nd_allocated := False\<rparr>)
        (mm1\<lparr>mm_interval_tree := tree', mm_node_list := remove1 node (mm_node_list mm1)\<rparr>) = mm3"
      by (simp add: mm3_def)
    then show ?thesis
      by (simp add: drm_mm_remove_node_def Let_def prev mm1(1) tree' mm4(1) mm5(1) split del: if_split)
  qed
  ultimately show ?thesis using ns5 mm5(4) by (auto simp: p_def)
qed

end
