(* ===== verification/DrmMM_Alloc.thy ===== *)
theory DrmMM_Alloc
  imports DrmMM_Search
begin

text \<open>
  Allocation: \<^verbatim>\<open>drm_mm_insert_node_in_range\<close> places a block in the first hole of its walk that can
  take it and reports \<^verbatim>\<open>-ENOSPC\<close> only if no hole can; \<^verbatim>\<open>drm_mm_reserve_node\<close> places a block at the
  address it asks for exactly when that range is free.
\<close>

section \<open>Holes that are passed over\<close>

lemma mm_hole_unfit:
  assumes "mm_inv mm" and "mm_color_ok mm color" and h: "h \<in> mm_hole_set mm" and "sz \<noteq> 0"
    and "re \<le> drm_mm_hole_node_start mm h \<or> drm_mm_hole_node_end mm h \<le> rs \<or> HOLE_SIZE mm h < sz"
  shows "\<not> mm_hole_takes mm sz al color rs re h s"
proof
  assume takes: "mm_hole_takes mm sz al color rs re h s"
  note b = mm_hole_takes_bounds [OF takes assms(2) h]
  note p = mm_hole_place [OF assms(1) h]
  have "unat sz \<noteq> 0" using assms(4) by (simp add: unat_eq_0)
  moreover have "unat (HOLE_SIZE mm h) =
      unat (drm_mm_hole_node_end mm h) - unat (drm_mm_hole_node_start mm h)"
    using p by (metis add_diff_cancel_left' order_less_imp_le unat_sub)
  ultimately show False
    using b(1-4) assms(5) by (auto simp: word_le_nat_alt word_less_nat_alt)
qed

lemma first_hole_walk:
  assumes inv: "mm_inv mm" and color: "mm_color_ok mm color" and sz: "sz \<noteq> 0"
  shows "\<exists>as bs. mm_walk mode mm = as @ bs \<and> first_hole mm rs re sz mode = hd_option bs \<and>
    (\<forall>h\<in>set as. \<forall>s. \<not> mm_hole_takes mm sz al color rs re h s)"
proof (cases "mm_hole_set mm = {}")
  case True
  then have "mm_walk mode mm = []" "rb_inorder (mm_holes_size mm) = []"
    using mm_walk_holes(1) [OF inv, of mode] mm_walk_holes(1) [OF inv, of DRM_MM_INSERT_BEST]
    by simp_all
  moreover from this(2) have "mm_holes_size mm = RB_NULL" by (cases "mm_holes_size mm") simp_all
  ultimately have "mm_walk mode mm = []" "mm_holes_size mm = RB_NULL" by simp_all
  then show ?thesis by (simp add: first_hole_def)
next
  case False
  then have ne: "mm_holes_size mm \<noteq> RB_NULL"
    using mm_walk_holes(1) [OF inv, of DRM_MM_INSERT_BEST] by auto
  have holes: "set (mm_walk mode mm) \<subseteq> mm_hole_set mm" for mode
    using mm_walk_holes(1) [OF inv] by simp
  note unfit = mm_hole_unfit [OF inv color _ sz]
  show ?thesis
  proof (cases mode)
    case DRM_MM_INSERT_BEST
    have "sorted (map (HOLE_SIZE mm) (rb_inorder (mm_holes_size mm)))"
      using inv by (simp add: mm_inv_def mm_holes_ok_def hole_index_def)
    then obtain as bs where w: "rb_inorder (mm_holes_size mm) = as @ bs"
      "\<forall>x\<in>set as. HOLE_SIZE mm x < sz" "best_hole mm sz = hd_option bs"
      using best_hole_at_walk [of "HOLE_SIZE mm" "mm_holes_size mm" sz None]
      unfolding best_hole_def by (metis hd_option_simps(1))
    with holes [of DRM_MM_INSERT_BEST] have "set as \<subseteq> mm_hole_set mm" by auto
    with w(2) have "\<forall>h\<in>set as. \<forall>s. \<not> mm_hole_takes mm sz al color rs re h s"
      using unfit by (meson less_imp_le subsetD)
    with w ne DRM_MM_INSERT_BEST show ?thesis by (auto simp: first_hole_def)
  next
    case DRM_MM_INSERT_LOW
    obtain as h bs where w: "rb_inorder (mm_holes_addr mm) = as @ h # bs" "find_hole mm rs = Some h"
      "\<forall>x\<in>set as. drm_mm_hole_node_end mm x < rs"
      using find_hole_walk [OF inv False] by metis
    with holes [of DRM_MM_INSERT_LOW] have "set as \<subseteq> mm_hole_set mm" by auto
    with w(3) have "\<forall>h\<in>set as. \<forall>s. \<not> mm_hole_takes mm sz al color rs re h s"
      using unfit by (meson less_imp_le subsetD)
    with w ne DRM_MM_INSERT_LOW show ?thesis
      by (intro exI [of _ as] exI [of _ "h # bs"]) (simp add: first_hole_def)
  next
    case DRM_MM_INSERT_HIGH
    obtain as h bs where w: "rb_inorder (mm_holes_addr mm) = as @ h # bs" "find_hole mm re = Some h"
      "\<forall>x\<in>set bs. re < drm_mm_hole_node_start mm x"
      using find_hole_walk [OF inv False] by metis
    with holes [of DRM_MM_INSERT_LOW] have "set bs \<subseteq> mm_hole_set mm" by auto
    with w(3) have "\<forall>h\<in>set bs. \<forall>s. \<not> mm_hole_takes mm sz al color rs re h s"
      using unfit by (meson less_imp_le subsetD)
    with w ne DRM_MM_INSERT_HIGH show ?thesis
      by (intro exI [of _ "rev bs"] exI [of _ "h # rev as"]) (simp add: first_hole_def)
  next
    case DRM_MM_INSERT_EVICT
    with ne show ?thesis
      by (intro exI [of _ "[]"] exI [of _ "mm_hole_stack mm"])
        (simp add: first_hole_def hd_option_def)
  qed
qed

section \<open>The insertion loop\<close>

text \<open>Within a hole the loop takes the lowest place, or the highest in mode \<open>DRM_MM_INSERT_HIGH\<close>.\<close>

lemma mm_check_Some: "mm_check s lo hi sz = Some s' \<Longrightarrow> s' = s"
  by (auto simp: mm_check_def split: if_splits)

lemma mm_fit_extreme:
  assumes fit: "mm_fit mode sz al (mm_remainder_mask al) rs re cs ce = Some s"
    and placed: "mm_placed (unat (max cs rs)) (unat (min ce re)) (unat al) (unat sz) s'"
  shows "if mode = DRM_MM_INSERT_HIGH then s' \<le> unat s else unat s \<le> s'"
proof -
  define lo where "lo = max cs rs"
  define hi where "hi = min ce re"
  have p: "unat lo \<le> s'" "s' + unat sz \<le> unat hi" "unat al \<noteq> 0 \<longrightarrow> unat al dvd s'"
    using placed by (simp_all add: mm_placed_def lo_def hi_def)
  have fit': "mm_fit_in mode sz al lo hi = Some s" using fit by (simp add: mm_fit_in lo_def hi_def)
  have top: "unat (hi - sz) = unat hi - unat sz"
    using p(2) by (simp add: unat_sub word_le_nat_alt)
  show ?thesis
  proof (cases "mode = DRM_MM_INSERT_HIGH")
    case True
    with fit' have "s = hi - sz \<or> al \<noteq> 0 \<and> s = hi - sz - (hi - sz) mod al"
      by (auto simp: mm_fit_in_def Let_def split: if_splits dest: mm_check_Some)
    moreover have "unat (hi - sz - (hi - sz) mod al) = unat hi - unat sz - (unat hi - unat sz) mod unat al"
      by (simp add: unat_sub word_le_nat_alt unat_mod_distrib top)
    ultimately show ?thesis
      using True p top mm_round_down [of "unat al" s' "unat hi - unat sz"] by (auto simp: unat_eq_0)
  next
    case False
    with fit' have s: "s = lo \<or> al \<noteq> 0 \<and> lo mod al \<noteq> 0 \<and> s = lo - lo mod al + al"
      by (auto simp: mm_fit_in_def Let_def split: if_splits dest: mm_check_Some)
    have "unat (lo - lo mod al) = unat lo - unat lo mod unat al"
      by (simp add: unat_sub word_le_nat_alt unat_mod_distrib)
    then have "unat (lo - lo mod al + al) = (unat lo - unat lo mod unat al + unat al) mod 2 ^ 64"
      by (simp add: unat_word_ariths)
    then have "unat (lo - lo mod al + al) \<le> unat lo - unat lo mod unat al + unat al"
      by (metis mod_less_eq_dividend)
    moreover have "unat lo mod unat al \<noteq> 0" if "lo mod al \<noteq> 0"
      using that by (metis unat_eq_0 unat_mod_distrib)
    ultimately show ?thesis
      using s False p mm_round_up [of "unat al" "unat lo" s'] by (auto simp: unat_eq_0)
  qed
qed

text \<open>The end of the loop on the hole \<open>h\<close>: the node's fields are set and the node is linked.\<close>

definition mm_place_node :: "drm_mm \<Rightarrow> nat \<Rightarrow> u64 \<Rightarrow> u64 \<Rightarrow> nat \<Rightarrow> u64 \<Rightarrow> drm_mm option" where
  "mm_place_node mm node sz color h s =
     mm_link_node h node (drm_mm_hole_node_start mm h) (drm_mm_hole_node_end mm h) s (s + sz)
       (mm_set node (\<lambda>nd. nd\<lparr>nd_size := sz, nd_start := s, nd_color := color, nd_hole_size := 0\<rparr>) mm)"

lemma mm_stop_unfit:
  assumes inv: "mm_inv mm" and color: "mm_color_ok mm color" and sz: "sz \<noteq> 0"
    and walk: "mm_walk mode mm = us @ h # vs"
    and stop: "(mode = DRM_MM_INSERT_LOW \<and> re \<le> drm_mm_hole_node_start mm h) \<or>
      (mode = DRM_MM_INSERT_HIGH \<and> drm_mm_hole_node_end mm h \<le> rs)"
    and k: "k \<in> set (h # vs)"
  shows "\<not> mm_hole_takes mm sz al color rs re k s"
proof -
  have holes: "h \<in> mm_hole_set mm" "k \<in> mm_hole_set mm"
    using mm_walk_holes(1) [OF inv, of mode] walk k by auto
  note place = mm_hole_place(1) [OF inv holes(1)] mm_hole_place(1) [OF inv holes(2)]
  from mm_holes_addr_sorted [OF inv]
  have sorted: "sorted_wrt (\<lambda>h k. drm_mm_hole_node_end mm h < drm_mm_hole_node_start mm k)
      (rb_inorder (mm_holes_addr mm))" by (simp add: mm_holes_apart_on_def)
  from stop show ?thesis
  proof
    assume low: "mode = DRM_MM_INSERT_LOW \<and> re \<le> drm_mm_hole_node_start mm h"
    with sorted walk have "k = h \<or> drm_mm_hole_node_end mm h < drm_mm_hole_node_start mm k"
      using k by (auto simp: sorted_wrt_append)
    with low place have "re \<le> drm_mm_hole_node_start mm k" by auto
    then show ?thesis using mm_hole_unfit [OF inv color holes(2) sz] by blast
  next
    assume high: "mode = DRM_MM_INSERT_HIGH \<and> drm_mm_hole_node_end mm h \<le> rs"
    with walk have "rb_inorder (mm_holes_addr mm) = rev vs @ h # rev us" by (simp add: rev_swap)
    with sorted have "k = h \<or> drm_mm_hole_node_end mm k < drm_mm_hole_node_start mm h"
      using k by (auto simp: sorted_wrt_append)
    with high place have "drm_mm_hole_node_end mm k \<le> rs" by auto
    then show ?thesis using mm_hole_unfit [OF inv color holes(2) sz] by blast
  qed
qed

text \<open>What a walk over the holes \<open>hs\<close> may end with: the first hole that can take the block gets it.\<close>

definition mm_walk_result :: "drm_mm_insert_mode \<Rightarrow> drm_mm \<Rightarrow> nat \<Rightarrow> u64 \<Rightarrow> u64 \<Rightarrow> u64 \<Rightarrow> u64 \<Rightarrow> u64 \<Rightarrow> nat list \<Rightarrow>
    (errno + drm_mm) option \<Rightarrow> bool" where
  "mm_walk_result mode mm node sz al color rs re hs r \<longleftrightarrow>
     (r = Some (Inl ENOSPC) \<and> (\<forall>h\<in>set hs. \<forall>s. \<not> mm_hole_takes mm sz al color rs re h s)) \<or>
     (\<exists>as h bs s. hs = as @ h # bs \<and> mm_hole_takes mm sz al color rs re h (unat s) \<and>
        (\<forall>k\<in>set as. \<forall>s. \<not> mm_hole_takes mm sz al color rs re k s) \<and>
        (\<forall>s'. mm_hole_takes mm sz al color rs re h s' \<longrightarrow>
           (if mode = DRM_MM_INSERT_HIGH then s' \<le> unat s else unat s \<le> s')) \<and>
        r = map_option Inr (mm_place_node mm node sz color h s))"

lemma mm_walk_result_skip:
  assumes "mm_walk_result mode mm node sz al color rs re hs r"
    and "\<forall>h\<in>set gs. \<forall>s. \<not> mm_hole_takes mm sz al color rs re h s"
  shows "mm_walk_result mode mm node sz al color rs re (gs @ hs) r"
proof -
  from assms(1) consider
      "r = Some (Inl ENOSPC)" "\<forall>h\<in>set hs. \<forall>s. \<not> mm_hole_takes mm sz al color rs re h s"
    | as h bs s where "hs = as @ h # bs" "mm_hole_takes mm sz al color rs re h (unat s)"
        "\<forall>k\<in>set as. \<forall>s. \<not> mm_hole_takes mm sz al color rs re k s"
        "\<forall>s'. mm_hole_takes mm sz al color rs re h s' \<longrightarrow>
           (if mode = DRM_MM_INSERT_HIGH then s' \<le> unat s else unat s \<le> s')"
        "r = map_option Inr (mm_place_node mm node sz color h s)"
    unfolding mm_walk_result_def by blast
  then show ?thesis
  proof cases
    case 1
    with assms(2) show ?thesis by (auto simp: mm_walk_result_def)
  next
    case (2 as h bs s)
    with assms(2) show ?thesis
      unfolding mm_walk_result_def
      by (intro disjI2 exI [of _ "gs @ as"] exI [of _ h] exI [of _ bs] exI [of _ s]) auto
  qed
qed

lemma mm_insert_loop_walk:
  assumes inv: "mm_inv mm" and color: "mm_color_ok mm color" and sz: "sz \<noteq> 0"
  shows "mm_walk mode mm = us @ hs \<Longrightarrow> length hs \<le> fuel \<Longrightarrow>
    mm_walk_result mode mm node sz al color rs re hs
      (mm_insert_loop fuel mm node sz al color rs re mode (hd_option hs))"
proof (induction hs arbitrary: us fuel)
  case Nil
  show ?case by (simp add: mm_walk_result_def)
next
  case (Cons h hs)
  then obtain fuel' where fuel: "fuel = Suc fuel'" by (cases fuel) auto
  have h: "h \<in> mm_hole_set mm" using mm_walk_holes(1) [OF inv, of mode] Cons.prems(1) by auto
  let ?hs = "drm_mm_hole_node_start mm h" and ?he = "drm_mm_hole_node_end mm h"
  let ?stop = "(mode = DRM_MM_INSERT_LOW \<and> re \<le> ?hs) \<or> (mode = DRM_MM_INSERT_HIGH \<and> ?he \<le> rs)"
  let ?loop = "mm_insert_loop fuel mm node sz al color rs re mode (hd_option (h # hs))"
  obtain cs ce where c: "mm_color_range mm h color (?hs, ?he) = (cs, ce)" by fastforce
  note he = mm_hole_place(2) [OF inv h]
  let ?fit = "mm_fit mode sz al (mm_remainder_mask al) rs re cs ce"
  note exact = mm_fit_exact [OF sz, where mode = mode and al = al and rs = rs and re = re and cs = cs and ce = ce]
  show ?case
  proof (cases ?stop)
    case True
    then have "?loop = Some (Inl ENOSPC)" using fuel he by (auto simp: Let_def)
    with mm_stop_unfit [OF inv color sz Cons.prems(1) True] show ?thesis
      unfolding mm_walk_result_def by blast
  next
    case False
    show ?thesis
    proof (cases ?fit)
      case None
      have "?loop = mm_insert_loop fuel' mm node sz al color rs re mode (hd_option hs)"
        using fuel he False c None next_hole_walk [OF inv Cons.prems(1)] by (auto simp: Let_def)
      moreover have "\<not> mm_hole_takes mm sz al color rs re h s" for s
        using exact None c by (simp add: mm_hole_takes_def)
      moreover have "mm_walk_result mode mm node sz al color rs re hs
          (mm_insert_loop fuel' mm node sz al color rs re mode (hd_option hs))"
        using Cons.IH [of "us @ [h]" fuel'] Cons.prems fuel by simp
      ultimately show ?thesis using mm_walk_result_skip [of mode mm node sz al color rs re hs _ "[h]"] by simp
    next
      case (Some s)
      have "?loop = map_option Inr (mm_place_node mm node sz color h s)"
        using fuel he False c Some by (auto simp: Let_def mm_place_node_def)
      moreover have "mm_hole_takes mm sz al color rs re h (unat s)"
        using exact Some c by (simp add: mm_hole_takes_def)
      moreover have "\<forall>s'. mm_hole_takes mm sz al color rs re h s' \<longrightarrow>
          (if mode = DRM_MM_INSERT_HIGH then s' \<le> unat s else unat s \<le> s')"
        using mm_fit_extreme [OF Some] c by (simp add: mm_hole_takes_def)
      ultimately show ?thesis
        unfolding mm_walk_result_def by (intro disjI2 exI [of _ "[]"]) auto
    qed
  qed
qed

lemma drm_mm_insert_walk:
  assumes inv: "mm_inv mm" and color: "mm_color_ok mm color" and sz: "sz \<noteq> 0" and range: "rs \<le> re"
  shows "mm_walk_result mode mm node sz (mm_alignment al) color rs re (mm_walk mode mm)
    (drm_mm_insert_node_in_range mm node sz al color rs re mode)"
proof (cases "re - rs < sz")
  case True
  have "\<not> mm_hole_takes mm sz (mm_alignment al) color rs re h s" if "h \<in> set (mm_walk mode mm)" for h s
  proof
    assume "mm_hole_takes mm sz (mm_alignment al) color rs re h s"
    from mm_hole_takes_bounds [OF this color] that have "unat rs + unat sz \<le> unat re"
      using mm_walk_holes(1) [OF inv, of mode] by auto
    with True range show False by (simp add: word_less_nat_alt unat_sub)
  qed
  with True show ?thesis by (simp add: mm_walk_result_def drm_mm_insert_node_in_range_def)
next
  case False
  obtain as bs where w: "mm_walk mode mm = as @ bs" "first_hole mm rs re sz mode = hd_option bs"
    "\<forall>h\<in>set as. \<forall>s. \<not> mm_hole_takes mm sz (mm_alignment al) color rs re h s"
    using first_hole_walk [OF inv color sz] by metis
  have "length bs \<le> length (mm_hole_stack mm)"
    using mm_walk_holes(3) [OF inv, of mode] w(1) by simp
  from mm_insert_loop_walk [OF inv color sz w(1) this]
  show ?thesis
    using False sz w mm_walk_result_skip by (simp add: drm_mm_insert_node_in_range_def)
qed

section \<open>The allocator as a map of blocks\<close>

text \<open>
  The abstract view of the allocator: which nodes are allocated and where, and which ranges are
  free. Bounds are natural numbers, so that no sum wraps.
\<close>

definition mm_blocks :: "drm_mm \<Rightarrow> nat \<Rightarrow> (u64 \<times> u64 \<times> u64) option" where
  "mm_blocks mm n =
     (if n \<in> set (mm_node_list mm)
      then Some (nd_start (mm_nodes mm n), nd_size (mm_nodes mm n), nd_color (mm_nodes mm n))
      else None)"

definition mm_range_free :: "drm_mm \<Rightarrow> nat \<Rightarrow> nat \<Rightarrow> bool" where
  "mm_range_free mm s e \<longleftrightarrow> unat (mm_lo mm) \<le> s \<and> e \<le> unat (mm_hi mm) \<and>
     (\<forall>n\<in>set (mm_node_list mm).
        unat (START mm n) + unat (nd_size (mm_nodes mm n)) \<le> s \<or> e \<le> unat (START mm n))"

lemma unat_plus_nowrap: "a < a + b \<Longrightarrow> unat (a + b) = unat a + unat b" for a b :: u64
  by (meson less_imp_le no_olen_add_nat unat_add_lem word_le_nat_alt)

lemma mm_chain_free:
  "mm_chain N p ns q \<Longrightarrow> unat p \<le> s \<Longrightarrow> e \<le> unat q \<Longrightarrow> s < e \<Longrightarrow>
   (\<And>n. n \<in> set ns \<Longrightarrow> unat (nd_start (N n)) + unat (nd_size (N n)) \<le> s \<or> e \<le> unat (nd_start (N n))) \<Longrightarrow>
   \<exists>us vs. ns = us @ vs \<and> unat (mm_chain_end N p us) \<le> s \<and>
     e \<le> unat (case vs of [] \<Rightarrow> q | v # _ \<Rightarrow> nd_start (N v))"
proof (induction ns arbitrary: p)
  case (Cons n ns)
  show ?case
  proof (cases "e \<le> unat (nd_start (N n))")
    case True
    with Cons.prems show ?thesis
      by (intro exI [of _ "[]"] exI [of _ "n # ns"]) (simp add: mm_chain_end_def)
  next
    case False
    let ?p = "nd_start (N n) + nd_size (N n)"
    have "unat ?p \<le> s"
      using False Cons.prems(1) Cons.prems(5) [of n] by (simp add: unat_plus_nowrap)
    then obtain us vs where "ns = us @ vs" "unat (mm_chain_end N ?p us) \<le> s"
      "e \<le> unat (case vs of [] \<Rightarrow> q | v # _ \<Rightarrow> nd_start (N v))"
      using Cons.IH [of ?p] Cons.prems by auto
    moreover have "mm_chain_end N p (n # us) = mm_chain_end N ?p us"
      by (simp add: mm_chain_end_def)
    ultimately show ?thesis by (intro exI [of _ "n # us"] exI [of _ vs]) simp
  qed
qed (simp add: mm_chain_end_def)

lemma mm_gap_free:
  assumes "mm_list_ok mm" and "mm_chain (mm_nodes mm) (mm_lo mm) (mm_node_list mm) (mm_hi mm)"
    and gap: "mm_gap mm h us vs"
    and h: "unat (drm_mm_hole_node_start mm h) \<le> s" "e \<le> unat (drm_mm_hole_node_end mm h)"
  shows "mm_range_free mm s e"
proof -
  note b = mm_chain_gap_bounds [OF assms(1-3)]
  have "unat (START mm n) + unat (nd_size (mm_nodes mm n)) \<le> s" if "n \<in> set us" for n
  proof -
    from mm_chain_mem [OF b(3) that] have "START mm n < START mm n + nd_size (mm_nodes mm n)"
      "unat (START mm n + nd_size (mm_nodes mm n)) \<le> unat (drm_mm_hole_node_start mm h)"
      by (auto simp: word_le_nat_alt)
    with h(1) show ?thesis by (simp add: unat_plus_nowrap)
  qed
  moreover have "e \<le> unat (START mm n)" if "n \<in> set vs" for n
    using mm_chain_mem [OF b(4) that] h(2) by (auto simp: word_le_nat_alt)
  moreover have "unat (mm_lo mm) \<le> s" "e \<le> unat (mm_hi mm)"
    using mm_chain_le [OF b(3)] mm_chain_le [OF b(4)] h by (auto simp: word_le_nat_alt)
  ultimately show ?thesis using gap by (auto simp: mm_range_free_def mm_gap_def)
qed

lemma mm_range_free_hole:
  assumes inv: "mm_inv mm" and "s < e"
  shows "mm_range_free mm s e \<longleftrightarrow> (\<exists>h\<in>mm_hole_set mm.
    unat (drm_mm_hole_node_start mm h) \<le> s \<and> e \<le> unat (drm_mm_hole_node_end mm h))" (is "?free \<longleftrightarrow> ?hole")
proof
  have lay: "mm_layout mm" using inv by (simp add: mm_inv_def)
  assume free: ?free
  from lay have "mm_chain (mm_nodes mm) (mm_lo mm) (mm_node_list mm) (mm_hi mm)"
    by (simp add: mm_layout_def)
  moreover from free have "unat (mm_lo mm) \<le> s" "e \<le> unat (mm_hi mm)"
    "\<And>n. n \<in> set (mm_node_list mm) \<Longrightarrow>
      unat (START mm n) + unat (nd_size (mm_nodes mm n)) \<le> s \<or> e \<le> unat (START mm n)"
    by (simp_all add: mm_range_free_def)
  ultimately obtain us vs where g: "mm_node_list mm = us @ vs"
    "unat (mm_chain_end (mm_nodes mm) (mm_lo mm) us) \<le> s"
    "e \<le> unat (case vs of [] \<Rightarrow> mm_hi mm | v # _ \<Rightarrow> nd_start (mm_nodes mm v))"
    using mm_chain_free [of "mm_nodes mm" "mm_lo mm" "mm_node_list mm" "mm_hi mm" s e] \<open>s < e\<close> by blast
  define h where "h = last (HEAD # us)"
  have gap: "mm_gap mm h us vs" using g by (simp add: mm_gap_def h_def)
  note b = mm_gap_bounds [OF lay gap]
  have hs: "unat (drm_mm_hole_node_start mm h) \<le> s" "e \<le> unat (drm_mm_hole_node_end mm h)"
    using g(2,3) by (simp_all add: b)
  have ring: "h \<in> set (mm_ring mm)" using g(1) by (auto simp: h_def)
  have "drm_mm_hole_node_start mm h \<noteq> drm_mm_hole_node_end mm h" using hs \<open>s < e\<close> by auto
  then have "HOLE_SIZE mm h \<noteq> 0" using mm_hole_end_size [OF inv ring] by auto
  with ring hs show ?hole by (auto simp: mm_hole_set_def drm_mm_hole_follows_def)
next
  assume ?hole
  then obtain h where h: "h \<in> mm_hole_set mm" "unat (drm_mm_hole_node_start mm h) \<le> s"
    "e \<le> unat (drm_mm_hole_node_end mm h)" by blast
  obtain us vs where "mm_gap mm h us vs" using mm_gapE [OF mm_hole_ring [OF h(1)]] .
  with h(2,3) mm_layout_chain [of mm] inv show ?free by (auto simp: mm_inv_def intro: mm_gap_free)
qed

lemma mm_blocks_disjoint:
  assumes "mm_inv mm" and "m \<in> set (mm_node_list mm)" "n \<in> set (mm_node_list mm)" "m \<noteq> n"
  shows "unat (START mm m) + unat (nd_size (mm_nodes mm m)) \<le> unat (START mm n) \<or>
    unat (START mm n) + unat (nd_size (mm_nodes mm n)) \<le> unat (START mm m)"
proof -
  have chain: "mm_chain (mm_nodes mm) (mm_lo mm) (mm_node_list mm) (mm_hi mm)"
    using assms(1) by (simp add: mm_inv_def mm_layout_def)
  have e: "unat (START mm k + nd_size (mm_nodes mm k)) = unat (START mm k) + unat (nd_size (mm_nodes mm k))"
    if "k \<in> set (mm_node_list mm)" for k
    using mm_chain_mem [OF chain that] by (simp add: unat_plus_nowrap)
  have "START mm m + nd_size (mm_nodes mm m) \<le> START mm n \<or> START mm n + nd_size (mm_nodes mm n) \<le> START mm m"
    using sorted_wrt_pair [OF mm_chain_sorted_wrt [OF chain] assms(2-4)] .
  then show ?thesis using e assms by (auto simp: word_le_nat_alt)
qed

section \<open>Setting the fields of a node that is not linked\<close>

lemma next_in_mem: "next_in xs k d = d \<or> next_in xs k d \<in> set xs"
proof (induction xs)
  case (Cons x xs)
  show ?case
  proof (cases "x = k")
    case True
    then have "next_in (x # xs) k d = (case xs of [] \<Rightarrow> d | y # _ \<Rightarrow> y)" by simp
    then show ?thesis by (metis list.case list.exhaust list.set_intros)
  next
    case False
    then have "next_in (x # xs) k d = next_in xs k d" by simp
    with Cons.IH show ?thesis by (metis list.set_intros(2))
  qed
qed simp

lemma mm_list_next_ring: "mm_list_next mm k \<in> set (mm_ring mm)"
  using next_in_mem [of "mm_ring mm" k HEAD] unfolding mm_list_next_def by (metis list.set_intros(1))

lemma mm_set_fresh:
  assumes inv: "mm_inv mm" and node: "node \<notin> set (mm_ring mm)"
    and f: "nd_allocated (f (mm_nodes mm node)) = nd_allocated (mm_nodes mm node)"
  shows "mm_inv (mm_set node f mm)"
    and "mm_gap (mm_set node f mm) h us vs = mm_gap mm h us vs"
    and "h \<in> set (mm_ring mm) \<Longrightarrow> drm_mm_hole_node_start (mm_set node f mm) h = drm_mm_hole_node_start mm h"
    and "drm_mm_hole_node_end (mm_set node f mm) h = drm_mm_hole_node_end mm h"
    and "mm_hole_set (mm_set node f mm) = mm_hole_set mm"
proof -
  let ?mm = "mm_set node f mm"
  have same: "mm_nodes ?mm k = mm_nodes mm k" if "k \<in> set (mm_ring mm)" for k
    using that node by (auto simp: mm_set_def)
  show gap: "mm_gap ?mm h us vs = mm_gap mm h us vs" for h us vs
    by (simp add: mm_gap_def)
  show hs: "drm_mm_hole_node_start ?mm h = drm_mm_hole_node_start mm h" if "h \<in> set (mm_ring mm)" for h
    using same [OF that] by (simp add: drm_mm_hole_node_start_def)
  show he: "drm_mm_hole_node_end ?mm h = drm_mm_hole_node_end mm h" for h
    using same [OF mm_list_next_ring [of mm h]] by (simp add: drm_mm_hole_node_end_def mm_list_next_def)
  show H: "mm_hole_set ?mm = mm_hole_set mm"
    using node by (auto simp: mm_hole_set_def drm_mm_hole_follows_def)
  have "mm_holes_ok ?mm (mm_hole_set mm)"
  proof (rule mm_holes_ok_cong)
    show "mm_holes_ok mm (mm_hole_set mm)" using inv by (simp add: mm_inv_def)
    show "HOLE_SIZE ?mm n = HOLE_SIZE mm n \<and> HOLE_ADDR ?mm n = HOLE_ADDR mm n"
      if "n \<in> mm_hole_set mm" for n
      using same [OF mm_hole_ring [OF that]] hs [OF mm_hole_ring [OF that]] by simp
  qed simp_all
  moreover have "mm_layout ?mm"
  proof -
    have "it_inv (START ?mm) (LAST ?mm) (mm_interval_tree mm)"
    proof (rule it_inv_cong)
      show "it_inv (START mm) (LAST mm) (mm_interval_tree mm)"
        using inv by (simp add: mm_inv_def mm_layout_def)
      show "START ?mm x = START mm x \<and> LAST ?mm x = LAST mm x"
        if "x \<in> set (it_list (mm_interval_tree mm))" for x
        using same [of x] that inv by (simp add: mm_inv_def mm_layout_def LAST_def)
    qed
    moreover have "mm_chain (mm_nodes ?mm) (mm_lo mm) (mm_node_list mm) (mm_hi mm)"
      using inv same mm_chain_cong [of "mm_node_list mm" "mm_nodes ?mm" "mm_nodes mm"]
      by (simp add: mm_inv_def mm_layout_def)
    moreover have "mm_lo ?mm = mm_lo mm" "mm_hi ?mm = mm_hi mm"
      using same [of HEAD] hs [of HEAD] by (simp_all add: mm_lo_def mm_hi_def)
    moreover have "nd_allocated (mm_nodes ?mm n) = nd_allocated (mm_nodes mm n)" for n
      using f by (simp add: mm_set_def)
    ultimately show ?thesis
      using inv by (simp add: mm_inv_def mm_layout_def mm_list_ok_def)
  qed
  moreover have "mm_gaps_ok ?mm n" if "n \<in> set (mm_ring mm)" for n
  proof -
    have "mm_gaps_ok mm n" using inv that by (auto simp: mm_inv_def)
    then show ?thesis using hs [OF that] he [of n] same [OF that] by (simp add: mm_gaps_ok_def)
  qed
  ultimately show "mm_inv ?mm"
    using inv H node by (auto simp: mm_inv_def)
qed

lemma mm_place_node_correct:
  assumes inv: "mm_inv mm" and node: "node \<notin> set (mm_ring mm)"
    and scan: "\<not> nd_scanned_block (mm_nodes mm node)" and h: "h \<in> mm_hole_set mm" and sz: "sz \<noteq> 0"
    and bounds: "unat (drm_mm_hole_node_start mm h) \<le> unat s"
      "unat s + unat sz \<le> unat (drm_mm_hole_node_end mm h)"
  shows "\<exists>mm'. mm_place_node mm node sz color h s = Some mm' \<and> mm_inv mm' \<and>
    mm_blocks mm' = (mm_blocks mm)(node \<mapsto> (s, sz, color)) \<and>
    mm_lo mm' = mm_lo mm \<and> mm_hi mm' = mm_hi mm \<and> mm_color_adjust mm' = mm_color_adjust mm \<and>
    (\<forall>k. nd_scanned_block (mm_nodes mm' k) = nd_scanned_block (mm_nodes mm k))"
proof -
  define f where "f = (\<lambda>nd :: drm_mm_node. nd\<lparr>nd_size := sz, nd_start := s, nd_color := color, nd_hole_size := 0\<rparr>)"
  let ?mm = "mm_set node f mm"
  have f: "nd_allocated (f (mm_nodes mm node)) = nd_allocated (mm_nodes mm node)" by (simp add: f_def)
  note fresh = mm_set_fresh [of mm node f, OF inv node f]
  have ring: "h \<in> set (mm_ring mm)" using mm_hole_ring [OF h] .
  obtain us vs where gap: "mm_gap mm h us vs" using mm_gapE [OF ring] .
  have s: "START ?mm node = s" "nd_size (mm_nodes ?mm node) = sz" by (simp_all add: mm_set_def f_def)
  have "unat s + unat sz < 2 ^ 64"
    using bounds(2) unat_64_less [of "drm_mm_hole_node_end mm h"] by simp
  then have sum: "unat (s + sz) = unat s + unat sz" by (simp add: unat_word_ariths)
  have "unat sz \<noteq> 0" using sz by (simp add: unat_eq_0)
  then have place: "drm_mm_hole_node_start mm h \<le> s" "s < s + sz" "s + sz \<le> drm_mm_hole_node_end mm h"
    using bounds sum by (simp_all add: word_le_nat_alt word_less_nat_alt)
  have "\<exists>mm'. mm_link_node h node (drm_mm_hole_node_start ?mm h) (drm_mm_hole_node_end ?mm h)
      (START ?mm node) (START ?mm node + nd_size (mm_nodes ?mm node)) ?mm = Some mm' \<and>
    mm_inv mm' \<and> mm_node_list mm' = us @ node # vs \<and> mm_same_blocks ?mm mm'"
  proof (rule mm_link_node_correct)
    show "mm_inv ?mm" by (fact fresh(1))
    show "mm_gap ?mm h us vs" using gap fresh(2) by blast
    show "h \<in> mm_hole_set ?mm" using h fresh(5) by simp
    show "drm_mm_hole_node_start ?mm h \<le> START ?mm node" using place fresh(3) [OF ring] s by simp
    show "START ?mm node < START ?mm node + nd_size (mm_nodes ?mm node)" using place s by simp
    show "START ?mm node + nd_size (mm_nodes ?mm node) \<le> drm_mm_hole_node_end ?mm h"
      using place fresh(4) s by simp
  qed (use node scan in \<open>simp_all add: mm_set_def f_def\<close>)
  then obtain mm' where mm': "mm_place_node mm node sz color h s = Some mm'"
    "mm_inv mm'" "mm_node_list mm' = us @ node # vs" "mm_same_blocks ?mm mm'"
    using fresh(3) [OF ring] fresh(4) s unfolding mm_place_node_def f_def [symmetric] by auto
  have same: "START mm' k = START ?mm k \<and> nd_size (mm_nodes mm' k) = nd_size (mm_nodes ?mm k) \<and>
      nd_color (mm_nodes mm' k) = nd_color (mm_nodes ?mm k) \<and>
      nd_scanned_block (mm_nodes mm' k) = nd_scanned_block (mm_nodes ?mm k)" for k
    using mm'(4) by (simp add: mm_same_blocks_def)
  have "mm_blocks mm' = (mm_blocks mm)(node \<mapsto> (s, sz, color))"
    using same mm'(3) gap by (auto simp: fun_eq_iff mm_blocks_def mm_gap_def mm_set_def f_def)
  moreover have "mm_lo mm' = mm_lo mm" "mm_hi mm' = mm_hi mm"
    using same [of HEAD] node by (auto simp: mm_lo_def mm_hi_def drm_mm_hole_node_start_def mm_set_def)
  ultimately show ?thesis
    using mm' same by (auto simp: mm_same_blocks_def mm_set_def f_def)
qed

section \<open>Insertion\<close>

lemma mm_hole_takes_free:
  assumes "mm_inv mm" and "mm_color_adjust mm = None" and "sz \<noteq> 0"
  shows "(\<exists>h\<in>mm_hole_set mm. mm_hole_takes mm sz (mm_alignment al) color rs re h s) \<longleftrightarrow>
    mm_range_free mm s (s + unat sz) \<and> unat rs \<le> s \<and> s + unat sz \<le> unat re \<and>
    (al \<noteq> 0 \<longrightarrow> unat al dvd s)"
proof -
  have "(unat (mm_alignment al) \<noteq> 0 \<longrightarrow> unat (mm_alignment al) dvd s) \<longleftrightarrow> (al \<noteq> 0 \<longrightarrow> unat al dvd s)"
  proof (cases "al \<le> 1")
    case True
    then have "unat al \<le> 1" by (simp add: word_le_nat_alt)
    then have "unat al = 0 \<or> unat al = 1" by linarith
    with True show ?thesis by (auto simp: mm_alignment_def unat_eq_0)
  qed (simp add: mm_alignment_def unat_eq_0)
  moreover have "unat (max a b) \<le> s \<longleftrightarrow> unat a \<le> s \<and> unat b \<le> s" for a b :: u64
    by (auto simp: max_def word_le_nat_alt)
  moreover have "t \<le> unat (min a b) \<longleftrightarrow> t \<le> unat a \<and> t \<le> unat b" for a b :: u64 and t
    by (auto simp: min_def word_le_nat_alt)
  moreover have "s < s + unat sz" using assms(3) by (simp add: unat_eq_0 word_neq_0_conv unat_gt_0)
  ultimately show ?thesis
    using mm_range_free_hole [OF assms(1), of s "s + unat sz"] assms(2)
    by (auto simp: mm_hole_takes_def mm_color_range_def mm_placed_def)
qed

lemma drm_mm_insert_result:
  assumes inv: "mm_inv mm" and color: "mm_color_ok mm color" and sz: "sz \<noteq> 0" and range: "rs \<le> re"
    and node: "node \<notin> set (mm_ring mm)" "\<not> nd_scanned_block (mm_nodes mm node)"
  shows "(drm_mm_insert_node_in_range mm node sz al color rs re mode = Some (Inl ENOSPC) \<and>
      (\<forall>h\<in>mm_hole_set mm. \<forall>s. \<not> mm_hole_takes mm sz (mm_alignment al) color rs re h s)) \<or>
    (\<exists>as h bs s mm'. mm_walk mode mm = as @ h # bs \<and> h \<in> mm_hole_set mm \<and>
      mm_hole_takes mm sz (mm_alignment al) color rs re h (unat s) \<and>
      (\<forall>k\<in>set as. \<forall>s. \<not> mm_hole_takes mm sz (mm_alignment al) color rs re k s) \<and>
      (\<forall>s'. mm_hole_takes mm sz (mm_alignment al) color rs re h s' \<longrightarrow>
         (if mode = DRM_MM_INSERT_HIGH then s' \<le> unat s else unat s \<le> s')) \<and>
      drm_mm_insert_node_in_range mm node sz al color rs re mode = Some (Inr mm') \<and>
      mm_inv mm' \<and> mm_blocks mm' = (mm_blocks mm)(node \<mapsto> (s, sz, color)) \<and>
      mm_lo mm' = mm_lo mm \<and> mm_hi mm' = mm_hi mm \<and> mm_color_adjust mm' = mm_color_adjust mm)"
  using drm_mm_insert_walk [OF inv color sz range, of mode node al]
  unfolding mm_walk_result_def mm_walk_holes(1) [OF inv]
proof (elim disjE exE conjE)
  fix as h bs s
  assume walk: "mm_walk mode mm = as @ h # bs"
    and takes: "mm_hole_takes mm sz (mm_alignment al) color rs re h (unat s)"
    and as: "\<forall>k\<in>set as. \<forall>s. \<not> mm_hole_takes mm sz (mm_alignment al) color rs re k s"
    and best: "\<forall>s'. mm_hole_takes mm sz (mm_alignment al) color rs re h s' \<longrightarrow>
         (if mode = DRM_MM_INSERT_HIGH then s' \<le> unat s else unat s \<le> s')"
    and r: "drm_mm_insert_node_in_range mm node sz al color rs re mode =
      map_option Inr (mm_place_node mm node sz color h s)"
  have h: "h \<in> mm_hole_set mm" using mm_walk_holes(1) [OF inv, of mode] walk by auto
  note bounds = mm_hole_takes_bounds [OF takes color h]
  obtain mm' where "mm_place_node mm node sz color h s = Some mm'" "mm_inv mm'"
    "mm_blocks mm' = (mm_blocks mm)(node \<mapsto> (s, sz, color))"
    "mm_lo mm' = mm_lo mm" "mm_hi mm' = mm_hi mm" "mm_color_adjust mm' = mm_color_adjust mm"
    using mm_place_node_correct [OF inv node h sz bounds(1,2)] by blast
  with walk h takes as best r show ?thesis
    by (intro disjI2 exI [of _ as] exI [of _ h] exI [of _ bs] exI [of _ s] exI [of _ mm']) simp
qed simp

section \<open>Reserving a given range\<close>

lemma mm_link_blocks:
  assumes "mm_gap mm h us vs" and "mm_node_list mm' = us @ node # vs" and "mm_same_blocks mm mm'"
  shows "mm_blocks mm' = (mm_blocks mm)(node \<mapsto>
      (START mm node, nd_size (mm_nodes mm node), nd_color (mm_nodes mm node)))"
    and "mm_lo mm' = mm_lo mm" "mm_hi mm' = mm_hi mm" "mm_color_adjust mm' = mm_color_adjust mm"
  using assms
  by (auto simp: fun_eq_iff mm_blocks_def mm_gap_def mm_same_blocks_def mm_lo_def mm_hi_def
      drm_mm_hole_node_start_def)

lemma find_hole_unique:
  assumes inv: "mm_inv mm" and k: "k \<in> mm_hole_set mm"
    and "drm_mm_hole_node_start mm k \<le> addr" "addr \<le> drm_mm_hole_node_end mm k"
  shows "find_hole mm addr = Some k"
proof -
  obtain as h bs where w: "rb_inorder (mm_holes_addr mm) = as @ h # bs" "find_hole mm addr = Some h"
    "\<forall>x\<in>set as. drm_mm_hole_node_end mm x < addr" "\<forall>x\<in>set bs. addr < drm_mm_hole_node_start mm x"
    using find_hole_walk [OF inv] k by (metis empty_iff)
  have "k \<in> set (as @ h # bs)"
    using mm_walk_holes(1) [OF inv, of DRM_MM_INSERT_LOW] k w(1) by auto
  then have "k = h" using w(3,4) assms(3,4) by auto
  with w(2) show ?thesis by simp
qed

lemma find_hole_Some:
  assumes "mm_inv mm" and "find_hole mm addr = Some h"
  shows "h \<in> mm_hole_set mm"
proof (cases "mm_hole_set mm = {}")
  case True
  then have "rb_inorder (mm_holes_addr mm) = []"
    using mm_walk_holes(1) [OF assms(1), of DRM_MM_INSERT_LOW] by simp
  then have "mm_holes_addr mm = RB_NULL" by (cases "mm_holes_addr mm") simp_all
  with assms(2) show ?thesis by (simp add: find_hole_def)
next
  case False
  from find_hole_walk [OF assms(1) this, of addr] assms(2)
  have "h \<in> set (rb_inorder (mm_holes_addr mm))" by auto
  then show ?thesis using mm_walk_holes(1) [OF assms(1), of DRM_MM_INSERT_LOW] by simp
qed

text \<open>The hole \<open>h\<close>, narrowed by the callback, contains the range that the node asks for.\<close>

definition mm_hole_holds :: "drm_mm \<Rightarrow> nat \<Rightarrow> nat \<Rightarrow> bool" where
  "mm_hole_holds mm node h =
     (case mm_color_range mm h (nd_color (mm_nodes mm node))
             (drm_mm_hole_node_start mm h, drm_mm_hole_node_end mm h) of
        (cs, ce) \<Rightarrow> cs \<le> START mm node \<and> START mm node + nd_size (mm_nodes mm node) \<le> ce)"

lemma drm_mm_reserve_result:
  assumes inv: "mm_inv mm" and color: "mm_color_ok mm (nd_color (mm_nodes mm node))"
    and node: "node \<notin> set (mm_ring mm)" "\<not> nd_scanned_block (mm_nodes mm node)"
    and nonempty: "START mm node < START mm node + nd_size (mm_nodes mm node)"
  shows "(drm_mm_reserve_node mm node = Some (Inl ENOSPC) \<and>
      (\<forall>h\<in>mm_hole_set mm. \<not> mm_hole_holds mm node h)) \<or>
    (\<exists>h mm'. h \<in> mm_hole_set mm \<and> mm_hole_holds mm node h \<and>
      drm_mm_reserve_node mm node = Some (Inr mm') \<and> mm_inv mm' \<and>
      mm_blocks mm' = (mm_blocks mm)(node \<mapsto>
        (START mm node, nd_size (mm_nodes mm node), nd_color (mm_nodes mm node))) \<and>
      mm_lo mm' = mm_lo mm \<and> mm_hi mm' = mm_hi mm \<and> mm_color_adjust mm' = mm_color_adjust mm)"
proof -
  let ?s = "START mm node" and ?e = "START mm node + nd_size (mm_nodes mm node)"
  have within: "drm_mm_hole_node_start mm h \<le> ?s \<and> ?e \<le> drm_mm_hole_node_end mm h"
    if "h \<in> mm_hole_set mm" "mm_hole_holds mm node h" for h
    using color that by (fastforce simp: mm_color_ok_def mm_hole_holds_def)
  show ?thesis
  proof (cases "\<exists>h\<in>mm_hole_set mm. mm_hole_holds mm node h")
    case True
    then obtain h where h: "h \<in> mm_hole_set mm" "mm_hole_holds mm node h" by blast
    note w = within [OF h]
    have found: "find_hole mm ?s = Some h"
      using find_hole_unique [OF inv h(1)] w nonempty by auto
    obtain us vs where gap: "mm_gap mm h us vs" using mm_gapE [OF mm_hole_ring [OF h(1)]] .
    obtain mm' where mm': "mm_link_node h node (drm_mm_hole_node_start mm h) (drm_mm_hole_node_end mm h)
        ?s ?e mm = Some mm'" "mm_inv mm'" "mm_node_list mm' = us @ node # vs" "mm_same_blocks mm mm'"
      using mm_link_node_correct [OF inv gap node(1) h(1) node(2) _ nonempty] w by blast
    have "drm_mm_reserve_node mm node = Some (Inr mm')"
      using nonempty found h(2) mm'(1) mm_hole_place(2) [OF inv h(1)]
      by (auto simp: drm_mm_reserve_node_def mm_hole_holds_def Let_def split: prod.splits)
    with h mm'(2) mm_link_blocks [OF gap mm'(3,4)] show ?thesis by blast
  next
    case False
    have "drm_mm_reserve_node mm node = Some (Inl ENOSPC)"
    proof (cases "find_hole mm ?s")
      case (Some h)
      then have h: "h \<in> mm_hole_set mm" using find_hole_Some [OF inv] by blast
      with False have "\<not> mm_hole_holds mm node h" by blast
      with Some nonempty mm_hole_place(2) [OF inv h] show ?thesis
        by (auto simp: drm_mm_reserve_node_def mm_hole_holds_def Let_def split: prod.splits)
    qed (use nonempty in \<open>simp add: drm_mm_reserve_node_def Let_def\<close>)
    with False show ?thesis by blast
  qed
qed

lemma mm_hole_holds_free:
  assumes "mm_inv mm" and "mm_color_adjust mm = None"
    and "START mm node < START mm node + nd_size (mm_nodes mm node)"
  shows "(\<exists>h\<in>mm_hole_set mm. mm_hole_holds mm node h) \<longleftrightarrow>
    mm_range_free mm (unat (START mm node)) (unat (START mm node) + unat (nd_size (mm_nodes mm node)))"
proof -
  let ?s = "unat (START mm node)" and ?l = "unat (nd_size (mm_nodes mm node))"
  have e: "unat (START mm node + nd_size (mm_nodes mm node)) = ?s + ?l"
    using unat_plus_nowrap [OF assms(3)] .
  have "?s < ?s + ?l" using assms(3) unfolding word_less_nat_alt e .
  from mm_range_free_hole [OF assms(1) this] show ?thesis
    using assms(2) e by (simp add: mm_hole_holds_def mm_color_range_def word_le_nat_alt)
qed

section \<open>Removal\<close>

lemma drm_mm_remove_blocks:
  assumes inv: "mm_inv mm" and node: "node \<in> set (mm_node_list mm)"
  shows "\<exists>mm'. drm_mm_remove_node node mm = Some mm' \<and> mm_inv mm' \<and>
    mm_blocks mm' = (mm_blocks mm)(node := None) \<and>
    mm_lo mm' = mm_lo mm \<and> mm_hi mm' = mm_hi mm \<and> mm_color_adjust mm' = mm_color_adjust mm \<and>
    mm_node_list mm' = remove1 node (mm_node_list mm)"
proof -
  from node obtain us vs where ns: "mm_node_list mm = us @ node # vs" by (meson split_list)
  have "distinct (mm_node_list mm)" using inv by (simp add: mm_inv_def mm_layout_def mm_list_ok_def)
  with ns have fresh: "node \<notin> set us" "node \<notin> set vs" by auto
  obtain mm' where "drm_mm_remove_node node mm = Some mm'" "mm_inv mm'" "mm_node_list mm' = us @ vs"
    "mm_same_blocks mm mm'"
    using drm_mm_remove_node_correct [OF inv ns] by blast
  with ns fresh show ?thesis
    by (intro exI [of _ mm'])
      (auto simp: fun_eq_iff mm_blocks_def mm_same_blocks_def mm_lo_def mm_hi_def
        drm_mm_hole_node_start_def remove1_append)
qed

end
