(* ===== verification/DrmMM_More.thy ===== *)
theory DrmMM_More
  imports DrmMM_Alloc
begin

text \<open>
  The remaining operations of the range allocator: moving an allocation to another node
  (\<^verbatim>\<open>drm_mm_replace_node\<close>), looking up the first node in an address range, the eviction scan, and
  the guard pages of i915.
\<close>

section \<open>Replacing a node is renaming it\<close>

definition mm_rename :: "nat \<Rightarrow> nat \<Rightarrow> nat \<Rightarrow> nat" where
  "mm_rename old new x = (if x = old then new else x)"

lemma list_replace_rename: "list_replace old new xs = map (mm_rename old new) xs"
  by (simp add: list_replace_def mm_rename_def)

lemma map_rename_fresh: "old \<notin> set xs \<Longrightarrow> map (mm_rename old new) xs = xs"
  by (induction xs) (auto simp: mm_rename_def)

lemma inj_on_rename: "new \<notin> S \<Longrightarrow> inj_on (mm_rename old new) S"
  by (auto simp: inj_on_def mm_rename_def)

lemma map_rb_tree_inorder: "rb_inorder (map_rb_tree f g t) = map f (rb_inorder t)"
  by (induction t) auto

lemma map_rb_tree_plug:
  "map_rb_tree f g (rb_plug t ps) = rb_plug (map_rb_tree f g t) (map (map_rb_frame f g) ps)"
  by (induction t ps rule: rb_plug.induct) auto

lemma map_rb_tree_id: "(\<And>y. y \<in> set (rb_inorder t) \<Longrightarrow> f y = y) \<Longrightarrow> map_rb_tree f (\<lambda>a. a) t = t"
  by (induction t) auto

lemma map_rb_frame_id:
  "(\<And>y. y \<in> set (rb_before ps @ rb_after ps) \<Longrightarrow> f y = y) \<Longrightarrow> map (map_rb_frame f (\<lambda>a. a)) ps = ps"
proof (induction ps)
  case (Cons p ps)
  have ps: "map (map_rb_frame f (\<lambda>a. a)) ps = ps"
    using Cons.prems by (intro Cons.IH, cases p) auto
  have "map_rb_frame f (\<lambda>a. a) p = p"
  proof (cases p)
    case (LeftOf c x a r)
    then have "map_rb_tree f (\<lambda>a. a) r = r" using Cons.prems by (intro map_rb_tree_id) simp
    with LeftOf Cons.prems [of x] show ?thesis by simp
  next
    case (RightOf l c x a)
    then have "map_rb_tree f (\<lambda>a. a) l = l" using Cons.prems by (intro map_rb_tree_id) simp
    with RightOf Cons.prems [of x] show ?thesis by simp
  qed
  with ps show ?case by simp
qed simp

lemma rb_replace_rename:
  assumes "old \<in> set (rb_inorder t)" and "distinct (rb_inorder t)"
  shows "rb_replace_node old new t = map_rb_tree (mm_rename old new) (\<lambda>a. a) t"
proof -
  let ?f = "mm_rename old new"
  from assms(1) obtain l c a r ps where loc: "rb_locate old t [] = Some (RB_Node l c old a r, ps)"
    and t: "t = rb_plug (RB_Node l c old a r) ps"
    by (rule rb_locate_Nil)
  from assms(2) have fresh: "old \<notin> set (rb_inorder l)" "old \<notin> set (rb_inorder r)"
      "old \<notin> set (rb_before ps @ rb_after ps)"
    unfolding t by auto
  have "map_rb_tree ?f (\<lambda>a. a) l = l" "map_rb_tree ?f (\<lambda>a. a) r = r"
    using fresh by (auto simp: mm_rename_def intro!: map_rb_tree_id)
  moreover have "map (map_rb_frame ?f (\<lambda>a. a)) ps = ps"
    using fresh(3) by (intro map_rb_frame_id) (auto simp: mm_rename_def)
  ultimately have "map_rb_tree ?f (\<lambda>a. a) t = rb_plug (RB_Node l c new a r) ps"
    unfolding t map_rb_tree_plug by (simp add: mm_rename_def)
  with loc show ?thesis by (simp add: rb_replace_node_def)
qed

lemma it_max_map: "(\<And>y. y \<in> set xs \<Longrightarrow> la' (f y) = la y) \<Longrightarrow> it_max la' (map f xs) = it_max la xs"
  unfolding it_max_def by (metis (no_types, lifting) image_cong image_image list.set_map)

lemma rb_aug_ok_rename:
  "rb_aug_ok (it_max la) t \<Longrightarrow> (\<And>y. y \<in> set (rb_inorder t) \<Longrightarrow> la' (f y) = la y) \<Longrightarrow>
   rb_aug_ok (it_max la') (map_rb_tree f (\<lambda>a. a) t)"
proof (induction t)
  case (RB_Node l c x a r)
  let ?xs = "rb_inorder l @ x # rb_inorder r"
  have "it_max la' (map f ?xs) = it_max la ?xs"
    using RB_Node.prems(2) by (intro it_max_map) simp
  moreover have "rb_aug_ok (it_max la') (map_rb_tree f (\<lambda>a. a) l)" "rb_aug_ok (it_max la') (map_rb_tree f (\<lambda>a. a) r)"
    using RB_Node by simp_all
  ultimately show ?case using RB_Node.prems(1) by (simp add: map_rb_tree_inorder)
qed simp

lemma it_inv_rename:
  assumes inv: "it_inv st la root" and old: "old \<in> set (it_list root)" and new: "new \<notin> set (it_list root)"
    and st: "\<And>x. x \<in> set (it_list root) \<Longrightarrow> st' (mm_rename old new x) = st x \<and> la' (mm_rename old new x) = la x"
  shows "it_inv st' la' (rb_replace_node_cached old new root)"
    and "it_list (rb_replace_node_cached old new root) = map (mm_rename old new) (it_list root)"
proof -
  let ?t = "rb_root root" and ?f = "mm_rename old new"
  from inv have t: "rb_inv ?t" "rb_aug_ok (it_max la) ?t" "rb_leftmost root = rb_first ?t"
    "sorted (map st (rb_inorder ?t))" "distinct (rb_inorder ?t)" by (auto simp: it_inv_def)
  have eq: "rb_replace_node old new ?t = map_rb_tree ?f (\<lambda>a. a) ?t" by (rule rb_replace_rename [OF old t(5)])
  show list: "it_list (rb_replace_node_cached old new root) = map ?f (it_list root)"
    by (simp add: rb_replace_node_cached_def eq map_rb_tree_inorder)
  have "map st' (map ?f (rb_inorder ?t)) = map st (rb_inorder ?t)" using st by simp
  then have "sorted (map st' (map ?f (rb_inorder ?t)))" using t(4) by (simp only:)
  moreover have "distinct (map ?f (rb_inorder ?t))"
    using t(5) inj_on_rename [OF new] by (simp add: distinct_map)
  moreover have "rb_aug_ok (it_max la') (map_rb_tree ?f (\<lambda>a. a) ?t)"
    using t(2) st by (intro rb_aug_ok_rename) auto
  moreover have "rb_inv (rb_replace_node old new ?t)" by (rule rb_replace_node_inv [OF t(1)])
  moreover have "(if rb_first ?t = Some old then Some new else rb_first ?t) = rb_first (map_rb_tree ?f (\<lambda>a. a) ?t)"
    by (auto simp: rb_first_inorder map_rb_tree_inorder mm_rename_def split: list.splits)
  ultimately show "it_inv st' la' (rb_replace_node_cached old new root)"
    using t(3) eq by (auto simp: it_inv_def rb_replace_node_cached_def map_rb_tree_inorder split: if_splits)
qed

lemma hole_index_rename:
  assumes ix: "hole_index key t S" and old: "old \<in> S" and new: "new \<notin> S"
    and key: "\<And>x. x \<in> S \<Longrightarrow> key' (mm_rename old new x) = key x"
  shows "hole_index key' (rb_replace_node old new t) (mm_rename old new ` S)"
proof -
  let ?f = "mm_rename old new"
  from ix have t: "rb_inv t" "distinct (rb_inorder t)" "set (rb_inorder t) = S"
    "sorted (map key (rb_inorder t))" by (auto simp: hole_index_def)
  have eq: "rb_replace_node old new t = map_rb_tree ?f (\<lambda>a. a) t"
    using old t by (intro rb_replace_rename) auto
  have "map key' (map ?f (rb_inorder t)) = map key (rb_inorder t)" using key t(3) by simp
  then have "sorted (map key' (map ?f (rb_inorder t)))" using t(4) by (simp only:)
  moreover have "distinct (map ?f (rb_inorder t))"
    using t(2,3) inj_on_rename [OF new] by (simp add: distinct_map)
  moreover have "rb_inv (rb_replace_node old new t)" by (rule rb_replace_node_inv [OF t(1)])
  ultimately show ?thesis using t(3) eq by (simp add: hole_index_def map_rb_tree_inorder)
qed

lemma next_in_map:
  "inj_on f (insert n (set xs)) \<Longrightarrow> next_in (map f xs) (f n) (f d) = f (next_in xs n d)"
proof (induction xs)
  case (Cons x xs)
  have "f x = f n \<longleftrightarrow> x = n" using Cons.prems by (auto simp: inj_on_def)
  moreover have "next_in (map f xs) (f n) (f d) = f (next_in xs n d)"
    using Cons by (auto simp: inj_on_def)
  ultimately show ?case by (cases xs) auto
qed simp

lemma mm_chain_map:
  "(\<And>n. n \<in> set ns \<Longrightarrow> nd_start (M (f n)) = nd_start (N n) \<and> nd_size (M (f n)) = nd_size (N n)) \<Longrightarrow>
   mm_chain M p (map f ns) e = mm_chain N p ns e"
  by (induction ns arbitrary: p) auto

text \<open>The state after \<^verbatim>\<open>drm_mm_replace_node\<close>, field by field.\<close>

lemma drm_mm_replace_fields:
  fixes mm :: drm_mm and old new :: nat
  defines "mm' \<equiv> drm_mm_replace_node old new mm"
  assumes "old \<noteq> new"
  shows "mm_node_list mm' = map (mm_rename old new) (mm_node_list mm)"
    and "mm_interval_tree mm' = rb_replace_node_cached old new (mm_interval_tree mm)"
    and "mm_hole_stack mm' = (if drm_mm_hole_follows mm old
      then map (mm_rename old new) (mm_hole_stack mm) else mm_hole_stack mm)"
    and "mm_holes_size mm' = (if drm_mm_hole_follows mm old
      then rb_replace_node old new (mm_holes_size mm) else mm_holes_size mm)"
    and "mm_holes_addr mm' = (if drm_mm_hole_follows mm old
      then rb_replace_node old new (mm_holes_addr mm) else mm_holes_addr mm)"
    and "mm_nodes mm' = (mm_nodes mm)(new := (mm_nodes mm old)\<lparr>nd_allocated := True\<rparr>,
      old := (mm_nodes mm old)\<lparr>nd_allocated := False\<rparr>)"
    and "mm_color_adjust mm' = mm_color_adjust mm" "mm_scan_active mm' = mm_scan_active mm"
  using assms(2)
  by (auto simp: mm'_def drm_mm_replace_node_def Let_def drm_mm_hole_follows_def
      list_replace_rename mm_set_def fun_eq_iff)

theorem drm_mm_replace_correct:
  fixes mm :: drm_mm and old new :: nat
  defines "mm' \<equiv> drm_mm_replace_node old new mm"
  assumes inv: "mm_inv mm" and old: "old \<in> set (mm_node_list mm)" and new: "new \<notin> set (mm_ring mm)"
  shows "mm_inv mm'" and "mm_node_list mm' = map (mm_rename old new) (mm_node_list mm)"
    and "mm_blocks mm' = (mm_blocks mm)(old := None, new := mm_blocks mm old)"
    and "mm_lo mm' = mm_lo mm" "mm_hi mm' = mm_hi mm" "mm_color_adjust mm' = mm_color_adjust mm"
proof -
  let ?f = "mm_rename old new"
  have on: "old \<noteq> new" using old new by auto
  note F = drm_mm_replace_fields [OF on, of mm, folded mm'_def]
  from inv have lay: "mm_layout mm" and H: "mm_holes_ok mm (mm_hole_set mm)" by (auto simp: mm_inv_def)
  then have dist: "distinct (mm_ring mm)" and alloc: "\<And>n. nd_allocated (mm_nodes mm n) \<longleftrightarrow> n \<in> set (mm_node_list mm)"
    and chain: "mm_chain (mm_nodes mm) (mm_lo mm) (mm_node_list mm) (mm_hi mm)"
    and it: "it_inv (START mm) (LAST mm) (mm_interval_tree mm)" "it_list (mm_interval_tree mm) = mm_node_list mm"
    by (auto simp: mm_layout_def mm_list_ok_def)
  have oh: "old \<noteq> HEAD" using old dist by auto
  have inj: "inj_on ?f (set (mm_ring mm))" by (rule inj_on_rename [OF new])
  have node: "mm_nodes mm' (?f x) = mm_nodes mm x" if "x \<in> set (mm_ring mm)" for x
    using that new old alloc [of old] on by (auto simp: F(6) mm_rename_def)
  have ring: "mm_ring mm' = map ?f (mm_ring mm)" using oh by (simp add: F(1) mm_rename_def)
  have nxt: "mm_list_next mm' (?f x) = ?f (mm_list_next mm x)" if "x \<in> set (mm_ring mm)" for x
  proof -
    have "inj_on ?f (insert x (set (mm_ring mm)))" using inj that by (simp add: insert_absorb)
    from next_in_map [OF this, of HEAD] have "next_in (mm_ring mm') (?f x) (?f HEAD) = ?f (mm_list_next mm x)"
      unfolding ring mm_list_next_def by simp
    then show ?thesis using oh by (simp add: mm_list_next_def mm_rename_def)
  qed
  have hs: "drm_mm_hole_node_start mm' (?f x) = drm_mm_hole_node_start mm x"
    and he: "drm_mm_hole_node_end mm' (?f x) = drm_mm_hole_node_end mm x" if "x \<in> set (mm_ring mm)" for x
    using that node [OF that] nxt [OF that] node [OF mm_list_next_ring [of mm x]]
    by (simp_all add: drm_mm_hole_node_start_def drm_mm_hole_node_end_def)
  show "mm_node_list mm' = map ?f (mm_node_list mm)" "mm_color_adjust mm' = mm_color_adjust mm"
    by (fact F(1), fact F(7))
  show lo: "mm_lo mm' = mm_lo mm" and hi: "mm_hi mm' = mm_hi mm"
    using hs [of HEAD] node [of HEAD] oh by (simp_all add: mm_lo_def mm_hi_def mm_rename_def)
  show "mm_blocks mm' = (mm_blocks mm)(old := None, new := mm_blocks mm old)"
    using old new on by (auto simp: fun_eq_iff mm_blocks_def F(1) F(6) mm_rename_def)
  have "mm_layout mm'"
  proof -
    have st: "START mm' (?f x) = START mm x \<and> LAST mm' (?f x) = LAST mm x"
      if "x \<in> set (it_list (mm_interval_tree mm))" for x
      using that node [of x] it(2) by (simp add: LAST_def)
    have "it_inv (START mm') (LAST mm') (rb_replace_node_cached old new (mm_interval_tree mm))"
      "it_list (rb_replace_node_cached old new (mm_interval_tree mm)) = map ?f (mm_node_list mm)"
      using it_inv_rename [OF it(1) _ _ st] old new it(2) by simp_all
    moreover have "mm_chain (mm_nodes mm') (mm_lo mm) (map ?f (mm_node_list mm)) (mm_hi mm)"
      using chain node by (subst mm_chain_map) auto
    moreover have "nd_allocated (mm_nodes mm' n) \<longleftrightarrow> n \<in> set (map ?f (mm_node_list mm))" for n
      using alloc [of n] old new on by (auto simp: F(6) mm_rename_def)
    moreover have "mm_list_ok mm'"
      unfolding mm_list_ok_def ring distinct_map using dist inj by blast
    ultimately show ?thesis by (simp add: mm_layout_def F(1,2) lo hi)
  qed
  moreover have "mm_holes_ok mm' (mm_hole_set mm')"
  proof -
    have keys: "HOLE_SIZE mm' (?f x) = HOLE_SIZE mm x" "HOLE_ADDR mm' (?f x) = HOLE_ADDR mm x"
      if "x \<in> mm_hole_set mm" for x
      using mm_hole_ring [OF that] node hs by simp_all
    have S: "mm_hole_set mm' = ?f ` mm_hole_set mm"
      unfolding mm_hole_set_def ring set_map using node by (auto simp: drm_mm_hole_follows_def)
    have newS: "new \<notin> mm_hole_set mm" using new mm_hole_ring by blast
    show ?thesis
    proof (cases "drm_mm_hole_follows mm old")
      case True
      then have "old \<in> mm_hole_set mm" using old by (simp add: mm_hole_set_def)
      from hole_index_rename [OF _ this newS] H keys True newS show ?thesis
        unfolding mm_holes_ok_def S F(3-5)
        by (auto simp: distinct_map inj_on_rename)
    next
      case False
      then have "?f x = x" if "x \<in> mm_hole_set mm" for x
        using that by (auto simp: mm_hole_set_def mm_rename_def)
      moreover from this have "mm_hole_set mm' = mm_hole_set mm" unfolding S by force
      ultimately show ?thesis
        using H keys False by (auto intro!: mm_holes_ok_cong [OF H] simp: F(3-5))
    qed
  qed
  moreover have "mm_gaps_ok mm' n" "n \<in> set (mm_node_list mm') \<Longrightarrow> \<not> nd_scanned_block (mm_nodes mm' n)"
    if n: "n \<in> set (mm_ring mm')" for n
  proof -
    from n obtain x where x: "x \<in> set (mm_ring mm)" "n = ?f x" unfolding ring by auto
    have "mm_gaps_ok mm x" using inv x(1) by (auto simp: mm_inv_def)
    then show "mm_gaps_ok mm' n" using node hs he x by (simp add: mm_gaps_ok_def)
    assume "n \<in> set (mm_node_list mm')"
    then obtain y where y: "y \<in> set (mm_node_list mm)" "n = ?f y" unfolding F(1) by auto
    then show "\<not> nd_scanned_block (mm_nodes mm' n)"
      using inv node [of y] by (simp add: mm_inv_def)
  qed
  ultimately show "mm_inv mm'" using inv F(8) by (auto simp: mm_inv_def)
qed

section \<open>Looking up an address range\<close>

lemma drm_mm_interval_first_find:
  assumes "mm_inv mm"
  shows "drm_mm_interval_first mm start lst =
    (case find (\<lambda>n. START mm n \<le> lst \<and> start \<le> LAST mm n) (mm_node_list mm) of
       Some n \<Rightarrow> n | None \<Rightarrow> HEAD)"
proof -
  have "it_hits (START mm) (LAST mm) start lst = (\<lambda>n. START mm n \<le> lst \<and> start \<le> LAST mm n)"
    by (simp add: fun_eq_iff it_hits_def)
  with assms show ?thesis
    using it_iter_first_correct [of "START mm" "LAST mm" "mm_interval_tree mm" start lst]
    by (simp add: drm_mm_interval_first_def mm_inv_def mm_layout_def)
qed

section \<open>The eviction scan\<close>

text \<open>
  Adding blocks in some order and removing them in the reverse order gives back the allocator,
  but for the stale links \<open>nd_prev\<close>, \<open>nd_next\<close> of the scanned nodes \<open>X\<close>.
\<close>

definition mm_scan_eq :: "nat set \<Rightarrow> drm_mm \<Rightarrow> drm_mm \<Rightarrow> bool" where
  "mm_scan_eq X a b \<longleftrightarrow> mm_color_adjust b = mm_color_adjust a \<and> mm_hole_stack b = mm_hole_stack a \<and>
     mm_node_list b = mm_node_list a \<and> mm_interval_tree b = mm_interval_tree a \<and>
     mm_holes_size b = mm_holes_size a \<and> mm_holes_addr b = mm_holes_addr a \<and>
     mm_scan_active b = mm_scan_active a \<and> (\<forall>k. k \<notin> X \<longrightarrow> mm_nodes b k = mm_nodes a k) \<and>
     (\<forall>k\<in>X. \<exists>p q. mm_nodes b k = (mm_nodes a k)\<lparr>nd_prev := p, nd_next := q\<rparr>)"

definition drm_mm_scan_add_blocks :: "nat list \<Rightarrow> drm_mm_scan \<Rightarrow> drm_mm \<Rightarrow> drm_mm_scan \<times> drm_mm" where
  "drm_mm_scan_add_blocks ns scan mm =
     fold (\<lambda>n (scan, mm). snd (drm_mm_scan_add_block n scan mm)) ns (scan, mm)"

definition drm_mm_scan_remove_blocks :: "nat list \<Rightarrow> drm_mm_scan \<Rightarrow> drm_mm \<Rightarrow> drm_mm" where
  "drm_mm_scan_remove_blocks ns scan mm = fold (\<lambda>n mm. snd (drm_mm_scan_remove_block n scan mm)) ns mm"

definition mm_scan_unlink :: "nat \<Rightarrow> drm_mm \<Rightarrow> drm_mm" where
  "mm_scan_unlink node mm =
     mm_set node (\<lambda>nd. nd\<lparr>nd_scanned_block := True, nd_prev := mm_list_prev mm node,
                       nd_next := mm_list_next mm node\<rparr>)
       (mm\<lparr>mm_scan_active := mm_scan_active mm + 1, mm_node_list := remove1 node (mm_node_list mm)\<rparr>)"

lemma drm_mm_scan_add_block_unlink: "snd (snd (drm_mm_scan_add_block node scan mm)) = mm_scan_unlink node mm"
  by (simp add: drm_mm_scan_add_block_def mm_scan_unlink_def Let_def split: prod.splits option.splits)

lemma drm_mm_scan_add_blocks_unlink:
  "snd (drm_mm_scan_add_blocks ns scan mm) = fold mm_scan_unlink ns mm"
proof -
  have "snd (fold (\<lambda>n (scan, mm). snd (drm_mm_scan_add_block n scan mm)) ns sm) =
      fold mm_scan_unlink ns (snd sm)" for sm
    by (induction ns arbitrary: sm) (auto simp: drm_mm_scan_add_block_unlink split_beta)
  then show ?thesis by (simp add: drm_mm_scan_add_blocks_def)
qed

lemma mm_scan_unlink_relink:
  assumes dist: "distinct (mm_ring mm)" and node: "node \<in> set (mm_node_list mm)" "node \<notin> X"
    and scan: "\<not> nd_scanned_block (mm_nodes mm node)" and eq: "mm_scan_eq X (mm_scan_unlink node mm) c"
  shows "mm_scan_eq (insert node X) mm (snd (drm_mm_scan_remove_block node sc c))"
proof -
  from node(1) obtain us vs where ns: "mm_node_list mm = us @ node # vs" by (meson split_list)
  with dist have fresh: "node \<notin> set us" by auto
  let ?b = "mm_scan_unlink node mm" and ?d = "snd (drm_mm_scan_remove_block node sc c)"
  have prev: "mm_list_prev mm node = last (HEAD # us)"
    using mm_list_prev_split [OF ns] dist by (simp add: mm_list_ok_def)
  have cn: "mm_nodes c node = mm_nodes ?b node" using eq node(2) by (simp add: mm_scan_eq_def)
  have list: "mm_node_list c = us @ vs"
    using eq by (simp add: mm_scan_eq_def mm_scan_unlink_def ns fresh remove1_append)
  then have gap: "mm_gap c (last (HEAD # us)) us vs" by (simp add: mm_gap_def)
  define c1 where "c1 = mm_set node (\<lambda>nd. nd\<lparr>nd_scanned_block := False\<rparr>)
      (c\<lparr>mm_scan_active := mm_scan_active c - 1\<rparr>)"
  have "mm_gap c1 (last (HEAD # us)) us vs" "mm_list_ok c1"
    using gap dist list by (auto simp: mm_gap_def c1_def mm_list_ok_def ns)
  from mm_node_list_add [OF this, of node]
  have relist: "mm_node_list (mm_list_add node (last (HEAD # us)) c1) = mm_node_list mm" by (simp add: ns)
  have "nd_prev (mm_nodes c1 node) = last (HEAD # us)"
    using cn prev by (simp add: c1_def mm_scan_unlink_def)
  then have d: "?d = mm_list_add node (last (HEAD # us)) c1"
    by (simp add: drm_mm_scan_remove_block_def c1_def Let_def)
  have "\<exists>p q. mm_nodes ?d k = (mm_nodes mm k)\<lparr>nd_prev := p, nd_next := q\<rparr>" if "k \<in> insert node X" for k
  proof (cases "k = node")
    case True
    have "mm_nodes ?d node = (mm_nodes mm node)\<lparr>nd_prev := mm_list_prev mm node, nd_next := mm_list_next mm node\<rparr>"
      using cn scan unfolding d by (simp add: c1_def mm_scan_unlink_def)
    then show ?thesis using True by blast
  next
    case False
    with that eq have "\<exists>p q. mm_nodes c k = (mm_nodes ?b k)\<lparr>nd_prev := p, nd_next := q\<rparr>"
      by (simp add: mm_scan_eq_def)
    with False show ?thesis unfolding d by (simp add: c1_def mm_scan_unlink_def)
  qed
  moreover have "mm_nodes ?d k = mm_nodes mm k" if "k \<notin> insert node X" for k
    using that eq unfolding d by (simp add: c1_def mm_scan_unlink_def mm_scan_eq_def)
  ultimately show ?thesis
    using relist eq unfolding d mm_scan_eq_def by (simp add: c1_def mm_scan_unlink_def)
qed

lemma mm_scan_unlink_fields:
  "mm_node_list (mm_scan_unlink n mm) = remove1 n (mm_node_list mm)"
  "k \<noteq> n \<Longrightarrow> mm_nodes (mm_scan_unlink n mm) k = mm_nodes mm k"
  by (simp_all add: mm_scan_unlink_def)

lemma mm_scan_roundtrip:
  assumes "distinct (mm_ring mm)" and "distinct ns" and "set ns \<subseteq> set (mm_node_list mm)"
    and "\<forall>n\<in>set ns. \<not> nd_scanned_block (mm_nodes mm n)"
  shows "mm_scan_eq (set ns) mm (drm_mm_scan_remove_blocks (rev ns) sc (fold mm_scan_unlink ns mm))"
  using assms
proof (induction ns arbitrary: mm)
  case Nil
  then show ?case by (simp add: mm_scan_eq_def drm_mm_scan_remove_blocks_def)
next
  case (Cons n ns)
  let ?b = "mm_scan_unlink n mm"
  have "mm_scan_eq (set ns) ?b (drm_mm_scan_remove_blocks (rev ns) sc (fold mm_scan_unlink ns ?b))"
  proof (rule Cons.IH)
    show "distinct (mm_ring ?b)" using Cons.prems(1) set_remove1_subset [of n "mm_node_list mm"]
      by (auto simp: mm_scan_unlink_fields)
    show "set ns \<subseteq> set (mm_node_list ?b)" using Cons.prems by (auto simp: mm_scan_unlink_fields in_set_remove1)
    show "\<forall>k\<in>set ns. \<not> nd_scanned_block (mm_nodes ?b k)"
    proof
      fix k assume "k \<in> set ns"
      then have "k \<noteq> n" using Cons.prems(2) by auto
      with \<open>k \<in> set ns\<close> Cons.prems(4) show "\<not> nd_scanned_block (mm_nodes ?b k)"
        by (simp add: mm_scan_unlink_fields)
    qed
  qed (use Cons.prems in simp)
  from mm_scan_unlink_relink [OF Cons.prems(1) _ _ _ this, of sc] Cons.prems show ?case
    by (simp add: drm_mm_scan_remove_blocks_def)
qed

text \<open>
  A scan keeps the unlinked nodes disjoint and ordered; a hit is free of the nodes that are still
  linked, so every node in the way of the hit is one of the scanned ones.
\<close>

definition mm_scan_ok :: "drm_mm \<Rightarrow> bool" where
  "mm_scan_ok mm \<longleftrightarrow> mm_list_ok mm \<and>
     mm_chain (mm_nodes mm) (mm_lo mm) (mm_node_list mm) (mm_hi mm)"

lemma mm_scan_unlink_ok:
  assumes ok: "mm_scan_ok mm" and node: "node \<in> set (mm_node_list mm)"
  shows "mm_scan_ok (mm_scan_unlink node mm)"
    and "\<exists>us vs. mm_node_list mm = us @ node # vs \<and>
      mm_gap (mm_scan_unlink node mm) (mm_list_prev mm node) us vs"
proof -
  let ?mm = "mm_scan_unlink node mm"
  from node obtain us vs where ns: "mm_node_list mm = us @ node # vs" by (meson split_list)
  have dist: "distinct (HEAD # us @ node # vs)" using ok ns by (simp add: mm_scan_ok_def mm_list_ok_def)
  then have list: "mm_node_list ?mm = us @ vs" by (simp add: mm_scan_unlink_fields ns remove1_append)
  have same: "nd_start (mm_nodes ?mm k) = nd_start (mm_nodes mm k) \<and> nd_size (mm_nodes ?mm k) = nd_size (mm_nodes mm k)" for k
    by (simp add: mm_scan_unlink_def)
  then have lohi: "mm_lo ?mm = mm_lo mm" "mm_hi ?mm = mm_hi mm"
    by (simp_all add: mm_lo_def mm_hi_def drm_mm_hole_node_start_def)
  have "mm_chain (mm_nodes mm) (mm_lo mm) (us @ node # vs) (mm_hi mm)"
    using ok ns by (simp add: mm_scan_ok_def)
  then have c: "mm_chain (mm_nodes mm) (mm_lo mm) us (nd_start (mm_nodes mm node))"
    "nd_start (mm_nodes mm node) < nd_start (mm_nodes mm node) + nd_size (mm_nodes mm node)"
    "mm_chain (mm_nodes mm) (nd_start (mm_nodes mm node) + nd_size (mm_nodes mm node)) vs (mm_hi mm)"
    by (simp_all add: mm_chain_middle)
  from c(1) have "mm_chain_end (mm_nodes mm) (mm_lo mm) us \<le> nd_start (mm_nodes mm node)"
    and "mm_chain (mm_nodes mm) (mm_lo mm) us (mm_chain_end (mm_nodes mm) (mm_lo mm) us)"
    using mm_chain_append [of "mm_nodes mm" "mm_lo mm" us "[]" "nd_start (mm_nodes mm node)"] by simp_all
  with c(2,3) have "mm_chain (mm_nodes mm) (mm_lo mm) (us @ vs) (mm_hi mm)"
    unfolding mm_chain_append by (auto intro: mm_chain_prefix order_trans less_imp_le)
  then show "mm_scan_ok ?mm"
    using dist list lohi same mm_chain_cong [of "us @ vs" "mm_nodes ?mm" "mm_nodes mm"]
    by (simp add: mm_scan_ok_def mm_list_ok_def)
  have "mm_list_prev mm node = last (HEAD # us)"
    using mm_list_prev_split [OF ns] ok by (simp add: mm_scan_ok_def)
  with list ns show "\<exists>us vs. mm_node_list mm = us @ node # vs \<and> mm_gap ?mm (mm_list_prev mm node) us vs"
    by (auto simp: mm_gap_def)
qed

lemma drm_mm_scan_hit_free:
  assumes ok: "mm_scan_ok mm" and node: "node \<in> set (mm_node_list mm)" and none: "mm_color_adjust mm = None"
    and sz: "sc_size scan \<noteq> 0" and mask: "sc_remainder_mask scan = mm_remainder_mask (sc_alignment scan)"
    and hit: "drm_mm_scan_add_block node scan mm = (True, scan', mm')"
  shows "mm_range_free mm' (unat (sc_hit_start scan')) (unat (sc_hit_start scan') + unat (sc_size scan)) \<and>
    unat (sc_range_start scan) \<le> unat (sc_hit_start scan') \<and>
    unat (sc_hit_end scan') = unat (sc_hit_start scan') + unat (sc_size scan) \<and>
    unat (sc_hit_end scan') \<le> unat (sc_range_end scan) \<and>
    (sc_alignment scan \<noteq> 0 \<longrightarrow> unat (sc_alignment scan) dvd unat (sc_hit_start scan'))"
proof -
  let ?h = "mm_list_prev mm node"
  have mm': "mm' = mm_scan_unlink node mm"
    using drm_mm_scan_add_block_unlink [of node scan mm] hit by simp
  obtain us vs where gap: "mm_gap mm' ?h us vs" using mm_scan_unlink_ok(2) [OF ok node] mm' by blast
  let ?hs = "drm_mm_hole_node_start mm' ?h" and ?he = "drm_mm_hole_node_end mm' ?h"
  let ?rs = "sc_range_start scan" and ?re = "sc_range_end scan"
  have color: "mm_color_range mm' ?h (sc_color scan) (?hs, ?he) = (?hs, ?he)"
    using none by (simp add: mm_color_range_def mm' mm_scan_unlink_def)
  let ?fit = "mm_fit (sc_mode scan) (sc_size scan) (sc_alignment scan) (mm_remainder_mask (sc_alignment scan)) ?rs ?re ?hs ?he"
  obtain s where s: "?fit = Some s"
    and scan': "scan' = scan\<lparr>sc_hit_start := s, sc_hit_end := s + sc_size scan\<rparr>"
    using hit color mask
    unfolding drm_mm_scan_add_block_def Let_def mm_scan_unlink_def [symmetric] mm' [symmetric]
    by (auto split: option.splits)
  have placed: "mm_placed (unat (max ?hs ?rs)) (unat (min ?he ?re)) (unat (sc_alignment scan)) (unat (sc_size scan)) (unat s)"
    using mm_fit_exact [OF sz, where mode = "sc_mode scan" and al = "sc_alignment scan"
        and rs = ?rs and re = ?re and cs = ?hs and ce = ?he] s by simp
  have p: "unat ?hs \<le> unat s" "unat ?rs \<le> unat s" "unat s + unat (sc_size scan) \<le> unat ?he"
    "unat s + unat (sc_size scan) \<le> unat ?re"
    using placed by (auto simp: mm_placed_def max_def min_def word_le_nat_alt split: if_splits)
  have "unat s + unat (sc_size scan) < 2 ^ 64"
    using p(3) unat_64_less [of ?he] by simp
  then have sum: "unat (s + sc_size scan) = unat s + unat (sc_size scan)" by (simp add: unat_word_ariths)
  have "mm_range_free mm' (unat s) (unat s + unat (sc_size scan))"
    using mm_scan_unlink_ok(1) [OF ok node] gap p(1,3) unfolding mm' [symmetric]
    by (auto simp: mm_scan_ok_def intro: mm_gap_free)
  with p sum scan' placed show ?thesis by (auto simp: mm_placed_def unat_eq_0)
qed

section \<open>The guard pages of i915\<close>

text \<open>Where every block and every hole is made of whole pages, the callback of i915 only narrows holes.\<close>

lemma i915_color_adjust_ok:
  assumes inv: "mm_inv mm" and adj: "mm_color_adjust mm = Some i915_gtt_color_adjust"
    and page: "\<And>h. h \<in> mm_hole_set mm \<Longrightarrow>
      unat (drm_mm_hole_node_start mm h) + 4096 \<le> unat (drm_mm_hole_node_end mm h)"
  shows "mm_color_ok mm color"
  unfolding mm_color_ok_def
proof
  fix h assume h: "h \<in> mm_hole_set mm"
  let ?hs = "drm_mm_hole_node_start mm h" and ?he = "drm_mm_hole_node_end mm h"
  have "unat (?hs + 4096) = unat ?hs + 4096"
    using page [OF h] unat_64_less [of ?he] by (simp add: unat_word_ariths)
  moreover have "unat (?he - 4096) = unat ?he - 4096"
    using page [OF h] by (simp add: unat_sub word_le_nat_alt)
  ultimately show "case mm_color_range mm h color (?hs, ?he) of (cs, ce) \<Rightarrow> ?hs \<le> cs \<and> ce \<le> ?he"
    using adj by (simp add: mm_color_range_def i915_gtt_color_adjust_def I915_GTT_PAGE_SIZE_def word_le_nat_alt)
qed

end
