(* ===== verification/DrmMM_Correct.thy ===== *)
theory DrmMM_Correct
  imports DrmMM_More
begin

text \<open>
  What the range allocator of \<^verbatim>\<open>drm_mm.c\<close> promises to its callers, over the abstract view of an
  allocator: the map \<open>mm_blocks\<close> of allocated blocks and the predicate \<open>mm_range_free\<close>. The
  operations are total on every state that can be reached from \<^verbatim>\<open>drm_mm_init\<close>.
\<close>

section \<open>Where a request may go\<close>

definition mm_candidate :: "drm_mm \<Rightarrow> u64 \<Rightarrow> u64 \<Rightarrow> u64 \<Rightarrow> u64 \<Rightarrow> nat \<Rightarrow> bool" where
  "mm_candidate mm sz al rs re s \<longleftrightarrow> mm_range_free mm s (s + unat sz) \<and>
     unat rs \<le> s \<and> s + unat sz \<le> unat re \<and> (al \<noteq> 0 \<longrightarrow> unat al dvd s)"

lemma mm_candidate_hole:
  assumes "mm_inv mm" and "mm_color_adjust mm = None" and "sz \<noteq> 0"
  shows "mm_candidate mm sz al rs re s \<longleftrightarrow>
    (\<exists>h\<in>mm_hole_set mm. mm_hole_takes mm sz (mm_alignment al) color rs re h s)"
  using mm_hole_takes_free [OF assms] by (simp add: mm_candidate_def)

lemma mm_walk_low_high:
  assumes inv: "mm_inv mm" and walk: "mm_walk mode mm = as @ h # bs" and k: "k \<in> set bs"
  shows "mode = DRM_MM_INSERT_LOW \<Longrightarrow> drm_mm_hole_node_end mm h < drm_mm_hole_node_start mm k"
    and "mode = DRM_MM_INSERT_HIGH \<Longrightarrow> drm_mm_hole_node_end mm k < drm_mm_hole_node_start mm h"
proof -
  have sorted: "sorted_wrt (\<lambda>h k. drm_mm_hole_node_end mm h < drm_mm_hole_node_start mm k)
      (rb_inorder (mm_holes_addr mm))"
    using mm_holes_addr_sorted [OF inv] by (simp add: mm_holes_apart_on_def)
  show "drm_mm_hole_node_end mm h < drm_mm_hole_node_start mm k" if "mode = DRM_MM_INSERT_LOW"
    using sorted walk k that by (auto simp: sorted_wrt_append)
  show "drm_mm_hole_node_end mm k < drm_mm_hole_node_start mm h" if "mode = DRM_MM_INSERT_HIGH"
  proof -
    from walk that have "rb_inorder (mm_holes_addr mm) = rev bs @ h # rev as" by (simp add: rev_swap)
    with sorted k show ?thesis by (auto simp: sorted_wrt_append)
  qed
qed

text \<open>The outcome of an insertion without a callback, with the choice that the mode makes.\<close>

lemma drm_mm_insert_candidate:
  assumes inv: "mm_inv mm" and none: "mm_color_adjust mm = None" and sz: "sz \<noteq> 0" and range: "rs \<le> re"
    and node: "node \<notin> set (mm_ring mm)" "\<not> nd_scanned_block (mm_nodes mm node)"
  shows "(drm_mm_insert_node_in_range mm node sz al color rs re mode = Some (Inl ENOSPC) \<and>
      \<not> (\<exists>s. mm_candidate mm sz al rs re s)) \<or>
    (\<exists>s mm'. drm_mm_insert_node_in_range mm node sz al color rs re mode = Some (Inr mm') \<and>
      mm_candidate mm sz al rs re (unat s) \<and> mm_inv mm' \<and>
      mm_blocks mm' = (mm_blocks mm)(node \<mapsto> (s, sz, color)) \<and>
      mm_lo mm' = mm_lo mm \<and> mm_hi mm' = mm_hi mm \<and> mm_color_adjust mm' = None \<and>
      (\<forall>s'. mm_candidate mm sz al rs re s' \<longrightarrow>
        (mode = DRM_MM_INSERT_LOW \<longrightarrow> unat s \<le> s') \<and> (mode = DRM_MM_INSERT_HIGH \<longrightarrow> s' \<le> unat s)))"
proof -
  note cand = mm_candidate_hole [OF inv none sz, of al rs re _ color]
  have color: "mm_color_ok mm color" using none by (rule mm_color_ok_None)
  consider (fail) "drm_mm_insert_node_in_range mm node sz al color rs re mode = Some (Inl ENOSPC)"
      "\<forall>h\<in>mm_hole_set mm. \<forall>s. \<not> mm_hole_takes mm sz (mm_alignment al) color rs re h s"
    | (ok) as h bs s mm' where "mm_walk mode mm = as @ h # bs" "h \<in> mm_hole_set mm"
      "mm_hole_takes mm sz (mm_alignment al) color rs re h (unat s)"
      "\<forall>k\<in>set as. \<forall>s. \<not> mm_hole_takes mm sz (mm_alignment al) color rs re k s"
      "\<forall>s'. mm_hole_takes mm sz (mm_alignment al) color rs re h s' \<longrightarrow>
         (if mode = DRM_MM_INSERT_HIGH then s' \<le> unat s else unat s \<le> s')"
      "drm_mm_insert_node_in_range mm node sz al color rs re mode = Some (Inr mm')"
      "mm_inv mm'" "mm_blocks mm' = (mm_blocks mm)(node \<mapsto> (s, sz, color))"
      "mm_lo mm' = mm_lo mm" "mm_hi mm' = mm_hi mm" "mm_color_adjust mm' = mm_color_adjust mm"
    using drm_mm_insert_result [OF inv color sz range node, of al mode] by blast
  then show ?thesis
  proof cases
    case fail
    then show ?thesis using cand by blast
  next
    case ok
    have extreme: "(mode = DRM_MM_INSERT_LOW \<longrightarrow> unat s \<le> s') \<and> (mode = DRM_MM_INSERT_HIGH \<longrightarrow> s' \<le> unat s)"
      if "mm_candidate mm sz al rs re s'" for s'
    proof -
      from that cand obtain k where k: "k \<in> mm_hole_set mm"
        "mm_hole_takes mm sz (mm_alignment al) color rs re k s'" by blast
      have "k \<in> set (as @ h # bs)" using mm_walk_holes(1) [OF inv, of mode] k(1) ok(1) by simp
      with ok(4) k(2) consider "k = h" | "k \<in> set bs" by auto
      then show ?thesis
      proof cases
        case 1
        with ok(5) k(2) show ?thesis by (auto split: if_splits)
      next
        case 2
        note b = mm_hole_takes_bounds [OF k(2) color k(1)] and c = mm_hole_takes_bounds [OF ok(3) color ok(2)]
        from b(1,2) c(1,2) mm_walk_low_high [OF inv ok(1) 2] show ?thesis
          by (auto simp: word_less_nat_alt)
      qed
    qed
    have "mm_candidate mm sz al rs re (unat s)" using cand ok(2,3) by blast
    with ok(6-11) none extreme show ?thesis by auto
  qed
qed

section \<open>Reachable allocators\<close>

text \<open>
  A driver initialises an allocator and then calls its operations in any order; between the
  calls it may write to nodes that are not linked. Reserving reads the place from the node.
\<close>

inductive mm_reach :: "(nat \<Rightarrow> drm_mm_node) \<Rightarrow> u64 \<Rightarrow> u64 \<Rightarrow> drm_mm \<Rightarrow> bool"
  for memory start sz where
  mm_reach_init: "drm_mm_init memory start sz = Some mm \<Longrightarrow> mm_reach memory start sz mm"
| mm_reach_insert: "mm_reach memory start sz mm \<Longrightarrow> node \<notin> set (mm_ring mm) \<Longrightarrow>
    \<not> nd_scanned_block (mm_nodes mm node) \<Longrightarrow> rs \<le> re \<Longrightarrow>
    drm_mm_insert_node_in_range mm node len al color rs re mode = Some (Inr mm') \<Longrightarrow>
    mm_reach memory start sz mm'"
| mm_reach_reserve: "mm_reach memory start sz mm \<Longrightarrow> node \<notin> set (mm_ring mm) \<Longrightarrow>
    \<not> nd_scanned_block (mm_nodes mm node) \<Longrightarrow>
    drm_mm_reserve_node mm node = Some (Inr mm') \<Longrightarrow> mm_reach memory start sz mm'"
| mm_reach_remove: "mm_reach memory start sz mm \<Longrightarrow> node \<in> set (mm_node_list mm) \<Longrightarrow>
    drm_mm_remove_node node mm = Some mm' \<Longrightarrow> mm_reach memory start sz mm'"
| mm_reach_replace: "mm_reach memory start sz mm \<Longrightarrow> old \<in> set (mm_node_list mm) \<Longrightarrow>
    new \<notin> set (mm_ring mm) \<Longrightarrow> mm_reach memory start sz (drm_mm_replace_node old new mm)"
| mm_reach_write: "mm_reach memory start sz mm \<Longrightarrow> node \<notin> set (mm_ring mm) \<Longrightarrow>
    nd_allocated (f (mm_nodes mm node)) = nd_allocated (mm_nodes mm node) \<Longrightarrow>
    mm_reach memory start sz (mm_set node f mm)"

lemma drm_mm_reserve_empty:
  "\<not> START mm node < START mm node + nd_size (mm_nodes mm node) \<Longrightarrow>
   drm_mm_reserve_node mm node = Some (Inl ENOSPC)"
  by (auto simp: drm_mm_reserve_node_def Let_def dest: leI)

lemma mm_reach_inv:
  assumes "mm_reach memory start sz mm" and "start < start + sz" and "\<And>n. \<not> nd_allocated (memory n)"
  shows "mm_inv mm \<and> mm_lo mm = start \<and> mm_hi mm = start + sz \<and> mm_color_adjust mm = None"
  using assms(1)
proof induction
  case (mm_reach_init mm)
  then show ?case using drm_mm_init_correct [OF assms(2), of memory] assms(3) by auto
next
  case (mm_reach_insert mm node rs re len al color mode mm')
  have "len \<noteq> 0" using mm_reach_insert.hyps(5) by (auto simp: drm_mm_insert_node_in_range_def)
  from drm_mm_insert_candidate [OF _ _ this mm_reach_insert.hyps(4,2,3), of al color mode]
    mm_reach_insert.IH mm_reach_insert.hyps(5)
  show ?case by auto
next
  case (mm_reach_reserve mm node mm')
  from mm_reach_reserve.hyps(4)
  have "START mm node < START mm node + nd_size (mm_nodes mm node)"
    using drm_mm_reserve_empty [of mm node] by auto
  from drm_mm_reserve_result [OF _ _ mm_reach_reserve.hyps(2,3) this]
    mm_reach_reserve.IH mm_reach_reserve.hyps(4) mm_color_ok_None
  show ?case by auto
next
  case (mm_reach_remove mm node mm')
  then show ?case using drm_mm_remove_blocks [of mm node] by auto
next
  case (mm_reach_replace mm old new)
  then show ?case using drm_mm_replace_correct [of mm old new] by auto
next
  case (mm_reach_write mm node f)
  have "mm_lo (mm_set node f mm) = mm_lo mm" "mm_hi (mm_set node f mm) = mm_hi mm"
    using mm_reach_write.hyps(2) by (auto simp: mm_lo_def mm_hi_def drm_mm_hole_node_start_def mm_set_def)
  with mm_set_fresh(1) [of mm node f] mm_reach_write.hyps(2,3) mm_reach_write.IH show ?case by simp
qed

section \<open>An example allocator\<close>

text \<open>An address space \<open>[4096, 69632)\<close>, empty, and with one block of 8192 bytes as node 1.\<close>

definition mm_example :: drm_mm where
  "mm_example = the (drm_mm_init (\<lambda>_. drm_mm_node_zero) 4096 65536)"

definition mm_example1 :: drm_mm where
  "mm_example1 =
     (case drm_mm_insert_node_in_range mm_example 1 8192 4096 0 0 1048576 DRM_MM_INSERT_LOW of
        Some (Inr mm) \<Rightarrow> mm | _ \<Rightarrow> mm_example)"

lemma mm_example:
  "drm_mm_init (\<lambda>_. drm_mm_node_zero) 4096 65536 = Some mm_example"
  "mm_inv mm_example" "mm_node_list mm_example = []" "mm_lo mm_example = 4096" "mm_hi mm_example = 69632"
  "mm_color_adjust mm_example = None" "n \<noteq> 0 \<Longrightarrow> mm_nodes mm_example n = drm_mm_node_zero"
proof -
  have "\<exists>mm. drm_mm_init (\<lambda>_. drm_mm_node_zero) 4096 65536 = Some mm \<and> mm_inv mm \<and> mm_node_list mm = [] \<and>
    mm_lo mm = 4096 \<and> mm_hi mm = 4096 + 65536 \<and> mm_color_adjust mm = None \<and>
    (\<forall>n. n \<noteq> HEAD \<longrightarrow> mm_nodes mm n = drm_mm_node_zero)"
    by (rule drm_mm_init_correct) (simp_all add: drm_mm_node_zero_def)
  then show "drm_mm_init (\<lambda>_. drm_mm_node_zero) 4096 65536 = Some mm_example"
    "mm_inv mm_example" "mm_node_list mm_example = []" "mm_lo mm_example = 4096" "mm_hi mm_example = 69632"
    "mm_color_adjust mm_example = None" "n \<noteq> 0 \<Longrightarrow> mm_nodes mm_example n = drm_mm_node_zero"
    by (auto simp: mm_example_def HEAD_def)
qed

lemma mm_example_fresh:
  "n \<noteq> 0 \<Longrightarrow> n \<notin> set (mm_ring mm_example)" "n \<noteq> 0 \<Longrightarrow> \<not> nd_scanned_block (mm_nodes mm_example n)"
  by (simp_all add: mm_example HEAD_def drm_mm_node_zero_def)

lemma mm_example_candidate: "mm_candidate mm_example 8192 4096 0 1048576 4096"
  by (simp add: mm_candidate_def mm_range_free_def mm_example)

lemma mm_example1:
  "drm_mm_insert_node_in_range mm_example 1 8192 4096 0 0 1048576 DRM_MM_INSERT_LOW = Some (Inr mm_example1)"
  "mm_inv mm_example1" "mm_blocks mm_example1 = [1 \<mapsto> (4096, 8192, 0)]"
  "mm_lo mm_example1 = 4096" "mm_hi mm_example1 = 69632" "mm_color_adjust mm_example1 = None"
proof -
  obtain s mm' where ins: "drm_mm_insert_node_in_range mm_example 1 8192 4096 0 0 1048576 DRM_MM_INSERT_LOW = Some (Inr mm')"
    and cand: "mm_candidate mm_example 8192 4096 0 1048576 (unat s)" and inv: "mm_inv mm'"
    and blocks: "mm_blocks mm' = (mm_blocks mm_example)(1 \<mapsto> (s, 8192, 0))"
    and lo: "mm_lo mm' = mm_lo mm_example" "mm_hi mm' = mm_hi mm_example" "mm_color_adjust mm' = None"
    and low: "\<And>s'. mm_candidate mm_example 8192 4096 0 1048576 s' \<Longrightarrow> unat s \<le> s'"
    using drm_mm_insert_candidate [OF mm_example(2,6) _ _ mm_example_fresh(1,2), of 8192 0 1048576 1 4096 0 DRM_MM_INSERT_LOW]
      mm_example_candidate by auto
  have "unat s = 4096"
    using low [OF mm_example_candidate] cand by (simp add: mm_candidate_def mm_range_free_def mm_example)
  then have s: "s = 4096" by (simp add: word_unat_eq_iff)
  have m: "mm' = mm_example1" using ins by (simp add: mm_example1_def)
  have "mm_blocks mm_example = Map.empty" by (simp add: fun_eq_iff mm_blocks_def mm_example)
  with ins inv blocks lo s m show
    "drm_mm_insert_node_in_range mm_example 1 8192 4096 0 0 1048576 DRM_MM_INSERT_LOW = Some (Inr mm_example1)"
    "mm_inv mm_example1" "mm_blocks mm_example1 = [1 \<mapsto> (4096, 8192, 0)]"
    "mm_lo mm_example1 = 4096" "mm_hi mm_example1 = 69632" "mm_color_adjust mm_example1 = None"
    by (simp_all add: mm_example)
qed

section \<open>Properties\<close>

text \<open>
  C1. \<^verbatim>\<open>drm_mm_insert_node_in_range\<close>, without a colour callback, always returns. It succeeds exactly when
  some place for the block exists: free, inside the requested range, aligned and inside the managed
  address space. On success the node has such a place, no other block changes and the invariant holds;
  otherwise the result is \<^verbatim>\<open>-ENOSPC\<close>.
\<close>

theorem insert_node_in_range_exact:
  assumes "mm_inv mm" and "mm_color_adjust mm = None" and "sz \<noteq> 0" and "rs \<le> re"
    and "node \<notin> set (mm_ring mm)" and "\<not> nd_scanned_block (mm_nodes mm node)"
  shows "case drm_mm_insert_node_in_range mm node sz al color rs re mode of
      Some (Inr mm') \<Rightarrow> \<exists>s. mm_candidate mm sz al rs re (unat s) \<and> mm_inv mm' \<and>
        mm_blocks mm' = (mm_blocks mm)(node \<mapsto> (s, sz, color)) \<and> mm_lo mm' = mm_lo mm \<and> mm_hi mm' = mm_hi mm
    | Some (Inl e) \<Rightarrow> e = ENOSPC \<and> \<not> (\<exists>s. mm_candidate mm sz al rs re s)
    | None \<Rightarrow> False"
  using drm_mm_insert_candidate [OF assms, of al color mode] by auto

theorem insert_node_in_range_exact_witness:
  "\<exists>s mm'. drm_mm_insert_node_in_range mm_example 1 8192 4096 0 0 1048576 DRM_MM_INSERT_BEST = Some (Inr mm') \<and>
     mm_candidate mm_example 8192 4096 0 1048576 (unat s) \<and> mm_blocks mm' 1 = Some (s, 8192, 0)"
  using insert_node_in_range_exact [OF mm_example(2,6) _ _ mm_example_fresh(1,2),
      of 8192 0 1048576 1 4096 0 DRM_MM_INSERT_BEST] mm_example_candidate
  by (auto split: option.splits sum.splits)

text \<open>
  C17. In mode \<^verbatim>\<open>DRM_MM_INSERT_LOW\<close> the block gets the lowest place that exists, and in mode
  \<^verbatim>\<open>DRM_MM_INSERT_HIGH\<close> the highest, whatever the range and the alignment.
\<close>

theorem insert_node_low_high:
  assumes "mm_inv mm" and "mm_color_adjust mm = None" and "sz \<noteq> 0" and "rs \<le> re"
    and "node \<notin> set (mm_ring mm)" and "\<not> nd_scanned_block (mm_nodes mm node)"
    and "drm_mm_insert_node_in_range mm node sz al color rs re mode = Some (Inr mm')"
    and "mm_candidate mm sz al rs re s'"
  shows "\<exists>s. mm_blocks mm' node = Some (s, sz, color) \<and>
    (mode = DRM_MM_INSERT_LOW \<longrightarrow> unat s \<le> s') \<and> (mode = DRM_MM_INSERT_HIGH \<longrightarrow> s' \<le> unat s)"
  using drm_mm_insert_candidate [OF assms(1-6), of al color mode] assms(7,8) by auto

theorem insert_node_low_high_witness:
  "\<exists>s. mm_blocks mm_example1 1 = Some (s, 8192, 0) \<and> unat s \<le> 4096"
  using insert_node_low_high [OF mm_example(2,6) _ _ mm_example_fresh(1,2) mm_example1(1) mm_example_candidate]
  by simp

text \<open>
  C18. In mode \<^verbatim>\<open>DRM_MM_INSERT_BEST\<close> the block goes into a hole that is no larger than any other hole
  that could take it, also when a callback narrows the holes.
\<close>

theorem insert_node_best_fit:
  assumes inv: "mm_inv mm" and color: "mm_color_ok mm color" and sz: "sz \<noteq> 0" and range: "rs \<le> re"
    and node: "node \<notin> set (mm_ring mm)" "\<not> nd_scanned_block (mm_nodes mm node)"
    and ins: "drm_mm_insert_node_in_range mm node sz al color rs re DRM_MM_INSERT_BEST = Some (Inr mm')"
  shows "\<exists>h\<in>mm_hole_set mm. \<exists>s. mm_blocks mm' node = Some (s, sz, color) \<and>
    unat (drm_mm_hole_node_start mm h) \<le> unat s \<and> unat s + unat sz \<le> unat (drm_mm_hole_node_end mm h) \<and>
    (\<forall>k\<in>mm_hole_set mm. (\<exists>s'. mm_hole_takes mm sz (mm_alignment al) color rs re k s') \<longrightarrow>
       HOLE_SIZE mm h \<le> HOLE_SIZE mm k)"
proof -
  obtain as h bs s where w: "mm_walk DRM_MM_INSERT_BEST mm = as @ h # bs" and h: "h \<in> mm_hole_set mm"
    and takes: "mm_hole_takes mm sz (mm_alignment al) color rs re h (unat s)"
    and as: "\<forall>k\<in>set as. \<forall>s. \<not> mm_hole_takes mm sz (mm_alignment al) color rs re k s"
    and blocks: "mm_blocks mm' = (mm_blocks mm)(node \<mapsto> (s, sz, color))"
    using drm_mm_insert_result [OF inv color sz range node, of al DRM_MM_INSERT_BEST] ins by auto
  have "sorted (map (HOLE_SIZE mm) (as @ h # bs))"
    using inv w by (simp add: mm_inv_def mm_holes_ok_def hole_index_def)
  moreover have "set (as @ h # bs) = mm_hole_set mm"
    using mm_walk_holes(1) [OF inv, of DRM_MM_INSERT_BEST] w by simp
  ultimately have "HOLE_SIZE mm h \<le> HOLE_SIZE mm k"
    if "k \<in> mm_hole_set mm" "mm_hole_takes mm sz (mm_alignment al) color rs re k s'" for k s'
    using as that by (auto simp: sorted_append)
  with h blocks mm_hole_takes_bounds [OF takes color h] show ?thesis
    by (intro bexI [of _ h] exI [of _ s]) auto
qed

theorem insert_node_best_fit_witness:
  "\<exists>mm'. drm_mm_insert_node_in_range mm_example 1 8192 4096 0 0 1048576 DRM_MM_INSERT_BEST = Some (Inr mm') \<and>
    (\<exists>h\<in>mm_hole_set mm_example. \<exists>s. mm_blocks mm' 1 = Some (s, 8192, 0) \<and>
       unat (drm_mm_hole_node_start mm_example h) \<le> unat s)"
proof -
  obtain mm' where ins: "drm_mm_insert_node_in_range mm_example 1 8192 4096 0 0 1048576 DRM_MM_INSERT_BEST = Some (Inr mm')"
    using drm_mm_insert_candidate [OF mm_example(2,6) _ _ mm_example_fresh(1,2),
        of 8192 0 1048576 1 4096 0 DRM_MM_INSERT_BEST] mm_example_candidate by auto
  from insert_node_best_fit [OF mm_example(2) mm_color_ok_None [OF mm_example(6)] _ _ mm_example_fresh(1,2) ins]
  show ?thesis using ins by auto
qed

text \<open>
  C9. \<^verbatim>\<open>drm_mm_reserve_node\<close>, without a colour callback, returns the allocator with the block at the
  address the node asks for if that range is free, and \<^verbatim>\<open>-ENOSPC\<close> otherwise; an empty range or one
  that wraps around 64 bits is refused.
\<close>

theorem reserve_node_exact:
  assumes "mm_inv mm" and "mm_color_adjust mm = None"
    and "node \<notin> set (mm_ring mm)" and "\<not> nd_scanned_block (mm_nodes mm node)"
  shows "case drm_mm_reserve_node mm node of
      Some (Inr mm') \<Rightarrow> START mm node < START mm node + nd_size (mm_nodes mm node) \<and>
        mm_range_free mm (unat (START mm node)) (unat (START mm node) + unat (nd_size (mm_nodes mm node))) \<and>
        mm_inv mm' \<and> mm_blocks mm' = (mm_blocks mm)(node \<mapsto>
          (START mm node, nd_size (mm_nodes mm node), nd_color (mm_nodes mm node)))
    | Some (Inl e) \<Rightarrow> e = ENOSPC \<and> \<not> (START mm node < START mm node + nd_size (mm_nodes mm node) \<and>
        mm_range_free mm (unat (START mm node)) (unat (START mm node) + unat (nd_size (mm_nodes mm node))))
    | None \<Rightarrow> False"
proof (cases "START mm node < START mm node + nd_size (mm_nodes mm node)")
  case True
  from drm_mm_reserve_result [OF assms(1) mm_color_ok_None [OF assms(2)] assms(3,4) True]
    mm_hole_holds_free [OF assms(1,2) True] True
  show ?thesis by auto
qed (simp add: drm_mm_reserve_empty)

theorem reserve_node_exact_witness:
  "\<exists>mm'. drm_mm_reserve_node (mm_set 2 (\<lambda>nd. nd\<lparr>nd_start := 8192, nd_size := 4096\<rparr>) mm_example) 2 = Some (Inr mm') \<and>
     mm_inv mm' \<and> mm_blocks mm' 2 = Some (8192, 4096, 0)"
proof -
  let ?mm = "mm_set 2 (\<lambda>nd. nd\<lparr>nd_start := 8192, nd_size := 4096\<rparr>) mm_example"
  have inv: "mm_inv ?mm" by (rule mm_set_fresh(1) [OF mm_example(2) mm_example_fresh(1)]) simp_all
  have lohi: "mm_lo ?mm = 4096" "mm_hi ?mm = 69632" "mm_node_list ?mm = []" "mm_color_adjust ?mm = None"
    using mm_example by (simp_all add: mm_lo_def mm_hi_def drm_mm_hole_node_start_def HEAD_def)
  have n: "2 \<notin> set (mm_ring ?mm)" "\<not> nd_scanned_block (mm_nodes ?mm 2)"
    "START ?mm 2 = 8192" "nd_size (mm_nodes ?mm 2) = 4096" "nd_color (mm_nodes ?mm 2) = 0"
    using mm_example_fresh [of 2] mm_example(7) [of 2] by (simp_all add: drm_mm_node_zero_def)
  have free: "mm_range_free ?mm 8192 12288" unfolding mm_range_free_def lohi by simp
  from reserve_node_exact [OF inv lohi(4) n(1,2)] free show ?thesis
    unfolding n(3,4,5) by (auto split: option.splits sum.splits)
qed

text \<open>
  C10. \<^verbatim>\<open>drm_mm_remove_node\<close> on an allocated node always succeeds, gives back exactly that node's block and
  leaves every other block and the bounds of the address space alone.
\<close>

theorem remove_node_exact:
  assumes "mm_inv mm" and "node \<in> set (mm_node_list mm)"
  shows "\<exists>mm'. drm_mm_remove_node node mm = Some mm' \<and> mm_inv mm' \<and>
    mm_blocks mm' = (mm_blocks mm)(node := None) \<and> mm_lo mm' = mm_lo mm \<and> mm_hi mm' = mm_hi mm"
  using drm_mm_remove_blocks [OF assms] by blast

lemma mm_example1_node: "1 \<in> set (mm_node_list mm_example1)"
  using mm_example1(3) by (metis fun_upd_same mm_blocks_def option.distinct(1))

theorem remove_node_exact_witness:
  "\<exists>mm'. drm_mm_remove_node 1 mm_example1 = Some mm' \<and> mm_blocks mm' 1 = None"
  using remove_node_exact [OF mm_example1(2) mm_example1_node] by auto

text \<open>
  C4. In every allocator that a driver can reach from \<^verbatim>\<open>drm_mm_init\<close> by inserting, reserving, removing and
  replacing nodes, in any order, two allocated blocks never overlap and every block lies inside the
  address space that was handed to \<^verbatim>\<open>drm_mm_init\<close>.
\<close>

theorem reachable_blocks_disjoint:
  assumes "mm_reach memory start sz mm" and "start < start + sz" and "\<And>n. \<not> nd_allocated (memory n)"
    and "mm_blocks mm m = Some (a, la, ca)"
  shows "unat start \<le> unat a \<and> unat a + unat la \<le> unat start + unat sz \<and> 0 < unat la \<and>
    (\<forall>n b lb cb. mm_blocks mm n = Some (b, lb, cb) \<longrightarrow> m \<noteq> n \<longrightarrow>
       unat a + unat la \<le> unat b \<or> unat b + unat lb \<le> unat a)"
proof -
  have R: "mm_inv mm" "mm_lo mm = start" "mm_hi mm = start + sz"
    using mm_reach_inv [OF assms(1-3)] by auto
  have chain: "mm_chain (mm_nodes mm) (mm_lo mm) (mm_node_list mm) (mm_hi mm)"
    using R(1) by (simp add: mm_inv_def mm_layout_def)
  have m: "m \<in> set (mm_node_list mm)" "a = START mm m" "la = nd_size (mm_nodes mm m)"
    using assms(4) by (auto simp: mm_blocks_def split: if_splits)
  have "start \<le> a" "a < a + la" "a + la \<le> start + sz"
    using mm_chain_mem [OF chain m(1)] m R by auto
  moreover from this have "unat (a + la) = unat a + unat la" "unat (start + sz) = unat start + unat sz"
    using assms(2) by (simp_all add: unat_plus_nowrap)
  ultimately have "unat start \<le> unat a \<and> unat a + unat la \<le> unat start + unat sz \<and> 0 < unat la"
    by (auto simp: word_le_nat_alt word_less_nat_alt)
  moreover have "unat a + unat la \<le> unat b \<or> unat b + unat lb \<le> unat a"
    if "mm_blocks mm n = Some (b, lb, cb)" "m \<noteq> n" for n b lb cb
    using that mm_blocks_disjoint [OF R(1) m(1), of n] m by (auto simp: mm_blocks_def split: if_splits)
  ultimately show ?thesis by blast
qed

theorem reachable_blocks_disjoint_witness:
  "mm_reach (\<lambda>_. drm_mm_node_zero) 4096 65536 mm_example1 \<and> unat (4096 :: u64) + unat (8192 :: u64) \<le> 69632"
proof -
  have reach: "mm_reach (\<lambda>_. drm_mm_node_zero) 4096 65536 mm_example1"
    by (rule mm_reach_insert [OF mm_reach_init [OF mm_example(1)] _ _ _ mm_example1(1)])
      (simp_all add: mm_example HEAD_def drm_mm_node_zero_def)
  have "mm_blocks mm_example1 1 = Some (4096, 8192, 0)" by (simp add: mm_example1)
  from reachable_blocks_disjoint [OF reach _ _ this] reach show ?thesis
    by (simp add: drm_mm_node_zero_def)
qed

text \<open>
  \<^verbatim>\<open>drm_mm_replace_node\<close> moves the allocation of the old node to the new one: the invariant is kept,
  the old node is free, and the new node has the old node's block.
\<close>

theorem replace_node_moves:
  assumes "mm_inv mm" and "old \<in> set (mm_node_list mm)" and "new \<notin> set (mm_ring mm)"
  shows "mm_inv (drm_mm_replace_node old new mm) \<and>
    mm_blocks (drm_mm_replace_node old new mm) = (mm_blocks mm)(old := None, new := mm_blocks mm old)"
  using drm_mm_replace_correct [OF assms] by blast

theorem replace_node_moves_witness:
  "mm_inv (drm_mm_replace_node 1 2 mm_example1) \<and>
   mm_blocks (drm_mm_replace_node 1 2 mm_example1) = [2 \<mapsto> (4096, 8192, 0)]"
proof -
  have "mm_blocks mm_example1 2 = None" by (simp add: mm_example1)
  then have "2 \<notin> set (mm_ring mm_example1)"
    by (auto simp: mm_blocks_def HEAD_def split: if_splits)
  from replace_node_moves [OF mm_example1(2) mm_example1_node this] show ?thesis
    by (simp add: mm_example1 fun_upd_twist)
qed

text \<open>
  C27. An eviction scan over any distinct allocated nodes, undone in the reverse order as the
  documentation asks, restores the allocator: the node list, the scan counter and every field of every
  node, but for the stale list links of the scanned nodes.
\<close>

theorem scan_reverse_restores:
  assumes "mm_inv mm" and "distinct ns" and "set ns \<subseteq> set (mm_node_list mm)"
  shows "mm_scan_eq (set ns) mm
    (drm_mm_scan_remove_blocks (rev ns) sc' (snd (drm_mm_scan_add_blocks ns sc mm)))"
  unfolding drm_mm_scan_add_blocks_unlink
  using assms by (intro mm_scan_roundtrip) (auto simp: mm_inv_def mm_layout_def mm_list_ok_def)

theorem scan_reverse_restores_witness:
  "mm_scan_eq {1} mm_example1 (drm_mm_scan_remove_blocks [1] (drm_mm_scan_init 4096 0 0 DRM_MM_INSERT_BEST)
     (snd (drm_mm_scan_add_blocks [1] (drm_mm_scan_init 4096 0 0 DRM_MM_INSERT_BEST) mm_example1)))"
  using scan_reverse_restores [OF mm_example1(2), of "[1]"] mm_example1_node by simp

text \<open>
  C28. When \<^verbatim>\<open>drm_mm_scan_add_block\<close> reports a hit, the hit range has the requested size, lies in the
  requested range, is aligned, and overlaps no node that is still on the node list: evicting the
  scanned nodes in its way is enough to make room.
\<close>

theorem scan_hit_is_room:
  assumes "mm_scan_ok mm" and "node \<in> set (mm_node_list mm)" and "mm_color_adjust mm = None"
    and "sz \<noteq> 0"
    and "drm_mm_scan_add_block node (drm_mm_scan_init_with_range sz al color rs re mode) mm = (True, scan', mm')"
  shows "mm_range_free mm' (unat (sc_hit_start scan')) (unat (sc_hit_end scan')) \<and>
    unat (sc_hit_end scan') = unat (sc_hit_start scan') + unat sz \<and>
    unat rs \<le> unat (sc_hit_start scan') \<and> unat (sc_hit_end scan') \<le> unat re \<and>
    (1 < al \<longrightarrow> unat al dvd unat (sc_hit_start scan')) \<and> mm' = mm_scan_unlink node mm"
proof -
  let ?scan = "drm_mm_scan_init_with_range sz al color rs re mode"
  have f: "sc_size ?scan = sz" "sc_alignment ?scan = mm_alignment al" "sc_range_start ?scan = rs"
    "sc_range_end ?scan = re" "sc_remainder_mask ?scan = mm_remainder_mask (sc_alignment ?scan)"
    by (simp_all add: drm_mm_scan_init_with_range_def Let_def)
  have "mm' = mm_scan_unlink node mm"
    using drm_mm_scan_add_block_unlink [of node ?scan mm] assms(5) by simp
  moreover have "1 < al \<longrightarrow> mm_alignment al = al \<and> al \<noteq> 0" by (auto simp: mm_alignment_def)
  ultimately show ?thesis
    using drm_mm_scan_hit_free [OF assms(1-3) _ f(5) assms(5)] assms(4) f by auto
qed

lemma mm_example1_list: "mm_node_list mm_example1 = [1]"
proof -
  have set: "n \<in> set (mm_node_list mm_example1) \<longleftrightarrow> n = 1" for n
    using fun_cong [OF mm_example1(3), of n] by (auto simp: mm_blocks_def split: if_splits)
  have "distinct (mm_node_list mm_example1)"
    using mm_example1(2) by (simp add: mm_inv_def mm_layout_def mm_list_ok_def)
  then have "length (mm_node_list mm_example1) = card {1 :: nat}"
    using set by (metis distinct_card set_eqI singleton_iff)
  then obtain x where "mm_node_list mm_example1 = [x]" by (auto simp: length_Suc_conv)
  with set [of x] show ?thesis by simp
qed

lemma mm_example1_scan:
  "drm_mm_scan_add_block 1 (drm_mm_scan_init_with_range 65536 0 0 0 1048576 DRM_MM_INSERT_BEST) mm_example1 =
     (True, (drm_mm_scan_init_with_range 65536 0 0 0 1048576 DRM_MM_INSERT_BEST)
        \<lparr>sc_hit_start := 4096, sc_hit_end := 69632\<rparr>, mm_scan_unlink 1 mm_example1)"
proof -
  let ?mm = "mm_scan_unlink 1 mm_example1"
  have prev: "mm_list_prev mm_example1 1 = HEAD" by (simp add: mm_list_prev_def mm_example1_list HEAD_def)
  have he: "drm_mm_hole_node_start ?mm HEAD = 4096" "drm_mm_hole_node_end ?mm HEAD = 69632"
    "mm_color_adjust ?mm = None"
    using mm_example1(4-6)
    by (simp_all add: mm_lo_def mm_hi_def drm_mm_hole_node_start_def drm_mm_hole_node_end_def
        mm_list_next_def mm_scan_unlink_def mm_example1_list HEAD_def)
  show ?thesis
    unfolding drm_mm_scan_add_block_def Let_def mm_scan_unlink_def [symmetric]
    unfolding prev mm_scan_unlink_def [symmetric]
    by (simp add: mm_color_range_def he drm_mm_scan_init_with_range_def mm_fit_def mm_alignment_def
        del: One_nat_def)
qed

theorem scan_hit_is_room_witness:
  "mm_range_free (mm_scan_unlink 1 mm_example1) 4096 69632"
proof -
  have "mm_scan_ok mm_example1"
    using mm_layout_chain [of mm_example1] mm_example1(2) by (simp add: mm_scan_ok_def mm_inv_def)
  from scan_hit_is_room [OF this mm_example1_node mm_example1(6) _ mm_example1_scan]
  show ?thesis by simp
qed

text \<open>
  \<^verbatim>\<open>__drm_mm_interval_first\<close> returns the node with the lowest address that overlaps the closed
  interval, and the head node if there is none.
\<close>

theorem interval_first_correct:
  assumes "mm_inv mm"
  shows "drm_mm_interval_first mm start lst =
    (case find (\<lambda>n. START mm n \<le> lst \<and> start \<le> LAST mm n) (mm_node_list mm) of
       Some n \<Rightarrow> n | None \<Rightarrow> HEAD)"
  using drm_mm_interval_first_find [OF assms] .

theorem interval_first_correct_witness: "drm_mm_interval_first mm_example 8192 16384 = HEAD"
  using interval_first_correct [OF mm_example(2), of 8192 16384] by (simp add: mm_example)

end
