(* ===== verification/HDMI.thy ===== *)
theory HDMI
  imports Prelude "HOL-Library.Monad_Syntax"
begin

text \<open>
  The HDMI infoframes of \<^verbatim>\<open>linux_hdmi.c\<close>: packing a frame into the bytes that go to the display and
  unpacking received bytes. Enumerations are stored in 32-bit words because unpacking may produce
  values that have no enumerator. A buffer is the list of its bytes, so \<^verbatim>\<open>size\<close> is its length; a
  read or write outside of it is \<open>None\<close>. An error return is \<open>Inl\<close>.
\<close>

unbundle bit_operations_syntax

section \<open>Bytes and bits\<close>

definition BIT :: "nat \<Rightarrow> 'a::len word" where
  "BIT n = push_bit n 1"

definition buf_get :: "nat \<Rightarrow> u8 list \<Rightarrow> u8 option" where
  "buf_get i buf = (if i < length buf then Some (buf ! i) else None)"

definition buf_put :: "nat \<Rightarrow> u8 \<Rightarrow> u8 list \<Rightarrow> u8 list option" where
  "buf_put i b buf = (if i < length buf then Some (buf[i := b]) else None)"

fun buf_puts :: "nat \<Rightarrow> u8 list \<Rightarrow> u8 list \<Rightarrow> u8 list option" where
  "buf_puts i [] buf = Some buf"
| "buf_puts i (b # bs) buf = buf_put i b buf \<bind> buf_puts (Suc i) bs"

section \<open>Frames\<close>

definition HDMI_INFOFRAME_TYPE_VENDOR :: u32 where "HDMI_INFOFRAME_TYPE_VENDOR = 0x81"
definition HDMI_INFOFRAME_TYPE_AVI :: u32 where "HDMI_INFOFRAME_TYPE_AVI = 0x82"
definition HDMI_INFOFRAME_TYPE_SPD :: u32 where "HDMI_INFOFRAME_TYPE_SPD = 0x83"
definition HDMI_INFOFRAME_TYPE_AUDIO :: u32 where "HDMI_INFOFRAME_TYPE_AUDIO = 0x84"
definition HDMI_IEEE_OUI :: u32 where "HDMI_IEEE_OUI = 0x000c03"
definition HDMI_INFOFRAME_HEADER_SIZE :: nat where "HDMI_INFOFRAME_HEADER_SIZE = 4"
definition HDMI_AVI_INFOFRAME_SIZE :: nat where "HDMI_AVI_INFOFRAME_SIZE = 13"
definition HDMI_SPD_INFOFRAME_SIZE :: nat where "HDMI_SPD_INFOFRAME_SIZE = 25"
definition HDMI_AUDIO_INFOFRAME_SIZE :: nat where "HDMI_AUDIO_INFOFRAME_SIZE = 10"
definition HDMI_3D_STRUCTURE_INVALID :: u32 where "HDMI_3D_STRUCTURE_INVALID = - 1"
definition HDMI_3D_STRUCTURE_SIDE_BY_SIDE_HALF :: u32 where "HDMI_3D_STRUCTURE_SIDE_BY_SIDE_HALF = 8"

lemmas hdmi_consts = HDMI_INFOFRAME_TYPE_VENDOR_def HDMI_INFOFRAME_TYPE_AVI_def HDMI_INFOFRAME_TYPE_SPD_def
  HDMI_INFOFRAME_TYPE_AUDIO_def HDMI_IEEE_OUI_def HDMI_INFOFRAME_HEADER_SIZE_def HDMI_AVI_INFOFRAME_SIZE_def
  HDMI_SPD_INFOFRAME_SIZE_def HDMI_AUDIO_INFOFRAME_SIZE_def HDMI_3D_STRUCTURE_INVALID_def
  HDMI_3D_STRUCTURE_SIDE_BY_SIDE_HALF_def

text \<open>All infoframes start with the fields of \<^verbatim>\<open>struct hdmi_any_infoframe\<close>.\<close>

record hdmi_any_infoframe =
  frame_type :: u32
  frame_version :: u8
  frame_length :: u8

record hdmi_avi_infoframe = hdmi_any_infoframe +
  colorspace :: u32
  scan_mode :: u32
  colorimetry :: u32
  picture_aspect :: u32
  active_aspect :: u32
  itc :: bool
  extended_colorimetry :: u32
  quantization_range :: u32
  nups :: u32
  video_code :: u8
  ycc_quantization_range :: u32
  content_type :: u32
  pixel_repeat :: u8
  top_bar :: u16
  bottom_bar :: u16
  left_bar :: u16
  right_bar :: u16

record hdmi_spd_infoframe = hdmi_any_infoframe +
  spd_vendor :: "u8 list"
  spd_product :: "u8 list"
  spd_sdi :: u32

record hdmi_audio_infoframe = hdmi_any_infoframe +
  audio_channels :: u8
  coding_type :: u32
  sample_size :: u32
  sample_frequency :: u32
  coding_type_ext :: u32
  channel_allocation :: u8
  level_shift_value :: u8
  downmix_inhibit :: bool

record hdmi_vendor_infoframe = hdmi_any_infoframe +
  oui :: u32
  vic :: u8
  s3d_struct :: u32
  s3d_ext_data :: u32

text \<open>The member of the union that has been written.\<close>

datatype hdmi_infoframe =
  IF_avi hdmi_avi_infoframe
| IF_spd hdmi_spd_infoframe
| IF_audio hdmi_audio_infoframe
| IF_vendor hdmi_vendor_infoframe

section \<open>The checksum\<close>

definition hdmi_infoframe_checksum :: "u8 list \<Rightarrow> nat \<Rightarrow> u8 option" where
  "hdmi_infoframe_checksum ptr sz =
     (if sz \<le> length ptr
      then Some (ucast ((256 :: u32) - ucast (fold (\<lambda>b csum. csum + b) (take sz ptr) 0)))
      else None)"

definition hdmi_infoframe_set_checksum :: "u8 list \<Rightarrow> nat \<Rightarrow> u8 list option" where
  "hdmi_infoframe_set_checksum buffer sz =
     do { csum \<leftarrow> hdmi_infoframe_checksum buffer sz; buf_put 3 csum buffer }"

section \<open>Initialising\<close>

definition hdmi_avi_infoframe_init :: hdmi_avi_infoframe where
  "hdmi_avi_infoframe_init =
     \<lparr>frame_type = HDMI_INFOFRAME_TYPE_AVI, frame_version = 2, frame_length = of_nat HDMI_AVI_INFOFRAME_SIZE,
      colorspace = 0, scan_mode = 0, colorimetry = 0, picture_aspect = 0, active_aspect = 0, itc = False,
      extended_colorimetry = 0, quantization_range = 0, nups = 0, video_code = 0,
      ycc_quantization_range = 0, content_type = 0, pixel_repeat = 0, top_bar = 0, bottom_bar = 0,
      left_bar = 0, right_bar = 0\<rparr>"

text \<open>\<^verbatim>\<open>strncpy\<close> into a zeroed array of \<open>n\<close> bytes: it copies up to the first zero byte.\<close>

definition strncpy :: "u8 list \<Rightarrow> nat \<Rightarrow> u8 list" where
  "strncpy s n = (let cs = takeWhile (\<lambda>c. c \<noteq> 0) (take n s) in cs @ replicate (n - length cs) 0)"

definition hdmi_spd_infoframe_init :: "u8 list \<Rightarrow> u8 list \<Rightarrow> hdmi_spd_infoframe" where
  "hdmi_spd_infoframe_init vendor product =
     \<lparr>frame_type = HDMI_INFOFRAME_TYPE_SPD, frame_version = 1, frame_length = of_nat HDMI_SPD_INFOFRAME_SIZE,
      spd_vendor = strncpy vendor 8, spd_product = strncpy product 16, spd_sdi = 0\<rparr>"

definition hdmi_audio_infoframe_init :: hdmi_audio_infoframe where
  "hdmi_audio_infoframe_init =
     \<lparr>frame_type = HDMI_INFOFRAME_TYPE_AUDIO, frame_version = 1, frame_length = of_nat HDMI_AUDIO_INFOFRAME_SIZE,
      audio_channels = 0, coding_type = 0, sample_size = 0, sample_frequency = 0, coding_type_ext = 0,
      channel_allocation = 0, level_shift_value = 0, downmix_inhibit = False\<rparr>"

definition hdmi_vendor_infoframe_init :: hdmi_vendor_infoframe where
  "hdmi_vendor_infoframe_init =
     \<lparr>frame_type = HDMI_INFOFRAME_TYPE_VENDOR, frame_version = 1, frame_length = 0,
      oui = HDMI_IEEE_OUI, vic = 0, s3d_struct = HDMI_3D_STRUCTURE_INVALID, s3d_ext_data = 0\<rparr>"

section \<open>Packing\<close>

text \<open>The header bytes, with the checksum still 0.\<close>

definition hdmi_header :: "u32 \<Rightarrow> u8 \<Rightarrow> u8 \<Rightarrow> u8 list" where
  "hdmi_header ty ver len = [ucast ty, ver, len, 0]"

definition hdmi_avi_infoframe_pack :: "hdmi_avi_infoframe \<Rightarrow> u8 list \<Rightarrow> (errno + nat \<times> u8 list) option" where
  "hdmi_avi_infoframe_pack frame buffer =
     (let size = length buffer;
          len = HDMI_INFOFRAME_HEADER_SIZE + unat (frame_length frame)
      in if size < len then Some (Inl ENOSPC)
         else
           let p0 = ucast (push_bit 5 (colorspace frame AND 0x3) OR (scan_mode frame AND 0x3)) :: u8;
               p0 = (if active_aspect frame AND 0xf \<noteq> 0 then p0 OR BIT 4 else p0);
               p0 = (if top_bar frame \<noteq> 0 \<or> bottom_bar frame \<noteq> 0 then p0 OR BIT 3 else p0);
               p0 = (if left_bar frame \<noteq> 0 \<or> right_bar frame \<noteq> 0 then p0 OR BIT 2 else p0);
               p1 = ucast (push_bit 6 (colorimetry frame AND 0x3) OR
                           push_bit 4 (picture_aspect frame AND 0x3) OR (active_aspect frame AND 0xf)) :: u8;
               p2 = ucast (push_bit 4 (extended_colorimetry frame AND 0x7) OR
                           push_bit 2 (quantization_range frame AND 0x3) OR (nups frame AND 0x3)) :: u8;
               p2 = (if itc frame then p2 OR BIT 7 else p2);
               p3 = video_code frame AND 0x7f;
               p4 = ucast (push_bit 6 (ycc_quantization_range frame AND 0x3) OR
                           push_bit 4 (content_type frame AND 0x3) OR (ucast (pixel_repeat frame) AND 0xf)) :: u8
           in do {
             b \<leftarrow> buf_puts 0 (hdmi_header (frame_type frame) (frame_version frame) (frame_length frame))
                    (replicate size 0);
             b \<leftarrow> buf_puts HDMI_INFOFRAME_HEADER_SIZE
                    [p0, p1, p2, p3, p4,
                     ucast (top_bar frame AND 0xff), ucast (drop_bit 8 (top_bar frame) AND 0xff),
                     ucast (bottom_bar frame AND 0xff), ucast (drop_bit 8 (bottom_bar frame) AND 0xff),
                     ucast (left_bar frame AND 0xff), ucast (drop_bit 8 (left_bar frame) AND 0xff),
                     ucast (right_bar frame AND 0xff), ucast (drop_bit 8 (right_bar frame) AND 0xff)] b;
             b \<leftarrow> hdmi_infoframe_set_checksum b len;
             Some (Inr (len, b))
           })"

definition hdmi_spd_infoframe_pack :: "hdmi_spd_infoframe \<Rightarrow> u8 list \<Rightarrow> (errno + nat \<times> u8 list) option" where
  "hdmi_spd_infoframe_pack frame buffer =
     (let size = length buffer;
          len = HDMI_INFOFRAME_HEADER_SIZE + unat (frame_length frame)
      in if size < len then Some (Inl ENOSPC)
         else do {
           b \<leftarrow> buf_puts 0 (hdmi_header (frame_type frame) (frame_version frame) (frame_length frame))
                  (replicate size 0);
           b \<leftarrow> buf_puts HDMI_INFOFRAME_HEADER_SIZE (spd_vendor frame) b;
           b \<leftarrow> buf_puts (HDMI_INFOFRAME_HEADER_SIZE + 8) (spd_product frame) b;
           b \<leftarrow> buf_put (HDMI_INFOFRAME_HEADER_SIZE + 24) (ucast (spd_sdi frame)) b;
           b \<leftarrow> hdmi_infoframe_set_checksum b len;
           Some (Inr (len, b))
         })"

definition hdmi_audio_infoframe_pack :: "hdmi_audio_infoframe \<Rightarrow> u8 list \<Rightarrow> (errno + nat \<times> u8 list) option" where
  "hdmi_audio_infoframe_pack frame buffer =
     (let size = length buffer;
          len = HDMI_INFOFRAME_HEADER_SIZE + unat (frame_length frame)
      in if size < len then Some (Inl ENOSPC)
         else
           let channels = (if audio_channels frame \<ge> 2 then audio_channels frame - 1 else 0);
               p0 = ucast (push_bit 4 (coding_type frame AND 0xf) OR (ucast channels AND 0x7)) :: u8;
               p1 = ucast (push_bit 2 (sample_frequency frame AND 0x7) OR (sample_size frame AND 0x3)) :: u8;
               p2 = ucast (coding_type_ext frame AND 0x1f) :: u8;
               p3 = channel_allocation frame;
               p4 = ucast (push_bit 3 (ucast (level_shift_value frame) AND 0xf) :: u32) :: u8;
               p4 = (if downmix_inhibit frame then p4 OR BIT 7 else p4)
           in do {
             b \<leftarrow> buf_puts 0 (hdmi_header (frame_type frame) (frame_version frame) (frame_length frame))
                    (replicate size 0);
             b \<leftarrow> buf_puts HDMI_INFOFRAME_HEADER_SIZE [p0, p1, p2, p3, p4] b;
             b \<leftarrow> hdmi_infoframe_set_checksum b len;
             Some (Inr (len, b))
           })"

text \<open>
  \<^verbatim>\<open>hdmi_vendor_infoframe_pack\<close> also stores the length in the frame, which is part of the result on success; that it
  is stored before the buffer turns out too small is not visible here. \<^verbatim>\<open>enum hdmi_3d_structure\<close> has the
  enumerator -1, so it is signed and so is the comparison.
\<close>

definition hdmi_vendor_infoframe_pack ::
    "hdmi_vendor_infoframe \<Rightarrow> u8 list \<Rightarrow> (errno + nat \<times> u8 list \<times> hdmi_vendor_infoframe) option" where
  "hdmi_vendor_infoframe_pack frame buffer =
     (if vic frame = 0 \<and> s3d_struct frame = HDMI_3D_STRUCTURE_INVALID then Some (Inl EINVAL)
      else if vic frame \<noteq> 0 \<and> s3d_struct frame \<noteq> HDMI_3D_STRUCTURE_INVALID then Some (Inl EINVAL)
      else
        let half = (sint (s3d_struct frame) \<ge> sint HDMI_3D_STRUCTURE_SIDE_BY_SIDE_HALF);
            frame = frame\<lparr>frame_length := (if half then 6 else 5)\<rparr>;
            size = length buffer;
            len = HDMI_INFOFRAME_HEADER_SIZE + unat (frame_length frame)
        in if size < len then Some (Inl ENOSPC)
           else do {
             b \<leftarrow> buf_puts 0 (hdmi_header (frame_type frame) (frame_version frame) (frame_length frame))
                    (replicate size 0);
             b \<leftarrow> buf_puts 4 [0x03, 0x0c, 0x00] b;
             b \<leftarrow> (if vic frame \<noteq> 0 then buf_puts 7 [push_bit 5 1, vic frame] b
                  else do {
                    b \<leftarrow> buf_puts 7 [push_bit 5 2, ucast (push_bit 4 (s3d_struct frame AND 0xf))] b;
                    if half then buf_put 9 (ucast (push_bit 4 (s3d_ext_data frame AND 0xf))) b else Some b
                  });
             b \<leftarrow> hdmi_infoframe_set_checksum b len;
             Some (Inr (len, b, frame))
           })"

definition hdmi_vendor_any_infoframe_pack ::
    "hdmi_vendor_infoframe \<Rightarrow> u8 list \<Rightarrow> (errno + nat \<times> u8 list \<times> hdmi_vendor_infoframe) option" where
  "hdmi_vendor_any_infoframe_pack frame buffer =
     (if oui frame \<noteq> HDMI_IEEE_OUI then Some (Inl EINVAL) else hdmi_vendor_infoframe_pack frame buffer)"

definition hdmi_infoframe_any :: "hdmi_infoframe \<Rightarrow> u32" where
  "hdmi_infoframe_any frame =
     (case frame of IF_avi f \<Rightarrow> frame_type f | IF_spd f \<Rightarrow> frame_type f
      | IF_audio f \<Rightarrow> frame_type f | IF_vendor f \<Rightarrow> frame_type f)"

text \<open>
  \<^verbatim>\<open>hdmi_infoframe_pack\<close> dispatches on the type that the frame states; where that is not the member
  that was written the bytes would be read as another structure, which is \<open>None\<close> here.
\<close>

definition hdmi_infoframe_pack ::
    "hdmi_infoframe \<Rightarrow> u8 list \<Rightarrow> (errno + nat \<times> u8 list \<times> hdmi_infoframe) option" where
  "hdmi_infoframe_pack frame buffer =
     (let ty = hdmi_infoframe_any frame;
          keep = map_option (map_sum id (\<lambda>(n, b). (n, b, frame)))
      in if ty = HDMI_INFOFRAME_TYPE_AVI then
           (case frame of IF_avi f \<Rightarrow> keep (hdmi_avi_infoframe_pack f buffer) | _ \<Rightarrow> None)
         else if ty = HDMI_INFOFRAME_TYPE_SPD then
           (case frame of IF_spd f \<Rightarrow> keep (hdmi_spd_infoframe_pack f buffer) | _ \<Rightarrow> None)
         else if ty = HDMI_INFOFRAME_TYPE_AUDIO then
           (case frame of IF_audio f \<Rightarrow> keep (hdmi_audio_infoframe_pack f buffer) | _ \<Rightarrow> None)
         else if ty = HDMI_INFOFRAME_TYPE_VENDOR then
           (case frame of
              IF_vendor f \<Rightarrow> map_option (map_sum id (\<lambda>(n, b, f). (n, b, IF_vendor f)))
                               (hdmi_vendor_any_infoframe_pack f buffer)
            | _ \<Rightarrow> None)
         else Some (Inl EINVAL))"

section \<open>Unpacking\<close>

text \<open>The tests on the bytes of a header, which stop at the first that fails.\<close>

fun buf_tests :: "nat \<Rightarrow> (u8 \<Rightarrow> bool) list \<Rightarrow> u8 list \<Rightarrow> bool option" where
  "buf_tests i [] buffer = Some True"
| "buf_tests i (test # tests) buffer =
     do { x \<leftarrow> buf_get i buffer; if test x then buf_tests (Suc i) tests buffer else Some False }"

definition hdmi_avi_infoframe_unpack :: "u8 list \<Rightarrow> (errno + hdmi_avi_infoframe) option" where
  "hdmi_avi_infoframe_unpack buffer =
     do {
       ok \<leftarrow> buf_tests 0 [\<lambda>t. ucast t = HDMI_INFOFRAME_TYPE_AVI, \<lambda>v. v = 2, \<lambda>l. unat l = HDMI_AVI_INFOFRAME_SIZE] buffer;
       if \<not> ok then Some (Inl EINVAL)
       else do {
         csum \<leftarrow> hdmi_infoframe_checksum buffer (HDMI_INFOFRAME_HEADER_SIZE + HDMI_AVI_INFOFRAME_SIZE);
         if csum \<noteq> 0 then Some (Inl EINVAL)
         else
           let ptr = (\<lambda>i. buffer ! (HDMI_INFOFRAME_HEADER_SIZE + i));
               u32 = (\<lambda>i. ucast (ptr i) :: u32);
               u16 = (\<lambda>i. push_bit 8 (ucast (ptr i)) + ucast (ptr (i + 1)) :: u16);
               f = hdmi_avi_infoframe_init;
               f = f\<lparr>colorspace := drop_bit 5 (u32 0) AND 0x3\<rparr>;
               f = (if ptr 0 AND 0x10 \<noteq> 0 then f\<lparr>active_aspect := u32 1 AND 0xf\<rparr> else f);
               f = (if ptr 0 AND 0x8 \<noteq> 0 then f\<lparr>top_bar := u16 5, bottom_bar := u16 7\<rparr> else f);
               f = (if ptr 0 AND 0x4 \<noteq> 0 then f\<lparr>left_bar := u16 9, right_bar := u16 11\<rparr> else f)
           in Some (Inr (f\<lparr>scan_mode := u32 0 AND 0x3,
                colorimetry := drop_bit 6 (u32 1) AND 0x3,
                picture_aspect := drop_bit 4 (u32 1) AND 0x3,
                active_aspect := u32 1 AND 0xf,
                itc := ptr 2 AND 0x80 \<noteq> 0,
                extended_colorimetry := drop_bit 4 (u32 2) AND 0x7,
                quantization_range := drop_bit 2 (u32 2) AND 0x3,
                nups := u32 2 AND 0x3,
                video_code := ptr 3 AND 0x7f,
                ycc_quantization_range := drop_bit 6 (u32 4) AND 0x3,
                content_type := drop_bit 4 (u32 4) AND 0x3,
                pixel_repeat := ptr 4 AND 0xf\<rparr>))
       }
     }"

definition hdmi_spd_infoframe_unpack :: "u8 list \<Rightarrow> (errno + hdmi_spd_infoframe) option" where
  "hdmi_spd_infoframe_unpack buffer =
     do {
       ok \<leftarrow> buf_tests 0 [\<lambda>t. ucast t = HDMI_INFOFRAME_TYPE_SPD, \<lambda>v. v = 1, \<lambda>l. unat l = HDMI_SPD_INFOFRAME_SIZE] buffer;
       if \<not> ok then Some (Inl EINVAL)
       else do {
         csum \<leftarrow> hdmi_infoframe_checksum buffer (HDMI_INFOFRAME_HEADER_SIZE + HDMI_SPD_INFOFRAME_SIZE);
         if csum \<noteq> 0 then Some (Inl EINVAL)
         else
           let ptr = drop HDMI_INFOFRAME_HEADER_SIZE buffer
           in Some (Inr ((hdmi_spd_infoframe_init ptr (drop 8 ptr))\<lparr>spd_sdi := ucast (ptr ! 24)\<rparr>))
       }
     }"

definition hdmi_audio_infoframe_unpack :: "u8 list \<Rightarrow> (errno + hdmi_audio_infoframe) option" where
  "hdmi_audio_infoframe_unpack buffer =
     do {
       ok \<leftarrow> buf_tests 0 [\<lambda>t. ucast t = HDMI_INFOFRAME_TYPE_AUDIO, \<lambda>v. v = 1, \<lambda>l. unat l = HDMI_AUDIO_INFOFRAME_SIZE] buffer;
       if \<not> ok then Some (Inl EINVAL)
       else do {
         csum \<leftarrow> hdmi_infoframe_checksum buffer (HDMI_INFOFRAME_HEADER_SIZE + HDMI_AUDIO_INFOFRAME_SIZE);
         if csum \<noteq> 0 then Some (Inl EINVAL)
         else
           let ptr = (\<lambda>i. buffer ! (HDMI_INFOFRAME_HEADER_SIZE + i));
               u32 = (\<lambda>i. ucast (ptr i) :: u32)
           in Some (Inr (hdmi_audio_infoframe_init\<lparr>
                audio_channels := ptr 0 AND 0x7,
                coding_type := drop_bit 4 (u32 0) AND 0xf,
                sample_size := u32 1 AND 0x3,
                sample_frequency := drop_bit 2 (u32 1) AND 0x7,
                coding_type_ext := u32 2 AND 0x1f,
                channel_allocation := ptr 3,
                level_shift_value := drop_bit 3 (ptr 4) AND 0xf,
                downmix_inhibit := ptr 4 AND 0x80 \<noteq> 0\<rparr>))
       }
     }"

definition hdmi_vendor_any_infoframe_unpack :: "u8 list \<Rightarrow> (errno + hdmi_vendor_infoframe) option" where
  "hdmi_vendor_any_infoframe_unpack buffer =
     do {
       ok \<leftarrow> buf_tests 0 [\<lambda>t. ucast t = HDMI_INFOFRAME_TYPE_VENDOR, \<lambda>v. v = 1, \<lambda>l. l = 5 \<or> l = 6] buffer;
       if \<not> ok then Some (Inl EINVAL)
       else do {
         l \<leftarrow> buf_get 2 buffer;
         csum \<leftarrow> hdmi_infoframe_checksum buffer (HDMI_INFOFRAME_HEADER_SIZE + unat l);
         if csum \<noteq> 0 then Some (Inl EINVAL)
         else
           let ptr = (\<lambda>i. buffer ! (HDMI_INFOFRAME_HEADER_SIZE + i));
               hdmi_video_format = drop_bit 5 (ptr 3)
           in if ptr 0 \<noteq> 0x03 \<or> ptr 1 \<noteq> 0x0c \<or> ptr 2 \<noteq> 0x00 then Some (Inl EINVAL)
              else if hdmi_video_format > 2 then Some (Inl EINVAL)
              else
                let hvf = hdmi_vendor_infoframe_init\<lparr>frame_length := l\<rparr>
                in if hdmi_video_format = 1 then Some (Inr (hvf\<lparr>vic := ptr 4\<rparr>))
                   else if hdmi_video_format = 2 then
                     let hvf = hvf\<lparr>s3d_struct := drop_bit 4 (ucast (ptr 4))\<rparr>
                     in if sint (s3d_struct hvf) \<ge> sint HDMI_3D_STRUCTURE_SIDE_BY_SIDE_HALF then
                          (if l = 6 then Some (Inr (hvf\<lparr>s3d_ext_data := drop_bit 4 (ucast (ptr 5))\<rparr>))
                           else Some (Inl EINVAL))
                        else Some (Inr hvf)
                   else Some (Inr hvf)
       }
     }"

definition hdmi_infoframe_unpack :: "u8 list \<Rightarrow> (errno + hdmi_infoframe) option" where
  "hdmi_infoframe_unpack buffer =
     do {
       t \<leftarrow> buf_get 0 buffer;
       if ucast t = HDMI_INFOFRAME_TYPE_AVI then map_option (map_sum id IF_avi) (hdmi_avi_infoframe_unpack buffer)
       else if ucast t = HDMI_INFOFRAME_TYPE_SPD then map_option (map_sum id IF_spd) (hdmi_spd_infoframe_unpack buffer)
       else if ucast t = HDMI_INFOFRAME_TYPE_AUDIO then map_option (map_sum id IF_audio) (hdmi_audio_infoframe_unpack buffer)
       else if ucast t = HDMI_INFOFRAME_TYPE_VENDOR then
         map_option (map_sum id IF_vendor) (hdmi_vendor_any_infoframe_unpack buffer)
       else Some (Inl EINVAL)
     }"

end
