(* ===== verification/HDMI_Correct.thy ===== *)
theory HDMI_Correct
  imports HDMI
begin

text \<open>
  Packing and unpacking infoframes: the checksum makes the bytes of a frame add up to zero and detects
  every corrupted byte, and what unpacking a packed frame gives back, field by field.
\<close>

unbundle bit_operations_syntax

lemma buf_tests_header [simp]:
  "buf_tests 0 [p, q, r] b =
     do { t \<leftarrow> buf_get 0 b;
          if p t then do { v \<leftarrow> buf_get 1 b; if q v then do { l \<leftarrow> buf_get 2 b; Some (r l) } else Some False }
          else Some False }"
  by (cases "buf_get 0 b"; cases "buf_get 1 b"; cases "buf_get 2 b") (simp_all add: numeral_2_eq_2)

declare buf_tests.simps [simp del]

section \<open>Bit fields\<close>

text \<open>Masks as truncations, and tests of single bits.\<close>

lemma bit_BIT: "bit (BIT n :: 'a::len word) m \<longleftrightarrow> m = n \<and> n < LENGTH('a)"
  by (auto simp: BIT_def bit_simps)

lemma word_masks:
  fixes x :: "'a::len word"
  shows "x AND 3 = take_bit 2 x" "x AND 7 = take_bit 3 x" "x AND 15 = take_bit 4 x"
    "x AND 31 = take_bit 5 x" "x AND 127 = take_bit 7 x" "x AND 255 = take_bit 8 x"
  by (simp_all add: take_bit_eq_mask mask_eq_exp_minus_1)

lemma word_bit_tests:
  fixes x :: "'a::len word"
  shows "x AND 4 = 0 \<longleftrightarrow> \<not> bit x 2" "x AND 8 = 0 \<longleftrightarrow> \<not> bit x 3" "x AND 16 = 0 \<longleftrightarrow> \<not> bit x 4"
    "x AND 128 = 0 \<longleftrightarrow> \<not> bit x 7"
  by (simp_all add: bit_iff_and_push_bit_not_eq_0)

lemma take_bit_less: "unat x < 2 ^ n \<Longrightarrow> take_bit n x = x" for x :: "'a::len word"
  by (simp add: word_unat_eq_iff unsigned_take_bit_eq take_bit_nat_eq_self)

lemma word_fields:
  fixes x :: u32 and y :: u8
  shows "x < 4 \<Longrightarrow> take_bit 2 x = x" "x < 8 \<Longrightarrow> take_bit 3 x = x" "x < 16 \<Longrightarrow> take_bit 4 x = x"
    "x < 32 \<Longrightarrow> take_bit 5 x = x" "y < 128 \<Longrightarrow> take_bit 7 y = y" "y < 16 \<Longrightarrow> take_bit 4 y = y"
  by (auto simp: word_less_nat_alt intro!: take_bit_less)

lemma ucast_u8: "ucast (ucast x :: u8) = take_bit 8 x" for x :: u32
  by (rule bit_word_eqI) (auto simp: bit_simps)

text \<open>Two bytes stored with the low one first and read with the high one first.\<close>

definition swap16 :: "u16 \<Rightarrow> u16" where
  "swap16 x = push_bit 8 x OR drop_bit 8 x"

lemma swap16_bytes:
  "push_bit 8 (ucast (ucast (x AND 255) :: u8)) + ucast (ucast (drop_bit 8 x AND 255) :: u8) = swap16 x"
proof -
  have *: "bit x (8 + n) \<Longrightarrow> n < 8" for n
    using bit_imp_le_length [of x "8 + n"] by simp
  show ?thesis
    unfolding swap16_def
  proof (subst disjunctive_add)
    show "push_bit 8 (ucast (ucast (x AND 255) :: u8)) OR ucast (ucast (drop_bit 8 x AND 255) :: u8) =
        push_bit 8 x OR drop_bit 8 x"
      by (rule bit_word_eqI) (use * in \<open>auto simp: bit_simps word_masks less_diff_conv2\<close>)
  qed (auto simp: bit_simps word_masks)
qed

lemma swap16_0: "swap16 0 = 0"
  by (simp add: swap16_def)

lemma swap16_swap16: "swap16 (swap16 x) = x"
  by (rule bit_word_eqI) (auto simp: swap16_def bit_simps)

section \<open>Buffers and the checksum\<close>

lemma buf_puts_append:
  "length bs = length ys \<Longrightarrow> buf_puts (length xs) bs (xs @ ys @ zs) = Some (xs @ bs @ zs)"
proof (induction bs arbitrary: xs ys)
  case (Cons b bs)
  then obtain y ys' where ys: "ys = y # ys'" by (cases ys) auto
  with Cons.IH [of ys' "xs @ [b]"] Cons.prems show ?case by (simp add: buf_put_def)
qed simp

lemma fold_sum_list: "fold (\<lambda>b csum. csum + b) xs a = a + sum_list xs" for a :: u8
  by (induction xs arbitrary: a) (simp_all add: ac_simps)

lemma hdmi_checksum_byte: "ucast ((256::u32) - ucast (s :: u8)) = - s"
proof -
  have "((256 - uint s) mod 2 ^ 32) mod 256 = (256 - uint s) mod 256" by (simp add: mod_mod_cancel)
  also have "\<dots> = (- uint s) mod 256" by (metis diff_0 minus_mod_self1 mod_add_self2 uminus_add_conv_diff add.commute)
  finally show ?thesis
    by (simp add: word_uint_eq_iff uint_word_ariths unsigned_ucast_eq take_bit_eq_mod mod_diff_right_eq)
qed

lemma hdmi_infoframe_checksum_eq:
  "hdmi_infoframe_checksum buf n = (if n \<le> length buf then Some (- sum_list (take n buf)) else None)"
  by (simp add: hdmi_infoframe_checksum_def fold_sum_list hdmi_checksum_byte)

lemma take_header: "take (4 + m) ([a, b, c, d] @ xs) = [a, b, c, d] @ take m xs"
  by (simp add: numeral_eq_Suc)

lemma sum_list_zeros: "sum_list (take m (replicate k (0 :: 'a::comm_monoid_add))) = 0"
proof -
  have "sum_list (replicate j (0 :: 'a)) = 0" for j by (induction j) simp_all
  then show ?thesis by simp
qed

text \<open>The bytes that every pack function ends with: header, payload, zeros.\<close>

definition hdmi_bytes :: "u32 \<Rightarrow> u8 \<Rightarrow> u8 \<Rightarrow> u8 list \<Rightarrow> nat \<Rightarrow> u8 list" where
  "hdmi_bytes ty ver len payload sz =
     [ucast ty, ver, len, - (ucast ty + ver + len + sum_list payload)] @ payload @
     replicate (sz - 4 - length payload) 0"

lemma hdmi_set_checksum:
  assumes "4 + length payload \<le> n" and "n \<le> sz"
  shows "hdmi_infoframe_set_checksum (hdmi_header ty ver len @ payload @ replicate (sz - 4 - length payload) 0) n =
    Some (hdmi_bytes ty ver len payload sz)"
proof -
  obtain k where n: "n = 4 + (length payload + k)" using assms(1) by (metis le_Suc_ex add.assoc)
  let ?b = "hdmi_header ty ver len @ payload @ replicate (sz - 4 - length payload) 0"
  have "sum_list (take n ?b) = ucast ty + ver + len + sum_list payload"
    unfolding n hdmi_header_def take_header by (simp add: sum_list_zeros ac_simps del: take_replicate)
  moreover have "length ?b = sz" using assms by (simp add: hdmi_header_def)
  ultimately show ?thesis
    using assms(2) by (simp add: hdmi_infoframe_set_checksum_def hdmi_infoframe_checksum_eq buf_put_def)
      (simp add: hdmi_header_def hdmi_bytes_def numeral_3_eq_3)
qed

lemma hdmi_puts_header:
  assumes "4 \<le> sz"
  shows "buf_puts 0 (hdmi_header ty ver len) (replicate sz 0) = Some (hdmi_header ty ver len @ replicate (sz - 4) 0)"
proof -
  have "replicate sz (0::u8) = [] @ replicate 4 0 @ replicate (sz - 4) 0"
    using assms by (simp add: replicate_add [symmetric])
  then show ?thesis
    using buf_puts_append [of "hdmi_header ty ver len" "replicate 4 0" "[]" "replicate (sz - 4) 0"]
    by (simp add: hdmi_header_def)
qed

lemma hdmi_puts_payload:
  assumes "4 + length payload \<le> sz"
  shows "buf_puts HDMI_INFOFRAME_HEADER_SIZE payload (hdmi_header ty ver len @ replicate (sz - 4) 0) =
    Some (hdmi_header ty ver len @ payload @ replicate (sz - 4 - length payload) 0)"
proof -
  have "replicate (sz - 4) (0::u8) = replicate (length payload) 0 @ replicate (sz - 4 - length payload) 0"
    using assms by (simp add: replicate_add [symmetric])
  then show ?thesis
    using buf_puts_append [of payload "replicate (length payload) 0" "hdmi_header ty ver len"
        "replicate (sz - 4 - length payload) 0"]
    by (simp add: hdmi_header_def hdmi_consts numeral_eq_Suc)
qed

text \<open>The common end of the pack functions.\<close>

lemma hdmi_pack_bytes:
  assumes "4 + length payload \<le> n" and "n \<le> sz"
  shows "do { b \<leftarrow> buf_puts 0 (hdmi_header ty ver len) (replicate sz 0);
      b \<leftarrow> buf_puts HDMI_INFOFRAME_HEADER_SIZE payload b;
      b \<leftarrow> hdmi_infoframe_set_checksum b n;
      Some (Inr (n, g b)) } = Some (Inr (n, g (hdmi_bytes ty ver len payload sz)))"
proof -
  have "4 + length payload \<le> sz" using assms by simp
  then show ?thesis
    using hdmi_set_checksum [OF assms] by (simp add: hdmi_puts_header hdmi_puts_payload)
qed

lemma buf_puts_app: "buf_puts i (xs @ ys) = (\<lambda>buf. buf_puts i xs buf \<bind> buf_puts (i + length xs) ys)"
proof (induction xs arbitrary: i)
  case (Cons x xs)
  then show ?case by simp
qed simp

lemma buf_puts_single: "buf_puts i [x] = buf_put i x"
proof
  show "buf_puts i [x] b = buf_put i x b" for b by (cases "buf_put i x b") simp_all
qed

lemma buf_puts_fun: "buf_puts i [] = Some" "buf_puts i (x # xs) = (\<lambda>buf. buf_put i x buf \<bind> buf_puts (Suc i) xs)"
  by (rule ext, simp)+

lemma hdmi_bytes_checksum:
  assumes "4 + length payload \<le> n" and "n \<le> sz"
  shows "hdmi_infoframe_checksum (hdmi_bytes ty ver len payload sz) n = Some 0"
proof -
  obtain k where n: "n = 4 + (length payload + k)" using assms(1) by (metis le_Suc_ex add.assoc)
  have "sum_list (take n (hdmi_bytes ty ver len payload sz)) = 0"
    unfolding n hdmi_bytes_def take_header by (simp add: sum_list_zeros del: take_replicate)
  with assms show ?thesis by (simp add: hdmi_infoframe_checksum_eq hdmi_bytes_def)
qed

lemma hdmi_bytes_nth:
  "hdmi_bytes ty ver len payload sz ! 0 = ucast ty" "hdmi_bytes ty ver len payload sz ! 1 = ver"
  "hdmi_bytes ty ver len payload sz ! 2 = len"
  "i < length payload \<Longrightarrow> hdmi_bytes ty ver len payload sz ! (4 + i) = payload ! i"
  by (simp_all add: hdmi_bytes_def numeral_2_eq_2 nth_append)

lemma hdmi_bytes_get:
  "buf_get 0 (hdmi_bytes ty ver len payload sz) = Some (ucast ty)"
  "buf_get 1 (hdmi_bytes ty ver len payload sz) = Some ver"
  "buf_get 2 (hdmi_bytes ty ver len payload sz) = Some len"
  by (simp_all add: buf_get_def hdmi_bytes_def numeral_2_eq_2)

lemma hdmi_type_bytes:
  "(ucast (ucast HDMI_INFOFRAME_TYPE_AVI :: u8) :: u32) = HDMI_INFOFRAME_TYPE_AVI"
  "(ucast (ucast HDMI_INFOFRAME_TYPE_SPD :: u8) :: u32) = HDMI_INFOFRAME_TYPE_SPD"
  "(ucast (ucast HDMI_INFOFRAME_TYPE_AUDIO :: u8) :: u32) = HDMI_INFOFRAME_TYPE_AUDIO"
  "(ucast (ucast HDMI_INFOFRAME_TYPE_VENDOR :: u8) :: u32) = HDMI_INFOFRAME_TYPE_VENDOR"
  by (simp_all add: hdmi_consts)

lemmas hdmi_sizes = HDMI_INFOFRAME_HEADER_SIZE_def HDMI_AVI_INFOFRAME_SIZE_def HDMI_SPD_INFOFRAME_SIZE_def
  HDMI_AUDIO_INFOFRAME_SIZE_def

section \<open>AVI infoframes\<close>

text \<open>The payload of a packed AVI infoframe.\<close>

definition hdmi_avi_payload :: "hdmi_avi_infoframe \<Rightarrow> u8 list" where
  "hdmi_avi_payload f =
     (let p0 = ucast (push_bit 5 (colorspace f AND 3) OR (scan_mode f AND 3)) :: u8;
          p0 = (if active_aspect f AND 15 \<noteq> 0 then p0 OR BIT 4 else p0);
          p0 = (if top_bar f \<noteq> 0 \<or> bottom_bar f \<noteq> 0 then p0 OR BIT 3 else p0);
          p0 = (if left_bar f \<noteq> 0 \<or> right_bar f \<noteq> 0 then p0 OR BIT 2 else p0);
          p2 = ucast (push_bit 4 (extended_colorimetry f AND 7) OR
                      push_bit 2 (quantization_range f AND 3) OR (nups f AND 3))
      in [p0,
          ucast (push_bit 6 (colorimetry f AND 3) OR push_bit 4 (picture_aspect f AND 3) OR (active_aspect f AND 15)),
          if itc f then p2 OR BIT 7 else p2,
          video_code f AND 127,
          ucast (push_bit 6 (ycc_quantization_range f AND 3) OR push_bit 4 (content_type f AND 3) OR
            (ucast (pixel_repeat f) AND 15)),
          ucast (top_bar f AND 255), ucast (drop_bit 8 (top_bar f) AND 255),
          ucast (bottom_bar f AND 255), ucast (drop_bit 8 (bottom_bar f) AND 255),
          ucast (left_bar f AND 255), ucast (drop_bit 8 (left_bar f) AND 255),
          ucast (right_bar f AND 255), ucast (drop_bit 8 (right_bar f) AND 255)])"

lemma hdmi_avi_payload_length: "length (hdmi_avi_payload f) = 13"
  by (simp add: hdmi_avi_payload_def Let_def)

lemma hdmi_avi_pack_steps:
  assumes "4 + unat (frame_length f) \<le> length buffer"
  shows "hdmi_avi_infoframe_pack f buffer = do {
      b \<leftarrow> buf_puts 0 (hdmi_header (frame_type f) (frame_version f) (frame_length f)) (replicate (length buffer) 0);
      b \<leftarrow> buf_puts HDMI_INFOFRAME_HEADER_SIZE (hdmi_avi_payload f) b;
      b \<leftarrow> hdmi_infoframe_set_checksum b (4 + unat (frame_length f));
      Some (Inr (4 + unat (frame_length f), b)) }"
proof -
  have n: "HDMI_INFOFRAME_HEADER_SIZE + unat (frame_length f) = 4 + unat (frame_length f)" by (simp add: hdmi_sizes)
  show ?thesis
    unfolding hdmi_avi_infoframe_pack_def hdmi_avi_payload_def Let_def n
    using assms by (simp only: not_less [symmetric] if_False)
qed

lemma hdmi_avi_pack_bytes:
  assumes "frame_length f = 13" and "17 \<le> length buffer"
  shows "hdmi_avi_infoframe_pack f buffer =
    Some (Inr (17, hdmi_bytes (frame_type f) (frame_version f) 13 (hdmi_avi_payload f) (length buffer)))"
  using assms hdmi_avi_pack_steps [of f buffer]
    hdmi_pack_bytes [of "hdmi_avi_payload f" 17 "length buffer" "frame_type f" "frame_version f" 13 "\<lambda>b. b"]
  by (simp add: hdmi_avi_payload_length)

lemmas hdmi_bits = bit_simps bit_BIT word_masks word_bit_tests

text \<open>An AVI infoframe as \<^verbatim>\<open>hdmi_avi_infoframe_init\<close> sets it up, every field within its bits.\<close>

definition hdmi_avi_fits :: "hdmi_avi_infoframe \<Rightarrow> bool" where
  "hdmi_avi_fits f \<longleftrightarrow>
     frame_type f = HDMI_INFOFRAME_TYPE_AVI \<and> frame_version f = 2 \<and> frame_length f = 13 \<and>
     colorspace f < 4 \<and> scan_mode f < 4 \<and> colorimetry f < 4 \<and> picture_aspect f < 4 \<and> active_aspect f < 16 \<and>
     extended_colorimetry f < 8 \<and> quantization_range f < 4 \<and> nups f < 4 \<and> video_code f < 128 \<and>
     ycc_quantization_range f < 4 \<and> content_type f < 4 \<and> pixel_repeat f < 16"

lemma or_if_bit: "(if c then p OR BIT n else p) = p OR (if c then BIT n else 0)" for p :: u8
  by simp

lemma avi_byte0:
  fixes f defines "p \<equiv> hdmi_avi_payload f ! 0"
  shows "drop_bit 5 (ucast p :: u32) AND 3 = take_bit 2 (colorspace f)"
    "(ucast p :: u32) AND 3 = take_bit 2 (scan_mode f)"
    "p AND 8 = 0 \<longleftrightarrow> top_bar f = 0 \<and> bottom_bar f = 0"
    "p AND 4 = 0 \<longleftrightarrow> left_bar f = 0 \<and> right_bar f = 0"
  unfolding p_def hdmi_avi_payload_def Let_def or_if_bit
  by (auto simp: hdmi_bits intro!: bit_word_eqI)

lemma avi_byte1:
  fixes f defines "p \<equiv> hdmi_avi_payload f ! 1"
  shows "drop_bit 6 (ucast p :: u32) AND 3 = take_bit 2 (colorimetry f)"
    "drop_bit 4 (ucast p :: u32) AND 3 = take_bit 2 (picture_aspect f)"
    "(ucast p :: u32) AND 15 = take_bit 4 (active_aspect f)"
  unfolding p_def hdmi_avi_payload_def Let_def or_if_bit
  by (auto simp: hdmi_bits intro!: bit_word_eqI)

lemma avi_byte2:
  fixes f defines "p \<equiv> hdmi_avi_payload f ! 2"
  shows "p AND 128 = 0 \<longleftrightarrow> \<not> itc f"
    "drop_bit 4 (ucast p :: u32) AND 7 = take_bit 3 (extended_colorimetry f)"
    "drop_bit 2 (ucast p :: u32) AND 3 = take_bit 2 (quantization_range f)"
    "(ucast p :: u32) AND 3 = take_bit 2 (nups f)"
  unfolding p_def hdmi_avi_payload_def Let_def or_if_bit
  by (auto simp: hdmi_bits intro!: bit_word_eqI)

lemma avi_byte34:
  "(hdmi_avi_payload f ! 3) AND 127 = take_bit 7 (video_code f)"
  "drop_bit 6 (ucast (hdmi_avi_payload f ! 4) :: u32) AND 3 = take_bit 2 (ycc_quantization_range f)"
  "drop_bit 4 (ucast (hdmi_avi_payload f ! 4) :: u32) AND 3 = take_bit 2 (content_type f)"
  "(hdmi_avi_payload f ! 4) AND 15 = take_bit 4 (pixel_repeat f)"
  unfolding hdmi_avi_payload_def Let_def or_if_bit
  by (auto simp: hdmi_bits intro!: bit_word_eqI)

lemma avi_bars:
  fixes f defines "u \<equiv> \<lambda>i. push_bit 8 (ucast (hdmi_avi_payload f ! i)) + ucast (hdmi_avi_payload f ! (i + 1)) :: u16"
  shows "u 5 = swap16 (top_bar f)" "u 7 = swap16 (bottom_bar f)" "u 9 = swap16 (left_bar f)" "u 11 = swap16 (right_bar f)"
  unfolding u_def hdmi_avi_payload_def Let_def by (simp_all add: swap16_bytes [symmetric])

lemma hdmi_avi_unpack_bytes:
  assumes "hdmi_avi_fits f" and "17 \<le> sz"
  shows "hdmi_avi_infoframe_unpack (hdmi_bytes HDMI_INFOFRAME_TYPE_AVI 2 13 (hdmi_avi_payload f) sz) =
    Some (Inr (f\<lparr>top_bar := swap16 (top_bar f), bottom_bar := swap16 (bottom_bar f),
                 left_bar := swap16 (left_bar f), right_bar := swap16 (right_bar f)\<rparr>))"
proof -
  let ?b = "hdmi_bytes HDMI_INFOFRAME_TYPE_AVI 2 13 (hdmi_avi_payload f) sz"
  have c: "hdmi_infoframe_checksum ?b 17 = Some 0"
    using assms(2) by (intro hdmi_bytes_checksum) (simp_all add: hdmi_avi_payload_length)
  have p: "?b ! (4 + i) = hdmi_avi_payload f ! i" if "i < 13" for i
    using that by (simp only: hdmi_bytes_nth hdmi_avi_payload_length)
  have ps: "?b ! 4 = hdmi_avi_payload f ! 0" "?b ! 5 = hdmi_avi_payload f ! 1" "?b ! 6 = hdmi_avi_payload f ! 2"
    "?b ! 7 = hdmi_avi_payload f ! 3" "?b ! 8 = hdmi_avi_payload f ! 4" "?b ! 9 = hdmi_avi_payload f ! 5"
    "?b ! 10 = hdmi_avi_payload f ! 6" "?b ! 11 = hdmi_avi_payload f ! 7" "?b ! 12 = hdmi_avi_payload f ! 8"
    "?b ! 13 = hdmi_avi_payload f ! 9" "?b ! 14 = hdmi_avi_payload f ! 10" "?b ! 15 = hdmi_avi_payload f ! 11"
    "?b ! 16 = hdmi_avi_payload f ! 12"
    using p [of 0] p [of 1] p [of 2] p [of 3] p [of 4] p [of 5] p [of 6] p [of 7] p [of 8] p [of 9] p [of 10]
      p [of 11] p [of 12] by simp_all
  show ?thesis
    using assms(1) unfolding hdmi_avi_fits_def hdmi_avi_infoframe_unpack_def
    by (auto simp: hdmi_bytes_get hdmi_type_bytes ps c Let_def hdmi_sizes hdmi_avi_infoframe_init_def word_fields swap16_0
        avi_byte0 avi_byte1 avi_byte2 avi_byte34 avi_bars [simplified] simp del: One_nat_def)
qed

section \<open>Audio infoframes\<close>

definition hdmi_audio_payload :: "hdmi_audio_infoframe \<Rightarrow> u8 list" where
  "hdmi_audio_payload f =
     (let channels = (if audio_channels f \<ge> 2 then audio_channels f - 1 else 0);
          p4 = ucast (push_bit 3 (ucast (level_shift_value f) AND 15) :: u32) :: u8
      in [ucast (push_bit 4 (coding_type f AND 15) OR (ucast channels AND 7)),
          ucast (push_bit 2 (sample_frequency f AND 7) OR (sample_size f AND 3)),
          ucast (coding_type_ext f AND 31),
          channel_allocation f,
          if downmix_inhibit f then p4 OR BIT 7 else p4])"

lemma hdmi_audio_payload_length: "length (hdmi_audio_payload f) = 5"
  by (simp add: hdmi_audio_payload_def Let_def)

definition hdmi_audio_fits :: "hdmi_audio_infoframe \<Rightarrow> bool" where
  "hdmi_audio_fits f \<longleftrightarrow>
     frame_type f = HDMI_INFOFRAME_TYPE_AUDIO \<and> frame_version f = 1 \<and> frame_length f = 10 \<and>
     audio_channels f \<le> 8 \<and> coding_type f < 16 \<and> sample_size f < 4 \<and> sample_frequency f < 8 \<and>
     coding_type_ext f < 32 \<and> level_shift_value f < 16"

lemma hdmi_audio_pack_bytes:
  assumes "frame_length f = 10" and "14 \<le> length buffer"
  shows "hdmi_audio_infoframe_pack f buffer =
    Some (Inr (14, hdmi_bytes (frame_type f) (frame_version f) 10 (hdmi_audio_payload f) (length buffer)))"
proof -
  have n: "HDMI_INFOFRAME_HEADER_SIZE + unat (frame_length f) = 14" by (simp add: hdmi_sizes assms(1))
  have "hdmi_audio_infoframe_pack f buffer = do {
      b \<leftarrow> buf_puts 0 (hdmi_header (frame_type f) (frame_version f) (frame_length f)) (replicate (length buffer) 0);
      b \<leftarrow> buf_puts HDMI_INFOFRAME_HEADER_SIZE (hdmi_audio_payload f) b;
      b \<leftarrow> hdmi_infoframe_set_checksum b 14;
      Some (Inr (14, b)) }"
    unfolding hdmi_audio_infoframe_pack_def hdmi_audio_payload_def Let_def n
    using assms(2) by (simp only: not_less [symmetric] if_False)
  then show ?thesis
    using assms hdmi_pack_bytes [of "hdmi_audio_payload f" 14 "length buffer" "frame_type f" "frame_version f" 10 "\<lambda>b. b"]
    by (simp add: hdmi_audio_payload_length)
qed

text \<open>The number of channels that the receiver reads: one less than was set.\<close>

definition hdmi_audio_sent_channels :: "u8 \<Rightarrow> u8" where
  "hdmi_audio_sent_channels c = (if c \<ge> 2 then c - 1 else 0)"

lemma hdmi_audio_sent_less: "c \<le> 8 \<Longrightarrow> take_bit 3 (hdmi_audio_sent_channels c) = hdmi_audio_sent_channels c"
  unfolding hdmi_audio_sent_channels_def by (intro take_bit_less) (auto simp: word_le_nat_alt unat_sub)

lemma audio_bytes:
  "(hdmi_audio_payload f ! 0) AND 7 = take_bit 3 (hdmi_audio_sent_channels (audio_channels f))"
  "drop_bit 4 (ucast (hdmi_audio_payload f ! 0) :: u32) AND 15 = take_bit 4 (coding_type f)"
  "(ucast (hdmi_audio_payload f ! 1) :: u32) AND 3 = take_bit 2 (sample_size f)"
  "drop_bit 2 (ucast (hdmi_audio_payload f ! 1) :: u32) AND 7 = take_bit 3 (sample_frequency f)"
  "(ucast (hdmi_audio_payload f ! 2) :: u32) AND 31 = take_bit 5 (coding_type_ext f)"
  "hdmi_audio_payload f ! 3 = channel_allocation f"
  "drop_bit 3 (hdmi_audio_payload f ! 4) AND 15 = take_bit 4 (level_shift_value f)"
  "(hdmi_audio_payload f ! 4) AND 128 = 0 \<longleftrightarrow> \<not> downmix_inhibit f"
  unfolding hdmi_audio_payload_def Let_def or_if_bit hdmi_audio_sent_channels_def
  by (auto simp: hdmi_bits intro!: bit_word_eqI)

lemma hdmi_audio_unpack_bytes:
  assumes "hdmi_audio_fits f" and "14 \<le> sz"
  shows "hdmi_audio_infoframe_unpack (hdmi_bytes HDMI_INFOFRAME_TYPE_AUDIO 1 10 (hdmi_audio_payload f) sz) =
    Some (Inr (f\<lparr>audio_channels := hdmi_audio_sent_channels (audio_channels f)\<rparr>))"
proof -
  let ?b = "hdmi_bytes HDMI_INFOFRAME_TYPE_AUDIO 1 10 (hdmi_audio_payload f) sz"
  have c: "hdmi_infoframe_checksum ?b 14 = Some 0"
    using assms(2) by (intro hdmi_bytes_checksum) (simp_all add: hdmi_audio_payload_length)
  have p: "?b ! (4 + i) = hdmi_audio_payload f ! i" if "i < 5" for i
    using that by (simp only: hdmi_bytes_nth hdmi_audio_payload_length)
  have ps: "?b ! 4 = hdmi_audio_payload f ! 0" "?b ! 5 = hdmi_audio_payload f ! 1" "?b ! 6 = hdmi_audio_payload f ! 2"
    "?b ! 7 = hdmi_audio_payload f ! 3" "?b ! 8 = hdmi_audio_payload f ! 4"
    using p [of 0] p [of 1] p [of 2] p [of 3] p [of 4] by simp_all
  show ?thesis
    using assms(1) unfolding hdmi_audio_fits_def hdmi_audio_infoframe_unpack_def
    by (auto simp: hdmi_bytes_get hdmi_type_bytes ps c Let_def hdmi_sizes hdmi_audio_infoframe_init_def word_fields
        audio_bytes hdmi_audio_sent_less simp del: One_nat_def)
qed

section \<open>Source product descriptions\<close>

definition hdmi_spd_payload :: "hdmi_spd_infoframe \<Rightarrow> u8 list" where
  "hdmi_spd_payload f = spd_vendor f @ spd_product f @ [ucast (spd_sdi f)]"

text \<open>The two strings fill their arrays and are padded with zeros.\<close>

definition hdmi_spd_fits :: "hdmi_spd_infoframe \<Rightarrow> bool" where
  "hdmi_spd_fits f \<longleftrightarrow>
     frame_type f = HDMI_INFOFRAME_TYPE_SPD \<and> frame_version f = 1 \<and> frame_length f = 25 \<and>
     strncpy (spd_vendor f) 8 = spd_vendor f \<and> strncpy (spd_product f) 16 = spd_product f \<and> spd_sdi f < 256"

lemma strncpy_length: "length (strncpy s n) = n"
proof -
  have "length (takeWhile (\<lambda>c. c \<noteq> 0) (take n s)) \<le> n"
    by (rule order_trans [OF length_takeWhile_le]) simp
  then show ?thesis by (simp add: strncpy_def Let_def)
qed

lemma strncpy_append: "n \<le> length s \<Longrightarrow> strncpy (s @ t) n = strncpy s n"
  by (simp add: strncpy_def)

lemma strncpy_strncpy: "strncpy (strncpy s n) n = strncpy s n"
proof -
  define cs where "cs = takeWhile (\<lambda>c. c \<noteq> 0) (take n s)"
  have l: "length cs \<le> n" unfolding cs_def by (rule order_trans [OF length_takeWhile_le]) simp
  have "takeWhile (\<lambda>c. c \<noteq> 0) (cs @ replicate (n - length cs) 0) = cs"
    by (subst takeWhile_append2) (auto simp: cs_def dest: set_takeWhileD)
  with l show ?thesis by (simp add: strncpy_def Let_def flip: cs_def)
qed

lemma hdmi_spd_init_fits: "hdmi_spd_fits (hdmi_spd_infoframe_init v p)"
  by (simp add: hdmi_spd_fits_def hdmi_spd_infoframe_init_def strncpy_strncpy hdmi_sizes)

lemma hdmi_spd_lengths:
  "hdmi_spd_fits f \<Longrightarrow> length (spd_vendor f) = 8" "hdmi_spd_fits f \<Longrightarrow> length (spd_product f) = 16"
  using strncpy_length [of "spd_vendor f" 8] strncpy_length [of "spd_product f" 16]
  by (simp_all add: hdmi_spd_fits_def)

lemma hdmi_spd_pack_bytes:
  assumes "hdmi_spd_fits f" and "29 \<le> length buffer"
  shows "hdmi_spd_infoframe_pack f buffer =
    Some (Inr (29, hdmi_bytes HDMI_INFOFRAME_TYPE_SPD 1 25 (hdmi_spd_payload f) (length buffer)))"
proof -
  have f: "frame_type f = HDMI_INFOFRAME_TYPE_SPD" "frame_version f = 1" "frame_length f = 25"
    using assms(1) by (simp_all add: hdmi_spd_fits_def)
  have "buf_puts HDMI_INFOFRAME_HEADER_SIZE (hdmi_spd_payload f) b =
      do { b \<leftarrow> buf_puts HDMI_INFOFRAME_HEADER_SIZE (spd_vendor f) b;
           b \<leftarrow> buf_puts (HDMI_INFOFRAME_HEADER_SIZE + 8) (spd_product f) b;
           buf_put (HDMI_INFOFRAME_HEADER_SIZE + 24) (ucast (spd_sdi f)) b }" for b
    by (simp add: hdmi_spd_payload_def buf_puts_app buf_puts_single hdmi_spd_lengths [OF assms(1)] hdmi_sizes
        del: buf_puts.simps)
  then have "hdmi_spd_infoframe_pack f buffer = do {
      b \<leftarrow> buf_puts 0 (hdmi_header HDMI_INFOFRAME_TYPE_SPD 1 25) (replicate (length buffer) 0);
      b \<leftarrow> buf_puts HDMI_INFOFRAME_HEADER_SIZE (hdmi_spd_payload f) b;
      b \<leftarrow> hdmi_infoframe_set_checksum b 29;
      Some (Inr (29, b)) }"
    using assms(2) by (simp add: hdmi_spd_infoframe_pack_def f hdmi_sizes)
  also have "\<dots> = Some (Inr (29, hdmi_bytes HDMI_INFOFRAME_TYPE_SPD 1 25 (hdmi_spd_payload f) (length buffer)))"
    by (rule hdmi_pack_bytes [where g = "\<lambda>b. b"])
      (use assms(2) in \<open>simp_all add: hdmi_spd_payload_def hdmi_spd_lengths [OF assms(1)]\<close>)
  finally show ?thesis .
qed

lemma hdmi_spd_unpack_bytes:
  assumes f: "hdmi_spd_fits f" and "29 \<le> sz"
  shows "hdmi_spd_infoframe_unpack (hdmi_bytes HDMI_INFOFRAME_TYPE_SPD 1 25 (hdmi_spd_payload f) sz) = Some (Inr f)"
proof -
  let ?b = "hdmi_bytes HDMI_INFOFRAME_TYPE_SPD 1 25 (hdmi_spd_payload f) sz"
  have c: "hdmi_infoframe_checksum ?b 29 = Some 0"
    using assms(2) by (intro hdmi_bytes_checksum) (simp_all add: hdmi_spd_payload_def hdmi_spd_lengths [OF f])
  obtain z where d: "drop 4 ?b = spd_vendor f @ spd_product f @ ucast (spd_sdi f) # z"
    by (simp add: hdmi_bytes_def hdmi_spd_payload_def numeral_eq_Suc)
  have s: "(ucast (ucast (spd_sdi f) :: u8) :: u32) = spd_sdi f"
    using f take_bit_less [of "spd_sdi f" 8] by (simp add: hdmi_spd_fits_def word_less_nat_alt ucast_u8)
  show ?thesis
    using f unfolding hdmi_spd_infoframe_unpack_def
    by (simp add: hdmi_bytes_get hdmi_type_bytes c Let_def hdmi_sizes d hdmi_spd_infoframe_init_def strncpy_append
        hdmi_spd_lengths [OF f] s nth_append del: One_nat_def) (simp add: hdmi_spd_fits_def)
qed

section \<open>Vendor infoframes\<close>

text \<open>A frame that announces either a video code or a 3D structure, as the standard has it.\<close>

definition hdmi_vendor_fits :: "hdmi_vendor_infoframe \<Rightarrow> bool" where
  "hdmi_vendor_fits f \<longleftrightarrow>
     frame_type f = HDMI_INFOFRAME_TYPE_VENDOR \<and> frame_version f = 1 \<and> oui f = HDMI_IEEE_OUI \<and>
     (if vic f \<noteq> 0 then s3d_struct f = HDMI_3D_STRUCTURE_INVALID \<and> s3d_ext_data f = 0
      else s3d_struct f < 16 \<and> s3d_ext_data f < 16 \<and> (s3d_struct f < 8 \<longrightarrow> s3d_ext_data f = 0))"

definition hdmi_vendor_half :: "hdmi_vendor_infoframe \<Rightarrow> bool" where
  "hdmi_vendor_half f \<longleftrightarrow> sint (s3d_struct f) \<ge> sint HDMI_3D_STRUCTURE_SIDE_BY_SIDE_HALF"

definition hdmi_vendor_payload :: "hdmi_vendor_infoframe \<Rightarrow> u8 list" where
  "hdmi_vendor_payload f =
     [0x03, 0x0c, 0x00] @
     (if vic f \<noteq> 0 then [push_bit 5 1, vic f]
      else [push_bit 5 2, ucast (push_bit 4 (s3d_struct f AND 15))] @
        (if hdmi_vendor_half f then [ucast (push_bit 4 (s3d_ext_data f AND 15))] else []))"

definition hdmi_vendor_length :: "hdmi_vendor_infoframe \<Rightarrow> u8" where
  "hdmi_vendor_length f = (if hdmi_vendor_half f then 6 else 5)"

lemma sint_small: "uint x < 2 ^ 31 \<Longrightarrow> sint x = uint x" for x :: u32
proof -
  assume "uint x < 2 ^ 31"
  moreover have "- (2 ^ 31) \<le> uint x" by (rule order_trans [of _ 0]) simp_all
  ultimately show ?thesis by (simp add: sint_uint signed_take_bit_int_eq_self)
qed

lemma hdmi_3d_invalid: "\<not> sint HDMI_3D_STRUCTURE_SIDE_BY_SIDE_HALF \<le> sint HDMI_3D_STRUCTURE_INVALID"
  by (simp add: hdmi_consts)

lemma hdmi_vendor_half_iff:
  "hdmi_vendor_fits f \<Longrightarrow> hdmi_vendor_half f \<longleftrightarrow> vic f = 0 \<and> \<not> s3d_struct f < 8"
  by (auto simp: hdmi_vendor_fits_def hdmi_vendor_half_def hdmi_consts sint_small word_less_def not_less split: if_splits)

lemma hdmi_vendor_payload_length:
  "hdmi_vendor_fits f \<Longrightarrow> length (hdmi_vendor_payload f) = unat (hdmi_vendor_length f)"
  by (simp add: hdmi_vendor_payload_def hdmi_vendor_length_def hdmi_vendor_half_iff)

lemma hdmi_vendor_pack_bytes:
  assumes f: "hdmi_vendor_fits f" and b: "4 + unat (hdmi_vendor_length f) \<le> length buffer"
  shows "hdmi_vendor_any_infoframe_pack f buffer =
    Some (Inr (4 + unat (hdmi_vendor_length f),
      hdmi_bytes HDMI_INFOFRAME_TYPE_VENDOR 1 (hdmi_vendor_length f) (hdmi_vendor_payload f) (length buffer),
      f\<lparr>frame_length := hdmi_vendor_length f\<rparr>))"
proof -
  let ?f = "f\<lparr>frame_length := hdmi_vendor_length f\<rparr>"
  have h: "frame_type f = HDMI_INFOFRAME_TYPE_VENDOR" "frame_version f = 1" "oui f = HDMI_IEEE_OUI"
    "(vic f = 0) \<longleftrightarrow> s3d_struct f \<noteq> HDMI_3D_STRUCTURE_INVALID"
    using f by (auto simp: hdmi_vendor_fits_def hdmi_consts split: if_splits)
  have p: "buf_puts HDMI_INFOFRAME_HEADER_SIZE (hdmi_vendor_payload f) b =
      do { b \<leftarrow> buf_puts 4 [0x03, 0x0c, 0x00] b;
           if vic f \<noteq> 0 then buf_puts 7 [push_bit 5 1, vic f] b
           else do {
             b \<leftarrow> buf_puts 7 [push_bit 5 2, ucast (push_bit 4 (s3d_struct f AND 0xf))] b;
             if hdmi_vendor_half f then buf_put 9 (ucast (push_bit 4 (s3d_ext_data f AND 0xf))) b else Some b } }" for b
    unfolding hdmi_vendor_payload_def
    by (simp add: buf_puts_fun hdmi_sizes del: buf_puts.simps)
  have "hdmi_vendor_any_infoframe_pack f buffer = do {
      b \<leftarrow> buf_puts 0 (hdmi_header HDMI_INFOFRAME_TYPE_VENDOR 1 (hdmi_vendor_length f)) (replicate (length buffer) 0);
      b \<leftarrow> buf_puts HDMI_INFOFRAME_HEADER_SIZE (hdmi_vendor_payload f) b;
      b \<leftarrow> hdmi_infoframe_set_checksum b (4 + unat (hdmi_vendor_length f));
      Some (Inr (4 + unat (hdmi_vendor_length f), b, ?f)) }"
    using b hdmi_vendor_half_iff [OF f] unfolding p
    by (cases "hdmi_vendor_half f"; cases "vic f = 0") (simp_all add: hdmi_vendor_any_infoframe_pack_def hdmi_vendor_infoframe_pack_def h hdmi_sizes Let_def
        hdmi_vendor_length_def hdmi_3d_invalid flip: hdmi_vendor_half_def)
  also have "\<dots> = Some (Inr (4 + unat (hdmi_vendor_length f),
      hdmi_bytes HDMI_INFOFRAME_TYPE_VENDOR 1 (hdmi_vendor_length f) (hdmi_vendor_payload f) (length buffer), ?f))"
    by (rule hdmi_pack_bytes) (simp_all add: b hdmi_vendor_payload_length [OF f])
  finally show ?thesis .
qed

lemma hdmi_vendor_unpack_bytes:
  assumes f: "hdmi_vendor_fits f" and "4 + unat (hdmi_vendor_length f) \<le> sz"
  shows "hdmi_vendor_any_infoframe_unpack
      (hdmi_bytes HDMI_INFOFRAME_TYPE_VENDOR 1 (hdmi_vendor_length f) (hdmi_vendor_payload f) sz) =
    Some (Inr (f\<lparr>frame_length := hdmi_vendor_length f\<rparr>))"
proof -
  let ?b = "hdmi_bytes HDMI_INFOFRAME_TYPE_VENDOR 1 (hdmi_vendor_length f) (hdmi_vendor_payload f) sz"
  have c: "hdmi_infoframe_checksum ?b (4 + unat (hdmi_vendor_length f)) = Some 0"
    using assms by (intro hdmi_bytes_checksum) (simp_all add: hdmi_vendor_payload_length)
  have p: "?b ! (4 + i) = hdmi_vendor_payload f ! i" if "i < unat (hdmi_vendor_length f)" for i
    using that by (simp only: hdmi_bytes_nth hdmi_vendor_payload_length [OF f])
  have "5 \<le> unat (hdmi_vendor_length f)" by (simp add: hdmi_vendor_length_def)
  then have ps: "?b ! 4 = hdmi_vendor_payload f ! 0" "?b ! 5 = hdmi_vendor_payload f ! 1"
    "?b ! 6 = hdmi_vendor_payload f ! 2" "?b ! 7 = hdmi_vendor_payload f ! 3" "?b ! 8 = hdmi_vendor_payload f ! 4"
    using p [of 0] p [of 1] p [of 2] p [of 3] p [of 4] by simp_all
  have p9: "hdmi_vendor_half f \<Longrightarrow> ?b ! 9 = hdmi_vendor_payload f ! 5"
    using p [of 5] by (simp add: hdmi_vendor_length_def)
  have v: "hdmi_vendor_payload f ! 0 = 3" "hdmi_vendor_payload f ! 1 = 12" "hdmi_vendor_payload f ! 2 = 0"
    "drop_bit 5 (hdmi_vendor_payload f ! 3) = (if vic f \<noteq> 0 then 1 else 2)"
    "hdmi_vendor_payload f ! 4 = (if vic f \<noteq> 0 then vic f else ucast (push_bit 4 (s3d_struct f AND 15)))"
    by (simp_all add: hdmi_vendor_payload_def)
  have v5: "hdmi_vendor_half f \<Longrightarrow> hdmi_vendor_payload f ! 5 = ucast (push_bit 4 (s3d_ext_data f AND 15))"
    using hdmi_vendor_half_iff [OF f] by (simp add: hdmi_vendor_payload_def)
  have s: "drop_bit 4 (ucast (ucast (push_bit 4 (x AND 15)) :: u8)) = take_bit 4 x" for x :: u32
    by (rule bit_word_eqI) (auto simp: hdmi_bits)
  have l: "hdmi_vendor_length f = 6 \<longleftrightarrow> hdmi_vendor_half f" "hdmi_vendor_length f = 5 \<longleftrightarrow> \<not> hdmi_vendor_half f"
    by (simp_all add: hdmi_vendor_length_def)
  have h: "sint HDMI_3D_STRUCTURE_SIDE_BY_SIDE_HALF \<le> sint (s3d_struct f) \<longleftrightarrow> hdmi_vendor_half f"
    by (simp add: hdmi_vendor_half_def)
  show ?thesis
    using f hdmi_vendor_half_iff [OF f]
    unfolding hdmi_vendor_fits_def hdmi_vendor_any_infoframe_unpack_def
    by (cases "vic f = 0"; cases "hdmi_vendor_half f")
      (auto simp: hdmi_bytes_get hdmi_type_bytes ps p9 v v5 c l Let_def hdmi_sizes hdmi_vendor_infoframe_init_def s
        word_fields h simp del: One_nat_def push_bit_and)
qed

section \<open>What goes wrong\<close>

lemma sum_list_update_word: "i < length xs \<Longrightarrow> sum_list (xs[i := x]) = sum_list xs - xs ! i + x" for xs :: "u8 list"
  by (induction xs arbitrary: i) (auto split: nat.split simp: nth_Cons)

lemma sum_take_update:
  fixes b :: "u8 list"
  assumes "i < n" and "n \<le> length b" and "sum_list (take n b) = 0" and "x \<noteq> b ! i"
  shows "sum_list (take n (b[i := x])) \<noteq> 0"
proof -
  have "sum_list (take n (b[i := x])) = x - b ! i"
    using assms by (simp add: take_update_swap sum_list_update_word)
  with assms(4) show ?thesis by simp
qed

text \<open>A buffer is accepted only when the bytes of the frame are there and add up to zero.\<close>

lemma hdmi_accept_sum:
  "hdmi_avi_infoframe_unpack b = Some (Inr f) \<Longrightarrow> 17 \<le> length b \<and> sum_list (take 17 b) = 0"
  "hdmi_spd_infoframe_unpack b = Some (Inr g) \<Longrightarrow> 29 \<le> length b \<and> sum_list (take 29 b) = 0"
  "hdmi_audio_infoframe_unpack b = Some (Inr h) \<Longrightarrow> 14 \<le> length b \<and> sum_list (take 14 b) = 0"
  unfolding hdmi_avi_infoframe_unpack_def hdmi_spd_infoframe_unpack_def hdmi_audio_infoframe_unpack_def
  by (auto simp: hdmi_sizes hdmi_infoframe_checksum_eq Let_def bind_eq_Some_conv split: if_splits)

lemma hdmi_reject_sum:
  "17 \<le> length b \<Longrightarrow> sum_list (take 17 b) \<noteq> 0 \<Longrightarrow> hdmi_avi_infoframe_unpack b = Some (Inl EINVAL)"
  "29 \<le> length b \<Longrightarrow> sum_list (take 29 b) \<noteq> 0 \<Longrightarrow> hdmi_spd_infoframe_unpack b = Some (Inl EINVAL)"
  "14 \<le> length b \<Longrightarrow> sum_list (take 14 b) \<noteq> 0 \<Longrightarrow> hdmi_audio_infoframe_unpack b = Some (Inl EINVAL)"
  unfolding hdmi_avi_infoframe_unpack_def hdmi_spd_infoframe_unpack_def hdmi_audio_infoframe_unpack_def
  by (auto simp: hdmi_sizes hdmi_infoframe_checksum_eq buf_get_def)

lemma hdmi_vendor_accept_sum:
  assumes "hdmi_vendor_any_infoframe_unpack b = Some (Inr h)"
  shows "b ! 2 \<in> {5, 6} \<and> 4 + unat (b ! 2) \<le> length b \<and> sum_list (take (4 + unat (b ! 2)) b) = 0"
proof -
  have "2 < length b" "b ! 2 \<in> {5, 6}"
    "\<exists>csum. hdmi_infoframe_checksum b (4 + unat (b ! 2)) = Some csum \<and> csum = 0"
    using assms unfolding hdmi_vendor_any_infoframe_unpack_def
    by (auto simp: hdmi_sizes bind_eq_Some_conv buf_get_def split: if_splits)
  then show ?thesis by (auto simp: hdmi_infoframe_checksum_eq split: if_splits)
qed

lemma hdmi_vendor_reject_sum:
  assumes "4 + unat (b ! 2) \<le> length b" and "sum_list (take (4 + unat (b ! 2)) b) \<noteq> 0"
  shows "hdmi_vendor_any_infoframe_unpack b = Some (Inl EINVAL)"
  using assms unfolding hdmi_vendor_any_infoframe_unpack_def
  by (auto simp: hdmi_sizes hdmi_infoframe_checksum_eq buf_get_def)

lemma buf_put_None: "buf_put i x b = None \<longleftrightarrow> length b \<le> i"
  by (auto simp: buf_put_def)

lemma buf_puts_result:
  "i + length xs \<le> length b \<Longrightarrow> \<exists>b'. buf_puts i xs b = Some b' \<and> length b' = length b"
proof (induction xs arbitrary: i b)
  case (Cons x xs)
  then show ?case using Cons.IH [of "Suc i" "b[i := x]"] by (simp add: buf_put_def)
qed simp

lemma buf_puts_None: "length b < i + length xs \<Longrightarrow> xs \<noteq> [] \<Longrightarrow> buf_puts i xs b = None"
proof (induction xs arbitrary: i b)
  case (Cons x xs)
  then show ?case using Cons.IH [of "b[i := x]" "Suc i"] by (cases "xs = []") (auto simp: buf_put_def)
qed simp

lemma hdmi_avi_pack_None:
  assumes "4 + unat (frame_length f) \<le> length buffer"
  shows "hdmi_avi_infoframe_pack f buffer = None \<longleftrightarrow> length buffer < 17"
proof -
  have "4 \<le> length buffer" using assms by simp
  note h = hdmi_puts_header [OF this, of "frame_type f" "frame_version f" "frame_length f"]
  let ?b = "hdmi_header (frame_type f) (frame_version f) (frame_length f) @ replicate (length buffer - 4) 0"
  have l: "length ?b = length buffer" using assms by (simp add: hdmi_header_def)
  show ?thesis
  proof (cases "length buffer < 17")
    case True
    then have "buf_puts HDMI_INFOFRAME_HEADER_SIZE (hdmi_avi_payload f) ?b = None"
      using l hdmi_avi_payload_length [of f] by (intro buf_puts_None) (auto simp: hdmi_sizes)
    with True show ?thesis by (simp add: hdmi_avi_pack_steps [OF assms] h)
  next
    case False
    then obtain b where "buf_puts HDMI_INFOFRAME_HEADER_SIZE (hdmi_avi_payload f) ?b = Some b" "length b = length buffer"
      using l buf_puts_result [of HDMI_INFOFRAME_HEADER_SIZE "hdmi_avi_payload f" ?b]
      by (auto simp: hdmi_avi_payload_length hdmi_sizes)
    with False assms show ?thesis
      by (simp add: hdmi_avi_pack_steps [OF assms] h hdmi_infoframe_set_checksum_def hdmi_infoframe_checksum_eq
          buf_put_def)
  qed
qed

text \<open>Unpacking dispatches on the first byte.\<close>

lemma hdmi_types_distinct:
  "HDMI_INFOFRAME_TYPE_SPD \<noteq> HDMI_INFOFRAME_TYPE_AVI" "HDMI_INFOFRAME_TYPE_AUDIO \<noteq> HDMI_INFOFRAME_TYPE_AVI"
  "HDMI_INFOFRAME_TYPE_AUDIO \<noteq> HDMI_INFOFRAME_TYPE_SPD" "HDMI_INFOFRAME_TYPE_VENDOR \<noteq> HDMI_INFOFRAME_TYPE_AVI"
  "HDMI_INFOFRAME_TYPE_VENDOR \<noteq> HDMI_INFOFRAME_TYPE_SPD" "HDMI_INFOFRAME_TYPE_VENDOR \<noteq> HDMI_INFOFRAME_TYPE_AUDIO"
  by (simp_all add: hdmi_consts)

lemma hdmi_unpack_dispatch:
  fixes ver len :: u8 and payload sz
  defines "b \<equiv> \<lambda>ty. hdmi_bytes ty ver len payload sz"
  shows "hdmi_infoframe_unpack (b HDMI_INFOFRAME_TYPE_AVI) =
      map_option (map_sum id IF_avi) (hdmi_avi_infoframe_unpack (b HDMI_INFOFRAME_TYPE_AVI))"
    "hdmi_infoframe_unpack (b HDMI_INFOFRAME_TYPE_SPD) =
      map_option (map_sum id IF_spd) (hdmi_spd_infoframe_unpack (b HDMI_INFOFRAME_TYPE_SPD))"
    "hdmi_infoframe_unpack (b HDMI_INFOFRAME_TYPE_AUDIO) =
      map_option (map_sum id IF_audio) (hdmi_audio_infoframe_unpack (b HDMI_INFOFRAME_TYPE_AUDIO))"
    "hdmi_infoframe_unpack (b HDMI_INFOFRAME_TYPE_VENDOR) =
      map_option (map_sum id IF_vendor) (hdmi_vendor_any_infoframe_unpack (b HDMI_INFOFRAME_TYPE_VENDOR))"
  by (simp_all add: b_def hdmi_infoframe_unpack_def hdmi_bytes_get hdmi_type_bytes hdmi_types_distinct)

section \<open>The properties\<close>

text \<open>
  C19. Unpacking a packed AVI infoframe gives back every field of it, except that the two bytes of each
  bar come out swapped: \<^verbatim>\<open>hdmi_avi_infoframe_pack\<close> stores the low byte first and
  \<^verbatim>\<open>hdmi_avi_infoframe_unpack\<close> reads the high byte first.
\<close>

theorem hdmi_avi_roundtrip:
  assumes "hdmi_avi_fits f" and "17 \<le> length buffer"
  shows "\<exists>b. hdmi_infoframe_pack (IF_avi f) buffer = Some (Inr (17, b, IF_avi f)) \<and> length b = length buffer \<and>
    sum_list (take 17 b) = 0 \<and>
    hdmi_infoframe_unpack b =
      Some (Inr (IF_avi (f\<lparr>top_bar := swap16 (top_bar f), bottom_bar := swap16 (bottom_bar f),
                           left_bar := swap16 (left_bar f), right_bar := swap16 (right_bar f)\<rparr>)))"
proof -
  let ?b = "hdmi_bytes HDMI_INFOFRAME_TYPE_AVI 2 13 (hdmi_avi_payload f) (length buffer)"
  have f: "frame_type f = HDMI_INFOFRAME_TYPE_AVI" "frame_version f = 2" "frame_length f = 13"
    using assms(1) by (simp_all add: hdmi_avi_fits_def)
  have u: "hdmi_avi_infoframe_unpack ?b = Some (Inr (f\<lparr>top_bar := swap16 (top_bar f),
      bottom_bar := swap16 (bottom_bar f), left_bar := swap16 (left_bar f), right_bar := swap16 (right_bar f)\<rparr>))"
    by (rule hdmi_avi_unpack_bytes [OF assms])
  have "hdmi_infoframe_pack (IF_avi f) buffer = Some (Inr (17, ?b, IF_avi f))"
    using hdmi_avi_pack_bytes [OF f(3) assms(2)] by (simp add: hdmi_infoframe_pack_def hdmi_infoframe_any_def f)
  moreover have "length ?b = length buffer" using assms(2) by (simp add: hdmi_bytes_def hdmi_avi_payload_length)
  moreover note hdmi_accept_sum(1) [OF u]
  ultimately show ?thesis by (simp add: u hdmi_unpack_dispatch)
qed

definition hdmi_avi_example :: hdmi_avi_infoframe where
  "hdmi_avi_example =
     hdmi_avi_infoframe_init\<lparr>colorspace := 1, scan_mode := 2, colorimetry := 2, picture_aspect := 2, active_aspect := 8,
       itc := True, quantization_range := 2, video_code := 16, content_type := 1, pixel_repeat := 1,
       top_bar := 0x0102, right_bar := 7\<rparr>"

theorem hdmi_avi_roundtrip_witness:
  "\<exists>b. hdmi_infoframe_pack (IF_avi hdmi_avi_example) (replicate 32 0xff) = Some (Inr (17, b, IF_avi hdmi_avi_example)) \<and>
    hdmi_infoframe_unpack b =
      Some (Inr (IF_avi (hdmi_avi_example\<lparr>top_bar := 0x0201, right_bar := 0x0700\<rparr>)))"
proof -
  have "hdmi_avi_fits hdmi_avi_example"
    by (simp add: hdmi_avi_fits_def hdmi_avi_example_def hdmi_avi_infoframe_init_def hdmi_sizes)
  from hdmi_avi_roundtrip [OF this, of "replicate 32 0xff"] show ?thesis
    by (auto simp: hdmi_avi_example_def hdmi_avi_infoframe_init_def swap16_def)
qed

text \<open>
  C29. Unpacking a packed audio infoframe gives back every field of it except the number of channels,
  which comes back one too small: packing stores the number minus one and unpacking does not add it.
\<close>

theorem hdmi_audio_roundtrip:
  assumes "hdmi_audio_fits f" and "14 \<le> length buffer"
  shows "\<exists>b. hdmi_infoframe_pack (IF_audio f) buffer = Some (Inr (14, b, IF_audio f)) \<and> sum_list (take 14 b) = 0 \<and>
    hdmi_infoframe_unpack b =
      Some (Inr (IF_audio (f\<lparr>audio_channels := (if audio_channels f \<ge> 2 then audio_channels f - 1 else 0)\<rparr>)))"
proof -
  let ?b = "hdmi_bytes HDMI_INFOFRAME_TYPE_AUDIO 1 10 (hdmi_audio_payload f) (length buffer)"
  have f: "frame_type f = HDMI_INFOFRAME_TYPE_AUDIO" "frame_version f = 1" "frame_length f = 10"
    using assms(1) by (simp_all add: hdmi_audio_fits_def)
  have "hdmi_infoframe_pack (IF_audio f) buffer = Some (Inr (14, ?b, IF_audio f))"
    using hdmi_audio_pack_bytes [OF f(3) assms(2)]
    by (simp add: hdmi_infoframe_pack_def hdmi_infoframe_any_def f hdmi_types_distinct)
  with hdmi_audio_unpack_bytes [OF assms] hdmi_accept_sum(3) [OF hdmi_audio_unpack_bytes [OF assms]] show ?thesis
    by (simp add: hdmi_unpack_dispatch hdmi_audio_sent_channels_def)
qed

theorem hdmi_audio_roundtrip_witness:
  "\<exists>b. hdmi_infoframe_pack (IF_audio (hdmi_audio_infoframe_init\<lparr>audio_channels := 6\<rparr>)) (replicate 14 0) =
      Some (Inr (14, b, IF_audio (hdmi_audio_infoframe_init\<lparr>audio_channels := 6\<rparr>))) \<and>
    hdmi_infoframe_unpack b = Some (Inr (IF_audio (hdmi_audio_infoframe_init\<lparr>audio_channels := 5\<rparr>)))"
proof -
  have "hdmi_audio_fits (hdmi_audio_infoframe_init\<lparr>audio_channels := 6\<rparr>)"
    by (simp add: hdmi_audio_fits_def hdmi_audio_infoframe_init_def hdmi_sizes)
  from hdmi_audio_roundtrip [OF this, of "replicate 14 0"] show ?thesis by auto
qed

text \<open>
  Source product description and vendor infoframes survive packing and unpacking unchanged; the
  vendor frame has the length that packing gave it, in the returned frame too.
\<close>

theorem hdmi_spd_vendor_roundtrip:
  "(hdmi_spd_fits g \<and> 29 \<le> length buffer \<longrightarrow>
      (\<exists>b. hdmi_infoframe_pack (IF_spd g) buffer = Some (Inr (29, b, IF_spd g)) \<and>
        hdmi_infoframe_unpack b = Some (Inr (IF_spd g)))) \<and>
   (hdmi_vendor_fits h \<and> 10 \<le> length buffer \<longrightarrow>
      (\<exists>b h'. hdmi_infoframe_pack (IF_vendor h) buffer = Some (Inr (4 + unat (frame_length h'), b, IF_vendor h')) \<and>
        h' = h\<lparr>frame_length := if vic h = 0 \<and> s3d_struct h \<ge> 8 then 6 else 5\<rparr> \<and>
        hdmi_infoframe_unpack b = Some (Inr (IF_vendor h'))))"
proof (intro conjI impI; elim conjE)
  assume g: "hdmi_spd_fits g" "29 \<le> length buffer"
  then have "frame_type g = HDMI_INFOFRAME_TYPE_SPD" by (simp add: hdmi_spd_fits_def)
  with hdmi_spd_pack_bytes [OF g] hdmi_spd_unpack_bytes [OF g] 
  show "\<exists>b. hdmi_infoframe_pack (IF_spd g) buffer = Some (Inr (29, b, IF_spd g)) \<and>
      hdmi_infoframe_unpack b = Some (Inr (IF_spd g))"
    by (simp add: hdmi_infoframe_pack_def hdmi_infoframe_any_def hdmi_types_distinct hdmi_unpack_dispatch)
next
  assume h: "hdmi_vendor_fits h" and b: "10 \<le> length buffer"
  have l: "hdmi_vendor_length h = (if vic h = 0 \<and> s3d_struct h \<ge> 8 then 6 else 5)"
    by (simp add: hdmi_vendor_length_def hdmi_vendor_half_iff [OF h] not_less)
  then have b': "4 + unat (hdmi_vendor_length h) \<le> length buffer" using b by simp
  have "frame_type h = HDMI_INFOFRAME_TYPE_VENDOR" using h by (simp add: hdmi_vendor_fits_def)
  with hdmi_vendor_pack_bytes [OF h b'] hdmi_vendor_unpack_bytes [OF h b']
  show "\<exists>b h'. hdmi_infoframe_pack (IF_vendor h) buffer = Some (Inr (4 + unat (frame_length h'), b, IF_vendor h')) \<and>
      h' = h\<lparr>frame_length := if vic h = 0 \<and> s3d_struct h \<ge> 8 then 6 else 5\<rparr> \<and>
      hdmi_infoframe_unpack b = Some (Inr (IF_vendor h'))"
    unfolding l [symmetric]
    by (simp add: hdmi_infoframe_pack_def hdmi_infoframe_any_def hdmi_types_distinct hdmi_unpack_dispatch)
qed

theorem hdmi_spd_vendor_roundtrip_witness:
  "(let g = hdmi_spd_infoframe_init [65, 66, 0, 67] [68] in
      \<exists>b. hdmi_infoframe_pack (IF_spd g) (replicate 29 1) = Some (Inr (29, b, IF_spd g)) \<and>
        hdmi_infoframe_unpack b = Some (Inr (IF_spd g))) \<and>
    (\<exists>b. hdmi_infoframe_pack (IF_vendor (hdmi_vendor_infoframe_init\<lparr>s3d_struct := 8, s3d_ext_data := 3\<rparr>)) (replicate 10 1) =
        Some (Inr (10, b, IF_vendor (hdmi_vendor_infoframe_init\<lparr>s3d_struct := 8, s3d_ext_data := 3, frame_length := 6\<rparr>))) \<and>
      hdmi_infoframe_unpack b =
        Some (Inr (IF_vendor (hdmi_vendor_infoframe_init\<lparr>s3d_struct := 8, s3d_ext_data := 3, frame_length := 6\<rparr>))))"
proof -
  have v: "hdmi_vendor_fits (hdmi_vendor_infoframe_init\<lparr>s3d_struct := 8, s3d_ext_data := 3\<rparr>)"
    by (simp add: hdmi_vendor_fits_def hdmi_vendor_infoframe_init_def)
  show ?thesis
    using v hdmi_spd_init_fits [of "[65, 66, 0, 67]" "[68]"]
      hdmi_spd_vendor_roundtrip [of "hdmi_spd_infoframe_init [65, 66, 0, 67] [68]" "replicate 29 1"]
      hdmi_spd_vendor_roundtrip [of _ "replicate 10 1" "hdmi_vendor_infoframe_init\<lparr>s3d_struct := 8, s3d_ext_data := 3\<rparr>"]
    by (simp add: hdmi_vendor_infoframe_init_def)
qed

text \<open>
  C30. Unpacking detects a corrupted byte: when an AVI, source product description or audio infoframe is accepted
  and then any one of its bytes, checksum and header included, is changed, unpacking returns \<^verbatim>\<open>-EINVAL\<close>. For a
  vendor infoframe this holds for all bytes but the one with the length, which decides what is summed up.
\<close>

theorem hdmi_corruption_detected:
  "(hdmi_avi_infoframe_unpack b = Some (Inr f) \<and> i < 17 \<and> x \<noteq> b ! i \<longrightarrow>
      hdmi_avi_infoframe_unpack (b[i := x]) = Some (Inl EINVAL)) \<and>
   (hdmi_spd_infoframe_unpack b = Some (Inr g) \<and> i < 29 \<and> x \<noteq> b ! i \<longrightarrow>
      hdmi_spd_infoframe_unpack (b[i := x]) = Some (Inl EINVAL)) \<and>
   (hdmi_audio_infoframe_unpack b = Some (Inr h) \<and> i < 14 \<and> x \<noteq> b ! i \<longrightarrow>
      hdmi_audio_infoframe_unpack (b[i := x]) = Some (Inl EINVAL)) \<and>
   (hdmi_vendor_any_infoframe_unpack b = Some (Inr k) \<and> i < 4 + unat (b ! 2) \<and> i \<noteq> 2 \<and> x \<noteq> b ! i \<longrightarrow>
      hdmi_vendor_any_infoframe_unpack (b[i := x]) = Some (Inl EINVAL))"
proof (intro conjI impI)
  assume k: "hdmi_vendor_any_infoframe_unpack b = Some (Inr k) \<and> i < 4 + unat (b ! 2) \<and> i \<noteq> 2 \<and> x \<noteq> b ! i"
  then have a: "4 + unat (b ! 2) \<le> length b" "sum_list (take (4 + unat (b ! 2)) b) = 0"
    using hdmi_vendor_accept_sum by blast+
  with k have "sum_list (take (4 + unat (b ! 2)) (b[i := x])) \<noteq> 0" by (intro sum_take_update) simp_all
  with k a show "hdmi_vendor_any_infoframe_unpack (b[i := x]) = Some (Inl EINVAL)"
    by (intro hdmi_vendor_reject_sum) simp_all
qed (auto dest!: hdmi_accept_sum intro!: hdmi_reject_sum dest: sum_take_update)

text \<open>A vendor infoframe of length 5 that is also accepted with length 6, because the next byte makes up for it.\<close>

lemma hdmi_vendor_length_undetected:
  "\<exists>k k'. hdmi_vendor_any_infoframe_unpack [0x81, 1, 5, 0x6a, 3, 0xc, 0, 0, 0, 0xff] = Some (Inr k) \<and>
     hdmi_vendor_any_infoframe_unpack [0x81, 1, 6, 0x6a, 3, 0xc, 0, 0, 0, 0xff] = Some (Inr k') \<and> k \<noteq> k'"
  by (simp add: hdmi_vendor_any_infoframe_unpack_def hdmi_infoframe_checksum_eq hdmi_sizes hdmi_consts buf_get_def
      hdmi_vendor_infoframe_init_def)

text \<open>The packed bytes of \<^const>\<open>hdmi_avi_infoframe_init\<close> with a wrong video code.\<close>

theorem hdmi_corruption_detected_witness:
  "hdmi_avi_infoframe_unpack [0x82, 2, 13, 0x6f, 0, 0, 0, 0, 0, 0, 0, 0, 0, 0, 0, 0, 0] = Some (Inr hdmi_avi_infoframe_init) \<and>
   hdmi_avi_infoframe_unpack ([0x82, 2, 13, 0x6f, 0, 0, 0, 0, 0, 0, 0, 0, 0, 0, 0, 0, 0][7 := 1]) = Some (Inl EINVAL)"
proof -
  let ?b = "[0x82, 2, 13, 0x6f, 0, 0, 0, 0, 0, 0, 0, 0, 0, 0, 0, 0, 0 :: u8]"
  have "hdmi_avi_fits hdmi_avi_infoframe_init"
    by (simp add: hdmi_avi_fits_def hdmi_avi_infoframe_init_def hdmi_sizes)
  moreover have "hdmi_bytes HDMI_INFOFRAME_TYPE_AVI 2 13 (hdmi_avi_payload hdmi_avi_infoframe_init) 17 = ?b"
    by (simp add: hdmi_bytes_def hdmi_avi_payload_def hdmi_avi_infoframe_init_def hdmi_consts)
  ultimately have "hdmi_avi_infoframe_unpack ?b = Some (Inr hdmi_avi_infoframe_init)"
    using hdmi_avi_unpack_bytes [of hdmi_avi_infoframe_init 17]
    by (simp add: hdmi_avi_infoframe_init_def swap16_0)
  then show ?thesis using hdmi_corruption_detected [of ?b _ 7 1] by simp
qed

text \<open>
  C31. \<^verbatim>\<open>hdmi_avi_infoframe_pack\<close> compares the size of the buffer with the length that the frame states
  and always writes 13 bytes of payload: it writes outside of the buffer exactly when the stated
  length passes the test and the buffer has less than 17 bytes. A buffer that fails the test is
  reported with \<^verbatim>\<open>-ENOSPC\<close>, and with the length that \<^verbatim>\<open>hdmi_avi_infoframe_init\<close> sets no buffer is overrun.
\<close>

theorem hdmi_avi_pack_memory:
  "(hdmi_avi_infoframe_pack f buffer = None \<longleftrightarrow>
      4 + unat (frame_length f) \<le> length buffer \<and> length buffer < 17) \<and>
   (hdmi_avi_infoframe_pack f buffer = Some (Inl ENOSPC) \<longleftrightarrow> length buffer < 4 + unat (frame_length f)) \<and>
   hdmi_avi_infoframe_pack (f\<lparr>frame_length := frame_length hdmi_avi_infoframe_init\<rparr>) buffer \<noteq> None"
proof -
  have e: "hdmi_avi_infoframe_pack g buffer = Some (Inl ENOSPC) \<longleftrightarrow> length buffer < 4 + unat (frame_length g)" for g
  proof (cases "length buffer < 4 + unat (frame_length g)")
    case False
    then show ?thesis by (auto simp: hdmi_avi_pack_steps not_less bind_eq_Some_conv)
  qed (simp add: hdmi_avi_infoframe_pack_def hdmi_sizes)
  have n: "hdmi_avi_infoframe_pack g buffer = None \<longleftrightarrow>
      4 + unat (frame_length g) \<le> length buffer \<and> length buffer < 17" for g
    using e [of g] hdmi_avi_pack_None [of g buffer] by (cases "length buffer < 4 + unat (frame_length g)") auto
  show ?thesis unfolding e n by (simp add: hdmi_avi_infoframe_init_def hdmi_sizes)
qed

end
