(* ===== verification/VmaManager.thy ===== *)
theory VmaManager
  imports DrmMM_Correct
begin

text \<open>
  The fake-offset manager of \<^verbatim>\<open>drm_vma_manager.c\<close> and \<^verbatim>\<open>drm_vma_manager.h\<close>: every buffer object gets a
  range of page numbers that user space can pass to \<^verbatim>\<open>mmap\<close>, and a list of the open files that may
  do so. The manager is a client of the range allocator, which it uses through the interface
  \<open>offset_space\<close>. Every function runs under the lock of the manager or of the node, so the model has
  no interleaving inside one.
\<close>

unbundle bit_operations_syntax

section \<open>Data\<close>

text \<open>
  The \<^verbatim>\<open>struct drm_mm_node\<close> that is embedded in an offset node is the node of the same number in the
  memory of the allocator; \<^verbatim>\<open>container_of\<close> is then the identity. A file entry is an element of the
  red-black tree; a tag is the address of the \<^verbatim>\<open>struct drm_file\<close>.
\<close>

record drm_vma_offset_file =
  vm_tag :: u64
  vm_count :: u64

record drm_vma_offset_node =
  vm_node :: nat
  vm_files :: "(drm_vma_offset_file, unit) rb_tree"
  vm_readonly :: bool

record drm_vma_offset_manager =
  vm_addr_space_mm :: drm_mm

section \<open>Offsets\<close>

definition drm_vma_offset_manager_init :: "(nat \<Rightarrow> drm_mm_node) \<Rightarrow> u64 \<Rightarrow> u64 \<Rightarrow> drm_vma_offset_manager option" where
  "drm_vma_offset_manager_init memory page_offset sz =
     map_option (\<lambda>mm. \<lparr>vm_addr_space_mm = mm\<rparr>) (drm_mm_init memory page_offset sz)"

text \<open>The result is whether \<^verbatim>\<open>drm_mm_takedown\<close> warns.\<close>

definition drm_vma_offset_manager_destroy :: "drm_vma_offset_manager \<Rightarrow> bool" where
  "drm_vma_offset_manager_destroy mgr = drm_mm_takedown (vm_addr_space_mm mgr)"

text \<open>The search loop of \<^verbatim>\<open>drm_vma_offset_lookup_locked\<close>: the last node that starts at or before \<open>start\<close>.\<close>

fun vma_lookup_best :: "(nat \<Rightarrow> u64) \<Rightarrow> u64 \<Rightarrow> (nat, u64) rb_tree \<Rightarrow> nat option \<Rightarrow> nat option" where
  "vma_lookup_best st start RB_NULL best = best"
| "vma_lookup_best st start (RB_Node l c node a r) best =
     (let offset = st node
      in if start \<ge> offset
         then (if start = offset then Some node else vma_lookup_best st start r (Some node))
         else vma_lookup_best st start l best)"

definition drm_vma_offset_lookup_locked :: "drm_vma_offset_manager \<Rightarrow> u64 \<Rightarrow> u64 \<Rightarrow> nat option" where
  "drm_vma_offset_lookup_locked mgr start pages =
     (let mm = vm_addr_space_mm mgr
      in case vma_lookup_best (START mm) start (rb_root (mm_interval_tree mm)) None of
           None \<Rightarrow> None
         | Some best \<Rightarrow>
             (let offset = nd_start (mm_nodes mm best) + nd_size (mm_nodes mm best)
              in if offset < start + pages then None else Some best))"

definition drm_vma_offset_exact_lookup_locked :: "drm_vma_offset_manager \<Rightarrow> u64 \<Rightarrow> u64 \<Rightarrow> nat option" where
  "drm_vma_offset_exact_lookup_locked mgr start pages =
     (case drm_vma_offset_lookup_locked mgr start pages of
        None \<Rightarrow> None
      | Some node \<Rightarrow> if START (vm_addr_space_mm mgr) node = start then Some node else None)"

definition drm_vma_offset_add :: "drm_vma_offset_manager \<Rightarrow> nat \<Rightarrow> u64 \<Rightarrow> (errno + drm_vma_offset_manager) option" where
  "drm_vma_offset_add mgr node pages =
     (if \<not> drm_mm_node_allocated (vm_addr_space_mm mgr) node
      then map_option (map_sum id (\<lambda>mm. mgr\<lparr>vm_addr_space_mm := mm\<rparr>))
             (drm_mm_insert_node (vm_addr_space_mm mgr) node pages)
      else Some (Inr mgr))"

definition drm_vma_offset_remove :: "drm_vma_offset_manager \<Rightarrow> nat \<Rightarrow> drm_vma_offset_manager option" where
  "drm_vma_offset_remove mgr node =
     (if drm_mm_node_allocated (vm_addr_space_mm mgr) node
      then map_option (\<lambda>mm. mgr\<lparr>vm_addr_space_mm := mm_set node (\<lambda>_. drm_mm_node_zero) mm\<rparr>)
             (drm_mm_remove_node node (vm_addr_space_mm mgr))
      else Some mgr)"

definition drm_vma_node_start :: "drm_vma_offset_manager \<Rightarrow> nat \<Rightarrow> u64" where
  "drm_vma_node_start mgr node = START (vm_addr_space_mm mgr) node"

definition drm_vma_node_size :: "drm_vma_offset_manager \<Rightarrow> nat \<Rightarrow> u64" where
  "drm_vma_node_size mgr node = nd_size (mm_nodes (vm_addr_space_mm mgr) node)"

text \<open>\<^verbatim>\<open>PAGE_SHIFT\<close> is a constant of the platform.\<close>

definition drm_vma_node_offset_addr :: "nat \<Rightarrow> drm_vma_offset_manager \<Rightarrow> nat \<Rightarrow> u64" where
  "drm_vma_node_offset_addr PAGE_SHIFT mgr node = push_bit PAGE_SHIFT (START (vm_addr_space_mm mgr) node)"

section \<open>Allowed files\<close>

text \<open>\<^verbatim>\<open>drm_vma_node_reset\<close>, with the embedded \<^verbatim>\<open>struct drm_mm_node\<close> cleared as well.\<close>

definition drm_vma_node_reset :: "nat \<Rightarrow> drm_vma_offset_manager \<Rightarrow> drm_vma_offset_node \<times> drm_vma_offset_manager" where
  "drm_vma_node_reset n mgr =
     (\<lparr>vm_node = n, vm_files = RB_NULL, vm_readonly = False\<rparr>,
      mgr\<lparr>vm_addr_space_mm := mm_set n (\<lambda>_. drm_mm_node_zero) (vm_addr_space_mm mgr)\<rparr>)"

text \<open>
  The search that \<^verbatim>\<open>drm_vma_node_allow\<close>, \<^verbatim>\<open>drm_vma_node_revoke\<close> and \<^verbatim>\<open>drm_vma_node_is_allowed\<close> share: it
  ends at the entry of the tag, or at the empty link where it belongs.
\<close>

fun vma_find_file :: "u64 \<Rightarrow> (drm_vma_offset_file, unit) rb_tree \<Rightarrow> (drm_vma_offset_file, unit) rb_path \<Rightarrow>
    (drm_vma_offset_file, unit) rb_tree \<times> (drm_vma_offset_file, unit) rb_path" where
  "vma_find_file tag RB_NULL ps = (RB_NULL, ps)"
| "vma_find_file tag (RB_Node l c entry a r) ps =
     (if tag = vm_tag entry then (RB_Node l c entry a r, ps)
      else if tag > vm_tag entry then vma_find_file tag r (RightOf l c entry a # ps)
      else vma_find_file tag l (LeftOf c entry a r # ps))"

text \<open>\<open>new\<close> is whether \<^verbatim>\<open>kmalloc\<close> succeeds.\<close>

definition drm_vma_node_allow :: "bool \<Rightarrow> u64 \<Rightarrow> drm_vma_offset_node \<Rightarrow> (errno + drm_vma_offset_node) option" where
  "drm_vma_node_allow new tag node =
     (case vma_find_file tag (vm_files node) [] of
        (RB_Node l c entry a r, ps) \<Rightarrow>
          Some (Inr (node\<lparr>vm_files := rb_plug (RB_Node l c (entry\<lparr>vm_count := vm_count entry + 1\<rparr>) a r) ps\<rparr>))
      | (RB_NULL, ps) \<Rightarrow>
          if \<not> new then Some (Inl ENOMEM)
          else map_option (\<lambda>t. Inr (node\<lparr>vm_files := t\<rparr>))
                 (rb_insert_color (\<lambda>_ _ _. ()) \<lparr>vm_tag = tag, vm_count = 1\<rparr> () ps))"

definition drm_vma_node_revoke :: "u64 \<Rightarrow> drm_vma_offset_node \<Rightarrow> drm_vma_offset_node option" where
  "drm_vma_node_revoke tag node =
     (case vma_find_file tag (vm_files node) [] of
        (RB_Node l c entry a r, ps) \<Rightarrow>
          (let entry = entry\<lparr>vm_count := vm_count entry - 1\<rparr>;
               files = rb_plug (RB_Node l c entry a r) ps
           in if vm_count entry = 0
              then map_option (\<lambda>t. node\<lparr>vm_files := t\<rparr>) (rb_erase (\<lambda>_ _ _. ()) entry files)
              else Some (node\<lparr>vm_files := files\<rparr>))
      | (RB_NULL, ps) \<Rightarrow> Some node)"

definition drm_vma_node_is_allowed :: "u64 \<Rightarrow> drm_vma_offset_node \<Rightarrow> bool" where
  "drm_vma_node_is_allowed tag node = (fst (vma_find_file tag (vm_files node) []) \<noteq> RB_NULL)"

definition drm_vma_node_verify_access :: "u64 \<Rightarrow> drm_vma_offset_node \<Rightarrow> errno option" where
  "drm_vma_node_verify_access tag node = (if drm_vma_node_is_allowed tag node then None else Some EACCES)"

section \<open>The interface to the address space\<close>

text \<open>
  What the manager promises to the graphics memory managers on top of it. A block is given by
  its first and its end page.
\<close>

locale offset_space =
  fixes sp_inv :: "'s \<Rightarrow> bool" and sp_node :: "'s \<Rightarrow> 'n \<Rightarrow> bool" and sp_block :: "'s \<Rightarrow> 'n \<Rightarrow> (nat \<times> nat) option"
    and sp_add :: "'s \<Rightarrow> 'n \<Rightarrow> u64 \<Rightarrow> (errno + 's) option" and sp_del :: "'s \<Rightarrow> 'n \<Rightarrow> 's option"
    and sp_find :: "'s \<Rightarrow> u64 \<Rightarrow> u64 \<Rightarrow> 'n option"
  assumes add_result: "sp_inv s \<Longrightarrow> sp_node s n \<Longrightarrow> p \<noteq> 0 \<Longrightarrow>
      sp_add s n p = Some (Inl ENOSPC) \<or>
      (\<exists>s' a. sp_add s n p = Some (Inr s') \<and> sp_inv s' \<and> a + unat p < 2 ^ 64 \<and>
        sp_block s' = (if sp_block s n = None then (sp_block s)(n \<mapsto> (a, a + unat p)) else sp_block s))"
    and del_result: "sp_inv s \<Longrightarrow> sp_node s n \<Longrightarrow>
      \<exists>s'. sp_del s n = Some s' \<and> sp_inv s' \<and> sp_block s' = (sp_block s)(n := None)"
    and find_iff: "sp_inv s \<Longrightarrow> p \<noteq> 0 \<Longrightarrow> unat a + unat p < 2 ^ 64 \<Longrightarrow>
      sp_find s a p = Some n \<longleftrightarrow> (\<exists>b e. sp_block s n = Some (b, e) \<and> b \<le> unat a \<and> unat a + unat p \<le> e)"
begin

lemma find_added:
  assumes "sp_inv s" "sp_node s n" "p \<noteq> 0" "sp_block s n = None" "sp_add s n p = Some (Inr s')"
  shows "\<exists>a. sp_block s' n = Some (unat a, unat a + unat p) \<and> sp_find s' a p = Some n"
proof -
  obtain a where a: "sp_inv s'" "a + unat p < 2 ^ 64" "sp_block s' = (sp_block s)(n \<mapsto> (a, a + unat p))"
    using add_result [OF assms(1,2,3)] assms(4,5) by auto
  then have u: "unat (of_nat a :: u64) = a" by (simp add: unsigned_of_nat take_bit_nat_eq_self)
  with a find_iff [OF a(1) assms(3), of "of_nat a" n] have "sp_find s' (of_nat a) p = Some n" by simp
  with a(3) u show ?thesis by (intro exI [of _ "of_nat a"]) simp
qed

lemma find_deleted:
  assumes "sp_inv s" "sp_node s n" "p \<noteq> 0" "unat a + unat p < 2 ^ 64" "sp_del s n = Some s'"
  shows "sp_find s' a p \<noteq> Some n" and "m \<noteq> n \<Longrightarrow> sp_find s' a p = Some m \<longleftrightarrow> sp_find s a p = Some m"
proof -
  have s': "sp_inv s'" "sp_block s' = (sp_block s)(n := None)" using del_result [OF assms(1,2)] assms(5) by auto
  show "sp_find s' a p \<noteq> Some n" using s' find_iff [OF s'(1) assms(3,4)] by simp
  show "sp_find s' a p = Some m \<longleftrightarrow> sp_find s a p = Some m" if "m \<noteq> n"
    using that s'(2) find_iff [OF s'(1) assms(3,4)] find_iff [OF assms(1,3,4)] by simp
qed

text \<open>Other objects are found as before when one is added.\<close>

lemma find_other:
  assumes "sp_inv s" "sp_node s n" "q \<noteq> 0" "sp_add s n q = Some (Inr s')" "m \<noteq> n"
    and "p \<noteq> 0" "unat a + unat p < 2 ^ 64"
  shows "sp_find s' a p = Some m \<longleftrightarrow> sp_find s a p = Some m"
proof -
  have s': "sp_inv s'" "sp_block s' m = sp_block s m"
    using add_result [OF assms(1,2,3)] assms(4,5) by (auto split: if_splits)
  show ?thesis using s'(2) find_iff [OF s'(1) assms(6,7)] find_iff [OF assms(1,6,7)] by simp
qed

end

end
