(* ===== verification/VmaManager_Correct.thy ===== *)
theory VmaManager_Correct
  imports VmaManager
begin

text \<open>
  The offset manager keeps the contract of \<open>offset_space\<close> because the range allocator keeps its own, and
  the list of allowed files counts references.
\<close>

section \<open>Looking up an offset\<close>

definition vma_inv :: "drm_vma_offset_manager \<Rightarrow> bool" where
  "vma_inv mgr \<longleftrightarrow> mm_inv (vm_addr_space_mm mgr) \<and> mm_color_adjust (vm_addr_space_mm mgr) = None"

text \<open>An offset node: not the head of the allocator, and not taking part in an eviction scan.\<close>

definition vma_node :: "drm_vma_offset_manager \<Rightarrow> nat \<Rightarrow> bool" where
  "vma_node mgr n \<longleftrightarrow> n \<noteq> HEAD \<and> \<not> nd_scanned_block (mm_nodes (vm_addr_space_mm mgr) n)"

definition vma_block :: "drm_vma_offset_manager \<Rightarrow> nat \<Rightarrow> (nat \<times> nat) option" where
  "vma_block mgr n =
     map_option (\<lambda>(s, z, c). (unat s, unat s + unat z)) (mm_blocks (vm_addr_space_mm mgr) n)"

lemma vma_lookup_best_split:
  "sorted_wrt (\<lambda>a b. st a < st b) (rb_inorder t) \<Longrightarrow>
   vma_lookup_best st start t best =
     (let us = takeWhile (\<lambda>n. st n \<le> start) (rb_inorder t) in if us = [] then best else Some (last us))"
proof (induction st start t best rule: vma_lookup_best.induct)
  case (2 st start l c n a r best)
  have l: "st x < st n" if "x \<in> set (rb_inorder l)" for x using 2(3) that by (simp add: sorted_wrt_append)
  have r: "st n < st x" if "x \<in> set (rb_inorder r)" for x using 2(3) that by (simp add: sorted_wrt_append)
  show ?case
  proof (cases "st n \<le> start")
    case True
    with l have "\<forall>x\<in>set (rb_inorder l). st x \<le> start" using less_imp_le order_trans by blast
    then have t: "takeWhile (\<lambda>x. st x \<le> start) (rb_inorder (RB_Node l c n a r)) =
        rb_inorder l @ n # takeWhile (\<lambda>x. st x \<le> start) (rb_inorder r)"
      using True by simp
    show ?thesis
    proof (cases "start = st n")
      case eq: True
      have "takeWhile (\<lambda>x. st x \<le> start) (rb_inorder r) = []"
        using r eq by (cases "rb_inorder r") (auto simp: not_le)
      with t eq show ?thesis by (simp add: Let_def)
    next
      case False
      with 2 True t show ?thesis by (auto simp: Let_def sorted_wrt_append)
    qed
  next
    case False
    then have "takeWhile (\<lambda>x. st x \<le> start) (rb_inorder (RB_Node l c n a r)) =
        takeWhile (\<lambda>x. st x \<le> start) (rb_inorder l)"
      by (simp add: takeWhile_tail)
    with 2 False show ?thesis by (simp add: Let_def sorted_wrt_append)
  qed
qed simp

text \<open>The last block that starts at or before \<open>start\<close>.\<close>

lemma vma_lookup_best_iff:
  assumes "mm_inv mm"
  shows "vma_lookup_best (START mm) start (rb_root (mm_interval_tree mm)) None = Some n \<longleftrightarrow>
    n \<in> set (mm_node_list mm) \<and> START mm n \<le> start \<and>
    (\<forall>m\<in>set (mm_node_list mm). START mm m \<le> start \<longrightarrow> START mm m \<le> START mm n)"
proof -
  let ?ns = "mm_node_list mm" and ?P = "\<lambda>n. START mm n \<le> start"
  have chain: "mm_chain (mm_nodes mm) (mm_lo mm) ?ns (mm_hi mm)" and ns: "rb_inorder (rb_root (mm_interval_tree mm)) = ?ns"
    and dist: "distinct ?ns"
    using assms by (simp_all add: mm_inv_def mm_layout_def mm_list_ok_def)
  have srt: "sorted_wrt (\<lambda>a b. START mm a < START mm b) ?ns"
    using mm_chain_sorted_wrt [OF chain] dist
    by (rule sorted_wrt_distinct_mono) (use mm_chain_mem [OF chain] in \<open>meson less_le_trans\<close>)
  define us vs where "us = takeWhile ?P ?ns" and "vs = dropWhile ?P ?ns"
  have split: "?ns = us @ vs" by (simp add: us_def vs_def)
  have us: "\<forall>x\<in>set us. ?P x" by (auto simp: us_def dest: set_takeWhileD)
  have vs: "\<not> ?P x" if x: "x \<in> set vs" for x
  proof -
    obtain v vs' where v: "vs = v # vs'" using x by (cases vs) auto
    then have "\<not> ?P v" by (metis vs_def dropWhile_eq_Cons_conv)
    moreover have "START mm v \<le> START mm x"
      using srt split v x by (auto simp: sorted_wrt_append intro: less_imp_le)
    ultimately show ?thesis using order_trans by blast
  qed
  have best: "vma_lookup_best (START mm) start (rb_root (mm_interval_tree mm)) None =
      (if us = [] then None else Some (last us))"
    using vma_lookup_best_split [of "START mm" "rb_root (mm_interval_tree mm)" start None] srt ns
    by (simp add: us_def Let_def)
  show ?thesis
  proof (cases us rule: rev_cases)
    case Nil
    with best vs split show ?thesis by auto
  next
    case (snoc us' u)
    have max: "START mm x < START mm u" if "x \<in> set us'" for x
      using srt split snoc that by (simp add: sorted_wrt_append)
    with best snoc split us vs show ?thesis
      by (auto intro: less_imp_le dest: leD)
  qed
qed

lemma vma_block_Some:
  "vma_block mgr n = Some (b, e) \<longleftrightarrow> n \<in> set (mm_node_list (vm_addr_space_mm mgr)) \<and>
     b = unat (drm_vma_node_start mgr n) \<and> e = b + unat (drm_vma_node_size mgr n)"
  by (auto simp: vma_block_def mm_blocks_def drm_vma_node_start_def drm_vma_node_size_def)

lemma vma_lookup_iff:
  assumes inv: "vma_inv mgr" and p: "p \<noteq> 0" and nowrap: "unat a + unat p < 2 ^ 64"
  shows "drm_vma_offset_lookup_locked mgr a p = Some n \<longleftrightarrow>
    (\<exists>b e. vma_block mgr n = Some (b, e) \<and> b \<le> unat a \<and> unat a + unat p \<le> e)"
proof -
  let ?mm = "vm_addr_space_mm mgr"
  let ?lim = "\<lambda>n. START ?mm n + nd_size (mm_nodes ?mm n)"
  have mm: "mm_inv ?mm" using inv by (simp add: vma_inv_def)
  then have chain: "mm_chain (mm_nodes ?mm) (mm_lo ?mm) (mm_node_list ?mm) (mm_hi ?mm)"
    by (simp add: mm_inv_def mm_layout_def)
  have e: "unat (?lim k) = unat (START ?mm k) + unat (nd_size (mm_nodes ?mm k))" if "k \<in> set (mm_node_list ?mm)" for k
    using mm_chain_mem [OF chain that] by (simp add: unat_plus_nowrap)
  have s: "unat (a + p) = unat a + unat p" using nowrap by (simp add: unat_word_ariths)
  have p0: "unat p \<noteq> 0" using p by (simp add: unat_eq_0)
  let ?best = "vma_lookup_best (START ?mm) a (rb_root (mm_interval_tree ?mm)) None"
  have "drm_vma_offset_lookup_locked mgr a p = Some n \<longleftrightarrow> ?best = Some n \<and> \<not> ?lim n < a + p"
    by (auto simp: drm_vma_offset_lookup_locked_def Let_def split: option.split)
  also have "\<dots> \<longleftrightarrow> n \<in> set (mm_node_list ?mm) \<and> START ?mm n \<le> a \<and> \<not> ?lim n < a + p"
  proof -
    have "START ?mm m \<le> START ?mm n" if n: "n \<in> set (mm_node_list ?mm)" and en: "\<not> ?lim n < a + p"
        and m: "m \<in> set (mm_node_list ?mm)" "START ?mm m \<le> a" for m
    proof (rule ccontr)
      assume c: "\<not> START ?mm m \<le> START ?mm n"
      then have "m \<noteq> n" by auto
      from mm_blocks_disjoint [OF mm m(1) n this] c e [OF n] e [OF m(1)] en m(2) s p0
      show False by (auto simp: word_le_nat_alt word_less_nat_alt)
    qed
    then show ?thesis unfolding vma_lookup_best_iff [OF mm] by auto
  qed
  also have "\<dots> \<longleftrightarrow> (\<exists>b e. vma_block mgr n = Some (b, e) \<and> b \<le> unat a \<and> unat a + unat p \<le> e)"
    using e s
    by (auto simp: vma_block_Some drm_vma_node_start_def drm_vma_node_size_def word_le_nat_alt word_less_nat_alt not_less)
  finally show ?thesis .
qed

text \<open>
  The end of the requested range is computed modulo the word size, so a request that wraps around is
  answered with the object at its start although no object spans it.
\<close>

lemma vma_lookup_wraps:
  assumes inv: "vma_inv mgr" and n: "vma_block mgr n = Some (b, e)" "b \<le> unat a" "unat a < e"
    and wrap: "unat a + unat p = 2 ^ 64"
  shows "drm_vma_offset_lookup_locked mgr a p = Some n" and "e < unat a + unat p"
proof -
  have "e < 2 ^ 64"
  proof -
    have "mm_chain (mm_nodes (vm_addr_space_mm mgr)) (mm_lo (vm_addr_space_mm mgr))
        (mm_node_list (vm_addr_space_mm mgr)) (mm_hi (vm_addr_space_mm mgr))"
      using inv by (simp add: vma_inv_def mm_inv_def mm_layout_def)
    from mm_chain_mem [OF this, of n] n(1) unat_64_less [of "drm_vma_node_start mgr n + drm_vma_node_size mgr n"]
    show ?thesis by (auto simp: vma_block_Some drm_vma_node_start_def drm_vma_node_size_def unat_plus_nowrap)
  qed
  with wrap show "e < unat a + unat p" by simp
  have "drm_vma_offset_lookup_locked mgr a 1 = Some n"
    using vma_lookup_iff [OF inv, of 1 a n] n \<open>e < 2 ^ 64\<close> by auto
  moreover have "a + p = 0" using wrap by (simp add: word_unat_eq_iff unat_word_ariths)
  ultimately show "drm_vma_offset_lookup_locked mgr a p = Some n"
    by (auto simp: drm_vma_offset_lookup_locked_def Let_def split: option.splits if_splits)
qed

section \<open>The contract of the address space\<close>

lemma vma_node_allocated:
  "vma_inv mgr \<Longrightarrow> drm_mm_node_allocated (vm_addr_space_mm mgr) n \<longleftrightarrow> vma_block mgr n \<noteq> None"
  by (auto simp: vma_inv_def mm_inv_def mm_layout_def drm_mm_node_allocated_def vma_block_def mm_blocks_def)

lemma vma_node_fresh:
  "vma_node mgr n \<Longrightarrow> vma_block mgr n = None \<Longrightarrow> n \<notin> set (mm_ring (vm_addr_space_mm mgr))"
  by (auto simp: vma_node_def vma_block_def mm_blocks_def split: if_splits)

lemma vma_add_result:
  assumes inv: "vma_inv mgr" and n: "vma_node mgr n" and p: "p \<noteq> 0"
  shows "drm_vma_offset_add mgr n p = Some (Inl ENOSPC) \<or>
    (\<exists>mgr' a. drm_vma_offset_add mgr n p = Some (Inr mgr') \<and> vma_inv mgr' \<and> a + unat p < 2 ^ 64 \<and>
      vma_block mgr' = (if vma_block mgr n = None then (vma_block mgr)(n \<mapsto> (a, a + unat p)) else vma_block mgr))"
proof (cases "vma_block mgr n = None")
  case True
  let ?mm = "vm_addr_space_mm mgr"
  have na: "\<not> drm_mm_node_allocated ?mm n" using vma_node_allocated [OF inv] True by simp
  have mm: "mm_inv ?mm" "mm_color_adjust ?mm = None" using inv by (simp_all add: vma_inv_def)
  have sb: "\<not> nd_scanned_block (mm_nodes ?mm n)" using n by (simp add: vma_node_def)
  have "0 \<le> (- 1 :: u64)" by simp
  from drm_mm_insert_candidate [OF mm p this vma_node_fresh [OF n True] sb, of 0 0 DRM_MM_INSERT_BEST]
  consider "drm_mm_insert_node ?mm n p = Some (Inl ENOSPC)"
    | s mm' where "drm_mm_insert_node ?mm n p = Some (Inr mm')" "mm_candidate ?mm p 0 0 (- 1) (unat s)" "mm_inv mm'"
      "mm_blocks mm' = (mm_blocks ?mm)(n \<mapsto> (s, p, 0))" "mm_color_adjust mm' = None"
    unfolding drm_mm_insert_node_def drm_mm_insert_node_generic_def by blast
  then show ?thesis
  proof cases
    case 1
    with na show ?thesis by (simp add: drm_vma_offset_add_def)
  next
    case 2
    have "unat s + unat p < 2 ^ 64"
      using 2(2) unat_64_less [of "- 1"] by (auto simp: mm_candidate_def)
    moreover have "vma_block (mgr\<lparr>vm_addr_space_mm := mm'\<rparr>) = (vma_block mgr)(n \<mapsto> (unat s, unat s + unat p))"
      using 2(4) by (simp add: fun_eq_iff vma_block_def)
    ultimately show ?thesis
      using na 2 True by (intro disjI2 exI [of _ "mgr\<lparr>vm_addr_space_mm := mm'\<rparr>"] exI [of _ "unat s"])
        (simp add: drm_vma_offset_add_def vma_inv_def)
  qed
next
  case False
  then show ?thesis
    using vma_node_allocated [OF inv, of n] inv unat_64_less [of p]
    by (intro disjI2 exI [of _ mgr] exI [of _ 0]) (auto simp: drm_vma_offset_add_def)
qed

lemma vma_remove_result:
  assumes inv: "vma_inv mgr" and n: "vma_node mgr n"
  shows "\<exists>mgr'. drm_vma_offset_remove mgr n = Some mgr' \<and> vma_inv mgr' \<and> vma_block mgr' = (vma_block mgr)(n := None) \<and>
    (vma_block mgr n \<noteq> None \<longrightarrow> drm_vma_node_start mgr' n = 0 \<and> drm_vma_node_size mgr' n = 0)"
proof (cases "vma_block mgr n = None")
  case True
  then have "(vma_block mgr)(n := None) = vma_block mgr" by auto
  then show ?thesis using True vma_node_allocated [OF inv, of n] inv by (simp add: drm_vma_offset_remove_def)
next
  case False
  let ?mm = "vm_addr_space_mm mgr"
  have na: "drm_mm_node_allocated ?mm n" using vma_node_allocated [OF inv] False by simp
  have mm: "mm_inv ?mm" "mm_color_adjust ?mm = None" using inv by (simp_all add: vma_inv_def)
  have "n \<in> set (mm_node_list ?mm)" using False by (auto simp: vma_block_def mm_blocks_def split: if_splits)
  from drm_mm_remove_blocks [OF mm(1) this] mm(2) obtain mm' where mm': "drm_mm_remove_node n ?mm = Some mm'" "mm_inv mm'"
    "mm_blocks mm' = (mm_blocks ?mm)(n := None)" "mm_color_adjust mm' = None" by auto
  let ?mm' = "mm_set n (\<lambda>_. drm_mm_node_zero) mm'"
  have out: "n \<notin> set (mm_node_list mm')"
    using mm'(3) by (auto simp: mm_blocks_def fun_eq_iff split: if_splits) 
  then have "\<not> nd_allocated (mm_nodes mm' n)" using mm'(2) by (simp add: mm_inv_def mm_layout_def)
  then have inv': "mm_inv ?mm'"
    using out n mm'(2) by (intro mm_set_fresh(1)) (auto simp: vma_node_def drm_mm_node_zero_def)
  have "mm_blocks ?mm' = mm_blocks mm'" using out by (auto simp: mm_blocks_def mm_set_def)
  then have "vma_block (mgr\<lparr>vm_addr_space_mm := ?mm'\<rparr>) = (vma_block mgr)(n := None)"
    using mm'(3) by (simp add: fun_eq_iff vma_block_def)
  with inv' mm' na show ?thesis
    by (simp add: drm_vma_offset_remove_def vma_inv_def drm_vma_node_start_def drm_vma_node_size_def)
      (simp add: mm_set_def drm_mm_node_zero_def)
qed

interpretation vma: offset_space vma_inv vma_node vma_block drm_vma_offset_add drm_vma_offset_remove
  drm_vma_offset_lookup_locked
proof (unfold_locales, goal_cases)
  case (1 s n p)
  then show ?case by (rule vma_add_result)
next
  case (2 s n)
  then show ?case using vma_remove_result by blast
next
  case (3 s p a n)
  then show ?case by (rule vma_lookup_iff)
qed

section \<open>The files that are allowed\<close>

text \<open>How often a tag has been granted access.\<close>

definition vma_files_inv :: "(drm_vma_offset_file, unit) rb_tree \<Rightarrow> bool" where
  "vma_files_inv t \<longleftrightarrow> rb_inv t \<and> sorted_wrt (\<lambda>e f. vm_tag e < vm_tag f) (rb_inorder t) \<and>
     (\<forall>e\<in>set (rb_inorder t). vm_count e \<noteq> 0)"

definition vma_counts :: "drm_vma_offset_file list \<Rightarrow> u64 \<Rightarrow> nat" where
  "vma_counts fs tag = (case find (\<lambda>e. vm_tag e = tag) fs of None \<Rightarrow> 0 | Some e \<Rightarrow> unat (vm_count e))"

abbreviation vma_users :: "drm_vma_offset_node \<Rightarrow> u64 \<Rightarrow> nat" where
  "vma_users node \<equiv> vma_counts (rb_inorder (vm_files node))"

lemma vma_counts_middle:
  assumes "\<forall>f\<in>set us. vm_tag f < vm_tag e"
  shows "vma_counts (us @ e # vs) = (vma_counts (us @ vs))(vm_tag e := unat (vm_count e))"
proof
  fix tag
  have "find (\<lambda>f. vm_tag f = tag) (us @ e # vs) =
      (if tag = vm_tag e then Some e else find (\<lambda>f. vm_tag f = tag) (us @ vs))"
    using assms by (induction us) auto
  then show "vma_counts (us @ e # vs) tag = ((vma_counts (us @ vs))(vm_tag e := unat (vm_count e))) tag"
    by (simp add: vma_counts_def)
qed

lemma vma_counts_absent: "(\<And>f. f \<in> set fs \<Longrightarrow> vm_tag f \<noteq> tag) \<Longrightarrow> vma_counts fs tag = 0"
  by (simp add: vma_counts_def find_None_iff [THEN iffD2])

lemma vma_find_file_place:
  assumes "sorted_wrt (\<lambda>e f. vm_tag e < vm_tag f) (rb_inorder t)" and "vma_find_file tag t ps = (t', qs)"
  shows "rb_plug t' qs = rb_plug t ps \<and> (\<exists>us vs. rb_inorder t = us @ rb_inorder t' @ vs \<and>
      rb_before qs = rb_before ps @ us \<and> rb_after qs = vs @ rb_after ps \<and>
      (\<forall>e\<in>set us. vm_tag e < tag) \<and> (\<forall>e\<in>set vs. tag < vm_tag e)) \<and>
    (case t' of RB_NULL \<Rightarrow> True | RB_Node l c e a r \<Rightarrow> vm_tag e = tag)"
  using assms
proof (induction tag t ps arbitrary: t' qs rule: vma_find_file.induct)
  case (2 tag l c e a r ps)
  consider "tag = vm_tag e" | "vm_tag e < tag" | "tag < vm_tag e" by (metis linorder_neqE)
  then show ?case
  proof cases
    case 1
    with 2(4) show ?thesis by auto
  next
    case 2
    then have "tag \<noteq> vm_tag e" by auto
    with 2 "2.IH"(1) "2.prems" obtain us vs where *: "rb_plug t' qs = rb_plug r (RightOf l c e a # ps)"
      "rb_inorder r = us @ rb_inorder t' @ vs" "rb_before qs = rb_before (RightOf l c e a # ps) @ us"
      "rb_after qs = vs @ rb_after (RightOf l c e a # ps)" "\<forall>e\<in>set us. vm_tag e < tag" "\<forall>e\<in>set vs. tag < vm_tag e"
      "case t' of RB_NULL \<Rightarrow> True | RB_Node l c e a r \<Rightarrow> vm_tag e = tag"
      by (auto simp: sorted_wrt_append)
    have "\<forall>f\<in>set (rb_inorder l @ e # us). vm_tag f < tag"
      using "2.prems"(1) 2 *(5) by (auto simp: sorted_wrt_append intro: less_trans)
    with * show ?thesis by (intro conjI exI [of _ "rb_inorder l @ e # us"] exI [of _ vs]) auto
  next
    case 3
    then have "\<not> vm_tag e < tag" "tag \<noteq> vm_tag e" by auto
    with "2.IH"(2) "2.prems" obtain us vs where *: "rb_plug t' qs = rb_plug l (LeftOf c e a r # ps)"
      "rb_inorder l = us @ rb_inorder t' @ vs" "rb_before qs = rb_before (LeftOf c e a r # ps) @ us"
      "rb_after qs = vs @ rb_after (LeftOf c e a r # ps)" "\<forall>e\<in>set us. vm_tag e < tag" "\<forall>e\<in>set vs. tag < vm_tag e"
      "case t' of RB_NULL \<Rightarrow> True | RB_Node l c e a r \<Rightarrow> vm_tag e = tag"
      by (auto simp: sorted_wrt_append)
    have "\<forall>f\<in>set (vs @ e # rb_inorder r). tag < vm_tag f"
      using "2.prems"(1) 3 *(6) by (auto simp: sorted_wrt_append intro: less_trans)
    with * show ?thesis by (intro conjI exI [of _ us] exI [of _ "vs @ e # rb_inorder r"]) auto
  qed
qed auto

text \<open>What the search finds, over the list of the entries.\<close>

lemma vma_find_fileE:
  assumes inv: "vma_files_inv t"
  obtains (absent) us vs qs where "vma_find_file tag t [] = (RB_NULL, qs)" "rb_inv (rb_plug RB_NULL qs)"
      "rb_inorder t = us @ vs" "rb_before qs = us" "rb_after qs = vs"
      "\<forall>e\<in>set us. vm_tag e < tag" "\<forall>e\<in>set vs. tag < vm_tag e"
  | (present) us vs l c e r qs where "vma_find_file tag t [] = (RB_Node l c e () r, qs)"
      "\<And>e'. rb_inv (rb_plug (RB_Node l c e' () r) qs)" "\<And>e'. rb_inorder (rb_plug (RB_Node l c e' () r) qs) = us @ e' # vs"
      "rb_inorder t = us @ e # vs" "vm_tag e = tag" "\<forall>f\<in>set us. vm_tag f < tag" "\<forall>f\<in>set vs. tag < vm_tag f"
proof -
  obtain t' qs where f: "vma_find_file tag t [] = (t', qs)" by fastforce
  have srt: "sorted_wrt (\<lambda>e f. vm_tag e < vm_tag f) (rb_inorder t)" and rb: "rb_inv t"
    using inv by (simp_all add: vma_files_inv_def)
  from vma_find_file_place [OF srt f] obtain us vs where p: "rb_plug t' qs = t" "rb_inorder t = us @ rb_inorder t' @ vs"
    "rb_before qs = us" "rb_after qs = vs" "\<forall>e\<in>set us. vm_tag e < tag" "\<forall>e\<in>set vs. tag < vm_tag e"
    "case t' of RB_NULL \<Rightarrow> True | RB_Node l c e a r \<Rightarrow> vm_tag e = tag" by auto
  show thesis
  proof (cases t')
    case RB_NULL
    with p f rb absent [of qs us vs] show thesis by simp
  next
    case (RB_Node l c e a r)
    have "rb_inv (rb_plug (RB_Node l c e' () r) qs)" for e'
      using rb p(1) RB_Node by (cases c) (auto simp: rb_inv_plug)
    moreover have "\<forall>f\<in>set (us @ rb_inorder l). vm_tag f < tag" "\<forall>f\<in>set (rb_inorder r @ vs). tag < vm_tag f"
      using srt p(2,5,6,7) RB_Node by (auto simp: sorted_wrt_append)
    ultimately show thesis
      using present [of l c e r qs "us @ rb_inorder l" "rb_inorder r @ vs"] f p RB_Node by simp
  qed
qed

lemma vma_files_inv_middle:
  assumes "rb_inv t'" and "rb_inorder t' = us @ e # vs" and "vma_files_inv t" and "set (us @ vs) \<subseteq> set (rb_inorder t)"
    and "sorted_wrt (\<lambda>e f. vm_tag e < vm_tag f) (us @ vs)"
    and "\<forall>f\<in>set us. vm_tag f < vm_tag e" and "\<forall>f\<in>set vs. vm_tag e < vm_tag f" and "vm_count e \<noteq> 0"
  shows "vma_files_inv t'"
  using assms by (auto simp: vma_files_inv_def sorted_wrt_append)

lemma vma_allow_result:
  assumes inv: "vma_files_inv (vm_files node)" and count: "Suc (vma_users node tag) < 2 ^ 64"
  shows "(\<not> new \<and> vma_users node tag = 0 \<and> drm_vma_node_allow new tag node = Some (Inl ENOMEM)) \<or>
    (\<exists>t. drm_vma_node_allow new tag node = Some (Inr (node\<lparr>vm_files := t\<rparr>)) \<and> vma_files_inv t \<and>
      vma_counts (rb_inorder t) = (vma_users node)(tag := Suc (vma_users node tag)))"
  using inv
proof (cases rule: vma_find_fileE [where tag = tag])
  case (absent us vs qs)
  have no: "vma_users node tag = 0" using absent by (intro vma_counts_absent) auto
  let ?e = "\<lparr>vm_tag = tag, vm_count = 1\<rparr>"
  obtain t where t: "rb_insert_color (\<lambda>_ _ _. ()) ?e () qs = Some t" "rb_inv t" "rb_inorder t = us @ ?e # vs"
    using rb_insert_color_correct [OF absent(2), of "\<lambda>_ _ _. ()" ?e "()"] absent(4,5) by blast
  have "vma_files_inv t"
    by (rule vma_files_inv_middle [OF t(2,3) inv]) (use inv absent in \<open>auto simp: vma_files_inv_def\<close>)
  moreover have "vma_counts (rb_inorder t) = (vma_users node)(tag := 1)"
    using vma_counts_middle [of us ?e vs] absent(3,6) t(3) by simp
  ultimately show ?thesis using absent(1) t(1) no by (cases new) (auto simp: drm_vma_node_allow_def)
next
  case (present us vs l c e r qs)
  let ?e = "e\<lparr>vm_count := vm_count e + 1\<rparr>"
  have e: "vma_users node tag = unat (vm_count e)" using vma_counts_middle [of us e vs] present by simp
  with count have c: "unat (vm_count e + 1) = Suc (vma_users node tag)"
    by (simp add: unat_word_ariths)
  then have "vm_count e + 1 \<noteq> 0" by auto
  have "vma_files_inv (rb_plug (RB_Node l c ?e () r) qs)"
    by (rule vma_files_inv_middle [OF present(2,3) inv])
      (use inv present \<open>vm_count e + 1 \<noteq> 0\<close> in \<open>auto simp: vma_files_inv_def sorted_wrt_append\<close>)
  moreover have "vma_counts (us @ ?e # vs) = (vma_users node)(tag := Suc (vma_users node tag))"
    using vma_counts_middle [of us ?e vs] vma_counts_middle [of us e vs] present(4-7) c by simp
  ultimately show ?thesis using present(1,3) by (auto simp: drm_vma_node_allow_def)
qed

lemma vma_tags_distinct: "sorted_wrt (\<lambda>e f. vm_tag e < vm_tag f) fs \<Longrightarrow> distinct fs"
  by (induction fs) auto

lemma vma_revoke_result:
  assumes inv: "vma_files_inv (vm_files node)"
  shows "\<exists>t. drm_vma_node_revoke tag node = Some (node\<lparr>vm_files := t\<rparr>) \<and> vma_files_inv t \<and>
    vma_counts (rb_inorder t) = (vma_users node)(tag := vma_users node tag - 1)"
  using inv
proof (cases rule: vma_find_fileE [where tag = tag])
  case (absent us vs qs)
  have "vma_users node tag = 0" using absent by (intro vma_counts_absent) auto
  then have "(vma_users node)(tag := vma_users node tag - 1) = vma_users node" by auto
  with inv absent(1) show ?thesis
    by (intro exI [of _ "vm_files node"]) (simp add: drm_vma_node_revoke_def)
next
  case (present us vs l c e r qs)
  let ?e = "e\<lparr>vm_count := vm_count e - 1\<rparr>"
  let ?t = "rb_plug (RB_Node l c ?e () r) qs"
  have e: "vma_users node tag = unat (vm_count e)" using vma_counts_middle [of us e vs] present by simp
  have "vm_count e \<noteq> 0" using inv present(4) by (auto simp: vma_files_inv_def)
  then have "1 \<le> vm_count e" by (simp add: word_le_nat_alt Suc_le_eq unat_gt_0)
  then have c: "unat (vm_count e - 1) = vma_users node tag - 1" using e by (simp add: unat_sub)
  note mid = vma_counts_middle [of us ?e vs] vma_counts_middle [of us e vs]
  show ?thesis
  proof (cases "vm_count e - 1 = 0")
    case True
    have srt: "sorted_wrt (\<lambda>e f. vm_tag e < vm_tag f) (us @ ?e # vs)"
      using inv present by (auto simp: vma_files_inv_def sorted_wrt_append)
    then have dist: "distinct (us @ ?e # vs)" by (rule vma_tags_distinct)
    have i: "rb_inorder ?t = us @ ?e # vs" by (rule present(3))
    have "?e \<in> set (rb_inorder ?t)" "distinct (rb_inorder ?t)" unfolding i using dist by simp_all
    from rb_erase_correct [OF present(2) this, of "\<lambda>_ _ _. ()"] obtain t where
      t: "rb_erase (\<lambda>_ _ _. ()) ?e ?t = Some t" "rb_inv t" "rb_inorder t = us @ vs"
      unfolding i using dist by (auto simp: remove1_append)
    have "vma_files_inv t" using inv t(2,3) present(4) by (auto simp: vma_files_inv_def sorted_wrt_append)
    moreover have "vma_counts (us @ vs) = (vma_users node)(tag := vma_users node tag - 1)"
    proof -
      have "vma_counts (us @ vs) tag = 0" using present(6,7) by (intro vma_counts_absent) auto
      then show ?thesis using mid(2) present(4-7) True c by auto
    qed
    ultimately show ?thesis using present(1) t True by (auto simp: drm_vma_node_revoke_def Let_def)
  next
    case False
    have "vma_files_inv ?t"
      by (rule vma_files_inv_middle [OF present(2,3) inv])
        (use inv present False in \<open>auto simp: vma_files_inv_def sorted_wrt_append\<close>)
    moreover have "vma_counts (us @ ?e # vs) = (vma_users node)(tag := vma_users node tag - 1)"
      using mid present(4-7) c by simp
    ultimately show ?thesis using present(1,3) False by (auto simp: drm_vma_node_revoke_def Let_def)
  qed
qed

lemma vma_is_allowed_iff:
  assumes "vma_files_inv (vm_files node)"
  shows "drm_vma_node_is_allowed tag node \<longleftrightarrow> 0 < vma_users node tag"
  using assms
proof (cases rule: vma_find_fileE [where tag = tag])
  case (absent us vs qs)
  have "vma_users node tag = 0" using absent by (intro vma_counts_absent) auto
  with absent(1) show ?thesis by (simp add: drm_vma_node_is_allowed_def)
next
  case (present us vs l c e r qs)
  then have "vma_users node tag = unat (vm_count e)" "vm_count e \<noteq> 0"
    using vma_counts_middle [of us e vs] assms by (auto simp: vma_files_inv_def)
  with present(1) show ?thesis by (simp add: drm_vma_node_is_allowed_def unat_gt_0)
qed

section \<open>Sequences of grants\<close>

datatype vma_op = Allow u64 | Revoke u64

text \<open>A sequence of calls where memory does not run out; their results are the node after each.\<close>

fun vma_run :: "vma_op list \<Rightarrow> drm_vma_offset_node \<Rightarrow> drm_vma_offset_node option" where
  "vma_run [] node = Some node"
| "vma_run (Allow tag # ops) node =
     (case drm_vma_node_allow True tag node of Some (Inr node') \<Rightarrow> vma_run ops node' | _ \<Rightarrow> None)"
| "vma_run (Revoke tag # ops) node =
     (case drm_vma_node_revoke tag node of Some node' \<Rightarrow> vma_run ops node' | None \<Rightarrow> None)"

text \<open>The specification: a counter for each file that does not go below 0.\<close>

fun vma_spec :: "vma_op list \<Rightarrow> (u64 \<Rightarrow> nat) \<Rightarrow> u64 \<Rightarrow> nat" where
  "vma_spec [] users = users"
| "vma_spec (Allow tag # ops) users = vma_spec ops (users(tag := Suc (users tag)))"
| "vma_spec (Revoke tag # ops) users = vma_spec ops (users(tag := users tag - 1))"

lemma vma_run_refines:
  assumes "vma_files_inv (vm_files node)" and "\<And>tag. vma_users node tag + length ops < 2 ^ 64"
  shows "\<exists>t. vma_run ops node = Some (node\<lparr>vm_files := t\<rparr>) \<and> vma_files_inv t \<and>
    vma_counts (rb_inorder t) = vma_spec ops (vma_users node)"
  using assms
proof (induction ops node rule: vma_run.induct)
  case (1 node)
  then show ?case by (intro exI [of _ "vm_files node"]) simp
next
  case (2 tag ops node)
  have "Suc (vma_users node tag) < 2 ^ 64" using 2(3) [of tag] by simp
  from vma_allow_result [OF 2(2) this, of True] obtain t where
    t: "drm_vma_node_allow True tag node = Some (Inr (node\<lparr>vm_files := t\<rparr>))" "vma_files_inv t"
      "vma_counts (rb_inorder t) = (vma_users node)(tag := Suc (vma_users node tag))" by auto
  have "vma_users (node\<lparr>vm_files := t\<rparr>) tag' + length ops < 2 ^ 64" for tag'
    using 2(3) [of tag'] by (auto simp: t(3))
  with 2(1) [OF t(1) refl] t show ?case by (auto simp: fun_upd_def)
next
  case (3 tag ops node)
  obtain t where t: "drm_vma_node_revoke tag node = Some (node\<lparr>vm_files := t\<rparr>)" "vma_files_inv t"
      "vma_counts (rb_inorder t) = (vma_users node)(tag := vma_users node tag - 1)"
    using vma_revoke_result [OF 3(2)] by blast
  have "vma_users (node\<lparr>vm_files := t\<rparr>) tag' + length ops < 2 ^ 64" for tag'
    using 3(3) [of tag'] by (auto simp: t(3))
  with 3(1) [OF t(1)] t show ?case by (auto simp: fun_upd_def)
qed

section \<open>Properties\<close>

text \<open>
  C12. The access list of a buffer object counts references. After any sequence of \<^verbatim>\<open>drm_vma_node_allow\<close>
  and \<^verbatim>\<open>drm_vma_node_revoke\<close> on a fresh node, in any order and for any files,
  \<^verbatim>\<open>drm_vma_node_is_allowed\<close> holds exactly for the files with more grants than revocations, where a
  revocation without a grant does nothing, and \<^verbatim>\<open>drm_vma_node_verify_access\<close> returns \<^verbatim>\<open>-EACCES\<close> for the
  others. The red-black tree stays balanced and no call fails.
\<close>

theorem vma_access_counts:
  assumes "length ops < 2 ^ 64"
  shows "\<exists>node. vma_run ops (fst (drm_vma_node_reset n mgr)) = Some node \<and> rb_inv (vm_files node) \<and>
    (\<forall>tag. drm_vma_node_is_allowed tag node = (0 < vma_spec ops (\<lambda>_. 0) tag) \<and>
      drm_vma_node_verify_access tag node = (if 0 < vma_spec ops (\<lambda>_. 0) tag then None else Some EACCES))"
proof -
  let ?node = "fst (drm_vma_node_reset n mgr)"
  have e: "rb_inorder (vm_files ?node) = []" by (simp add: drm_vma_node_reset_def)
  then have u: "vma_users ?node = (\<lambda>_. 0)" by (simp add: fun_eq_iff vma_counts_def)
  have "vma_files_inv (vm_files ?node)" by (simp add: vma_files_inv_def drm_vma_node_reset_def rb_inv_def)
  from vma_run_refines [OF this, of ops] assms u obtain t where t: "vma_run ops ?node = Some (?node\<lparr>vm_files := t\<rparr>)"
    "vma_files_inv t" "vma_counts (rb_inorder t) = vma_spec ops (\<lambda>_. 0)" by auto
  with vma_is_allowed_iff [of "?node\<lparr>vm_files := t\<rparr>"] show ?thesis
    by (simp add: drm_vma_node_verify_access_def vma_files_inv_def)
qed

theorem vma_access_counts_witness:
  "\<exists>node. vma_run [Allow 7, Allow 3, Allow 7, Revoke 3, Revoke 5, Revoke 7] (fst (drm_vma_node_reset 1 \<lparr>vm_addr_space_mm = mm_example\<rparr>)) = Some node \<and>
    drm_vma_node_is_allowed 7 node \<and> \<not> drm_vma_node_is_allowed 3 node \<and>
    drm_vma_node_verify_access 5 node = Some EACCES"
  using vma_access_counts [of "[Allow 7, Allow 3, Allow 7, Revoke 3, Revoke 5, Revoke 7]" 1 "\<lparr>vm_addr_space_mm = mm_example\<rparr>"] by auto

text \<open>
  C32. \<^verbatim>\<open>drm_vma_offset_lookup_locked\<close> finds an object exactly when its block contains the whole requested
  range of pages, and the exact lookup exactly when the block also starts there. The range must not be
  empty and its end must be representable.
\<close>

theorem vma_lookup_exact:
  assumes "vma_inv mgr" and "pages \<noteq> 0" and "unat start + unat pages < 2 ^ 64"
  shows "(drm_vma_offset_lookup_locked mgr start pages = Some n \<longleftrightarrow>
      drm_mm_node_allocated (vm_addr_space_mm mgr) n \<and> drm_vma_node_start mgr n \<le> start \<and>
      unat start + unat pages \<le> unat (drm_vma_node_start mgr n) + unat (drm_vma_node_size mgr n)) \<and>
    (drm_vma_offset_exact_lookup_locked mgr start pages = Some n \<longleftrightarrow>
      drm_mm_node_allocated (vm_addr_space_mm mgr) n \<and> drm_vma_node_start mgr n = start \<and>
      pages \<le> drm_vma_node_size mgr n)"
proof -
  have l: "drm_vma_offset_lookup_locked mgr start pages = Some n \<longleftrightarrow>
      drm_mm_node_allocated (vm_addr_space_mm mgr) n \<and> drm_vma_node_start mgr n \<le> start \<and>
      unat start + unat pages \<le> unat (drm_vma_node_start mgr n) + unat (drm_vma_node_size mgr n)" for n
    unfolding vma_lookup_iff [OF assms] vma_node_allocated [OF assms(1)]
    by (auto simp: vma_block_Some word_le_nat_alt)
  have x: "drm_vma_offset_exact_lookup_locked mgr start pages = Some n \<longleftrightarrow>
      drm_vma_offset_lookup_locked mgr start pages = Some n \<and> drm_vma_node_start mgr n = start"
    by (auto simp: drm_vma_offset_exact_lookup_locked_def drm_vma_node_start_def split: option.splits)
  show ?thesis unfolding x l by (auto simp: word_le_nat_alt)
qed

text \<open>A manager of the pages 4096 to 69631 with one object of 8192 pages.\<close>

definition vma_example :: drm_vma_offset_manager where
  "vma_example = \<lparr>vm_addr_space_mm = mm_example1\<rparr>"

lemma vma_example:
  "vma_inv vma_example" "drm_mm_node_allocated (vm_addr_space_mm vma_example) 1"
  "drm_vma_node_start vma_example 1 = 4096" "drm_vma_node_size vma_example 1 = 8192"
proof -
  have b: "mm_blocks mm_example1 1 = Some (4096, 8192, 0)" by (simp add: mm_example1)
  then show "drm_vma_node_start vma_example 1 = 4096" "drm_vma_node_size vma_example 1 = 8192"
    by (simp_all add: vma_example_def drm_vma_node_start_def drm_vma_node_size_def mm_blocks_def split: if_splits)
  show i: "vma_inv vma_example" by (simp add: vma_inv_def vma_example_def mm_example1)
  show "drm_mm_node_allocated (vm_addr_space_mm vma_example) 1"
    using vma_node_allocated [OF i, of 1] b by (simp add: vma_block_def vma_example_def)
qed

theorem vma_lookup_exact_witness:
  "drm_vma_offset_lookup_locked vma_example 5000 100 = Some 1 \<and>
   drm_vma_offset_exact_lookup_locked vma_example 5000 100 \<noteq> Some 1 \<and>
   drm_vma_offset_exact_lookup_locked vma_example 4096 8192 = Some 1"
  using vma_lookup_exact [OF vma_example(1), of 100 5000 1] vma_lookup_exact [OF vma_example(1), of 8192 4096 1]
    vma_example
  by simp

lemma vma_add_full:
  assumes inv: "vma_inv mgr" and n: "vma_node mgr n" and none: "vma_block mgr n = None" and p: "p \<noteq> 0"
    and full: "drm_vma_offset_add mgr n p = Some (Inl e)"
  shows "\<not> (\<exists>s. mm_candidate (vm_addr_space_mm mgr) p 0 0 (- 1) s)"
proof -
  let ?mm = "vm_addr_space_mm mgr"
  have mm: "mm_inv ?mm" "mm_color_adjust ?mm = None" using inv by (simp_all add: vma_inv_def)
  have "drm_mm_insert_node ?mm n p = Some (Inl e)"
  proof -
    have "map_option (map_sum id (\<lambda>mm. mgr\<lparr>vm_addr_space_mm := mm\<rparr>)) (drm_mm_insert_node ?mm n p) = Some (Inl e)"
      using full vma_node_allocated [OF inv, of n] none by (simp add: drm_vma_offset_add_def)
    then show ?thesis by (cases "drm_mm_insert_node ?mm n p"; cases "the (drm_mm_insert_node ?mm n p)") auto
  qed
  moreover have "0 \<le> (- 1 :: u64)" "\<not> nd_scanned_block (mm_nodes ?mm n)" using n by (simp_all add: vma_node_def)
  ultimately show ?thesis
    using drm_mm_insert_candidate [OF mm p _ vma_node_fresh [OF n none], of 0 "- 1" 0 0 DRM_MM_INSERT_BEST]
    by (auto simp: drm_mm_insert_node_def drm_mm_insert_node_generic_def)
qed

text \<open>
  C33. Objects and offsets fit together over the two components. Adding an object that has no offset
  gives it a range of the requested size, which the exact lookup then finds, and every other object is still
  found where it was; it returns \<^verbatim>\<open>-ENOSPC\<close> only if the address space has no free range of that size.
\<close>

theorem vma_add_lookup:
  assumes inv: "vma_inv mgr" and n: "vma_node mgr n" and free: "\<not> drm_mm_node_allocated (vm_addr_space_mm mgr) n"
    and pages: "pages \<noteq> 0" and other: "m \<noteq> n" "p \<noteq> 0" "unat a + unat p < 2 ^ 64"
  shows "case drm_vma_offset_add mgr n pages of
      Some (Inr mgr') \<Rightarrow> vma_inv mgr' \<and> drm_vma_node_size mgr' n = pages \<and>
        drm_vma_offset_exact_lookup_locked mgr' (drm_vma_node_start mgr' n) pages = Some n \<and>
        (drm_vma_offset_lookup_locked mgr' a p = Some m) = (drm_vma_offset_lookup_locked mgr a p = Some m)
    | Some (Inl e) \<Rightarrow> e = ENOSPC \<and> \<not> (\<exists>s. mm_candidate (vm_addr_space_mm mgr) pages 0 0 (- 1) s)
    | None \<Rightarrow> False"
proof -
  have none: "vma_block mgr n = None" using vma_node_allocated [OF inv, of n] free by blast
  consider "drm_vma_offset_add mgr n pages = Some (Inl ENOSPC)"
    | mgr' where "drm_vma_offset_add mgr n pages = Some (Inr mgr')" "vma_inv mgr'"
    using vma.add_result [OF inv n pages] by blast
  then show ?thesis
  proof cases
    case 2
    obtain b where b: "vma_block mgr' n = Some (unat b, unat b + unat pages)"
      "drm_vma_offset_lookup_locked mgr' b pages = Some n"
      using vma.find_added [OF inv n pages none 2(1)] by blast
    then have s: "b = drm_vma_node_start mgr' n" "drm_vma_node_size mgr' n = pages"
      by (simp_all add: vma_block_Some word_unat_eq_iff)
    have "drm_vma_offset_exact_lookup_locked mgr' (drm_vma_node_start mgr' n) pages = Some n"
      using b(2) s(1) by (simp add: drm_vma_offset_exact_lookup_locked_def drm_vma_node_start_def)
    then show ?thesis
      using 2 s(2) vma.find_other [OF inv n pages 2(1) other] by simp
  next
    case 1
    with vma_add_full [OF inv n none pages] show ?thesis by simp
  qed
qed

lemma vma_empty_example:
  "vma_inv \<lparr>vm_addr_space_mm = mm_example\<rparr>" "n \<noteq> 0 \<Longrightarrow> vma_node \<lparr>vm_addr_space_mm = mm_example\<rparr> n"
  "n \<noteq> 0 \<Longrightarrow> \<not> drm_mm_node_allocated (vm_addr_space_mm \<lparr>vm_addr_space_mm = mm_example\<rparr>) n"
  using mm_example_fresh [of n]
  by (simp_all add: vma_inv_def vma_node_def mm_example drm_mm_node_allocated_def drm_mm_node_zero_def HEAD_def)

theorem vma_add_lookup_witness:
  "\<exists>mgr'. drm_vma_offset_add \<lparr>vm_addr_space_mm = mm_example\<rparr> 3 16 = Some (Inr mgr') \<and> drm_vma_node_size mgr' 3 = 16 \<and>
     drm_vma_offset_exact_lookup_locked mgr' (drm_vma_node_start mgr' 3) 16 = Some 3"
proof -
  have "mm_candidate mm_example 16 0 0 (- 1) 4096" by (simp add: mm_candidate_def mm_range_free_def mm_example unsigned_minus_1_eq_mask mask_eq_exp_minus_1)
  then show ?thesis
    using vma_add_lookup [OF vma_empty_example, of 3 16 4 1 0] by (auto split: option.splits sum.splits)
qed

text \<open>
  Removing an object that has an offset always succeeds. It clears the offset and the size, frees
  the address space so that no lookup finds the object any more, and leaves every other object where
  it is. Removing it again changes nothing.
\<close>

theorem vma_remove_lookup:
  assumes inv: "vma_inv mgr" and n: "vma_node mgr n" and alloc: "drm_mm_node_allocated (vm_addr_space_mm mgr) n"
    and other: "m \<noteq> n" "p \<noteq> 0" "unat a + unat p < 2 ^ 64"
  shows "\<exists>mgr'. drm_vma_offset_remove mgr n = Some mgr' \<and> vma_inv mgr' \<and>
    drm_vma_node_start mgr' n = 0 \<and> drm_vma_node_size mgr' n = 0 \<and>
    drm_vma_offset_lookup_locked mgr' a p \<noteq> Some n \<and>
    (drm_vma_offset_lookup_locked mgr' a p = Some m) = (drm_vma_offset_lookup_locked mgr a p = Some m) \<and>
    drm_vma_offset_remove mgr' n = Some mgr'"
proof -
  have "vma_block mgr n \<noteq> None" using vma_node_allocated [OF inv, of n] alloc by blast
  then obtain mgr' where r: "drm_vma_offset_remove mgr n = Some mgr'" "vma_inv mgr'"
    "vma_block mgr' = (vma_block mgr)(n := None)" "drm_vma_node_start mgr' n = 0" "drm_vma_node_size mgr' n = 0"
    using vma_remove_result [OF inv n] by blast
  have "\<not> drm_mm_node_allocated (vm_addr_space_mm mgr') n"
    using vma_node_allocated [OF r(2), of n] r(3) by simp
  then have "drm_vma_offset_remove mgr' n = Some mgr'" by (simp add: drm_vma_offset_remove_def)
  with r vma.find_deleted [OF inv n other(2,3) r(1)] other(1) show ?thesis by blast
qed

theorem vma_remove_lookup_witness:
  "\<exists>mgr'. drm_vma_offset_remove vma_example 1 = Some mgr' \<and> drm_vma_node_size mgr' 1 = 0 \<and>
    drm_vma_offset_lookup_locked mgr' 5000 100 \<noteq> Some 1"
proof -
  have "mm_blocks mm_example1 1 \<noteq> None" by (simp add: mm_example1)
  then have "1 \<in> set (mm_node_list mm_example1)" by (metis mm_blocks_def)
  then have "\<not> nd_scanned_block (mm_nodes mm_example1 1)" using mm_example1(2) by (simp add: mm_inv_def)
  then have "vma_node vma_example 1" by (simp add: vma_node_def vma_example_def HEAD_def)
  from vma_remove_lookup [OF vma_example(1) this vma_example(2), of 2 100 5000] show ?thesis by force
qed

end
