(* ===== verification/Rect.thy ===== *)
theory Rect
  imports Prelude
begin

text \<open>
  Rectangles (\<^verbatim>\<open>drm_rect.c\<close>, \<^verbatim>\<open>drm_rect.h\<close>) and the rotations of planes (\<^verbatim>\<open>drm_blend.c\<close>). A C \<^verbatim>\<open>int\<close> is a 32-bit
  word that is read with \<open>sint\<close>; the kernel is compiled with wrapping arithmetic. In
  \<^verbatim>\<open>drm_rect_clip_scaled\<close> the products are computed in 64 bits, where they cannot overflow, so they are
  integers here.
\<close>

unbundle bit_operations_syntax

section \<open>Rectangles\<close>

record drm_rect =
  rect_x1 :: s32
  rect_y1 :: s32
  rect_x2 :: s32
  rect_y2 :: s32

definition drm_rect_adjust_size :: "s32 \<Rightarrow> s32 \<Rightarrow> drm_rect \<Rightarrow> drm_rect" where
  "drm_rect_adjust_size dw dh r =
     r\<lparr>rect_x1 := rect_x1 r - signed_drop_bit 1 dw, rect_y1 := rect_y1 r - signed_drop_bit 1 dh,
       rect_x2 := rect_x2 r + signed_drop_bit 1 (dw + 1), rect_y2 := rect_y2 r + signed_drop_bit 1 (dh + 1)\<rparr>"

definition drm_rect_translate :: "s32 \<Rightarrow> s32 \<Rightarrow> drm_rect \<Rightarrow> drm_rect" where
  "drm_rect_translate dx dy r =
     r\<lparr>rect_x1 := rect_x1 r + dx, rect_y1 := rect_y1 r + dy, rect_x2 := rect_x2 r + dx, rect_y2 := rect_y2 r + dy\<rparr>"

text \<open>A division by zero is \<open>None\<close>.\<close>

definition drm_rect_downscale :: "s32 \<Rightarrow> s32 \<Rightarrow> drm_rect \<Rightarrow> drm_rect option" where
  "drm_rect_downscale horz vert r =
     (if horz = 0 \<or> vert = 0 then None
      else Some (r\<lparr>rect_x1 := s32_div (rect_x1 r) horz, rect_y1 := s32_div (rect_y1 r) vert,
                   rect_x2 := s32_div (rect_x2 r) horz, rect_y2 := s32_div (rect_y2 r) vert\<rparr>))"

definition drm_rect_width :: "drm_rect \<Rightarrow> s32" where
  "drm_rect_width r = rect_x2 r - rect_x1 r"

definition drm_rect_height :: "drm_rect \<Rightarrow> s32" where
  "drm_rect_height r = rect_y2 r - rect_y1 r"

definition drm_rect_visible :: "drm_rect \<Rightarrow> bool" where
  "drm_rect_visible r \<longleftrightarrow> sint (drm_rect_width r) > 0 \<and> sint (drm_rect_height r) > 0"

definition drm_rect_equals :: "drm_rect \<Rightarrow> drm_rect \<Rightarrow> bool" where
  "drm_rect_equals r1 r2 \<longleftrightarrow> rect_x1 r1 = rect_x1 r2 \<and> rect_x2 r1 = rect_x2 r2 \<and>
     rect_y1 r1 = rect_y1 r2 \<and> rect_y2 r1 = rect_y2 r2"

text \<open>\<^verbatim>\<open>max\<close> and \<^verbatim>\<open>min\<close> of two \<^verbatim>\<open>int\<close>.\<close>

definition s32_max :: "s32 \<Rightarrow> s32 \<Rightarrow> s32" where
  "s32_max a b = (if sint a > sint b then a else b)"

definition s32_min :: "s32 \<Rightarrow> s32 \<Rightarrow> s32" where
  "s32_min a b = (if sint a < sint b then a else b)"

definition drm_rect_intersect :: "drm_rect \<Rightarrow> drm_rect \<Rightarrow> bool \<times> drm_rect" where
  "drm_rect_intersect r1 r2 =
     (let r1 = \<lparr>rect_x1 = s32_max (rect_x1 r1) (rect_x1 r2), rect_y1 = s32_max (rect_y1 r1) (rect_y1 r2),
                rect_x2 = s32_min (rect_x2 r1) (rect_x2 r2), rect_y2 = s32_min (rect_y2 r1) (rect_y2 r2)\<rparr>
      in (drm_rect_visible r1, r1))"

definition clamp_s32 :: "int \<Rightarrow> s32" where
  "clamp_s32 tmp = word_of_int (max (- (2 ^ 31)) (min tmp (2 ^ 31 - 1)))"

text \<open>The result, the clipped source and the clipped destination.\<close>

definition drm_rect_clip_scaled :: "drm_rect \<Rightarrow> drm_rect \<Rightarrow> drm_rect \<Rightarrow> s32 \<Rightarrow> s32 \<Rightarrow> bool \<times> drm_rect \<times> drm_rect" where
  "drm_rect_clip_scaled src dst clip hscale vscale =
     (let diff = rect_x1 clip - rect_x1 dst;
          src = (if sint diff > 0
                 then src\<lparr>rect_x1 := clamp_s32 (sint (rect_x1 src) + sint diff * sint hscale)\<rparr> else src);
          diff = rect_y1 clip - rect_y1 dst;
          src = (if sint diff > 0
                 then src\<lparr>rect_y1 := clamp_s32 (sint (rect_y1 src) + sint diff * sint vscale)\<rparr> else src);
          diff = rect_x2 dst - rect_x2 clip;
          src = (if sint diff > 0
                 then src\<lparr>rect_x2 := clamp_s32 (sint (rect_x2 src) - sint diff * sint hscale)\<rparr> else src);
          diff = rect_y2 dst - rect_y2 clip;
          src = (if sint diff > 0
                 then src\<lparr>rect_y2 := clamp_s32 (sint (rect_y2 src) - sint diff * sint vscale)\<rparr> else src);
          (visible, dst) = drm_rect_intersect dst clip
      in (visible, src, dst))"

section \<open>Scaling\<close>

text \<open>A negative result is an error number. Where no error is returned the scale is not negative.\<close>

definition drm_calc_scale :: "s32 \<Rightarrow> s32 \<Rightarrow> errno + s32" where
  "drm_calc_scale src dst =
     (if sint src < 0 \<or> sint dst < 0 then Inl EINVAL
      else if dst = 0 then Inr 0
      else Inr (s32_div src dst))"

definition drm_rect_calc_hscale :: "drm_rect \<Rightarrow> drm_rect \<Rightarrow> s32 \<Rightarrow> s32 \<Rightarrow> errno + s32" where
  "drm_rect_calc_hscale src dst min_hscale max_hscale =
     (let src_w = drm_rect_width src; dst_w = drm_rect_width dst
      in case drm_calc_scale src_w dst_w of
           Inl e \<Rightarrow> Inl e
         | Inr hscale \<Rightarrow>
             if dst_w = 0 then Inr hscale
             else if sint hscale < sint min_hscale \<or> sint hscale > sint max_hscale then Inl ERANGE
             else Inr hscale)"

definition drm_rect_calc_vscale :: "drm_rect \<Rightarrow> drm_rect \<Rightarrow> s32 \<Rightarrow> s32 \<Rightarrow> errno + s32" where
  "drm_rect_calc_vscale src dst min_vscale max_vscale =
     (let src_h = drm_rect_height src; dst_h = drm_rect_height dst
      in case drm_calc_scale src_h dst_h of
           Inl e \<Rightarrow> Inl e
         | Inr vscale \<Rightarrow>
             if dst_h = 0 then Inr vscale
             else if sint vscale < sint min_vscale \<or> sint vscale > sint max_vscale then Inl ERANGE
             else Inr vscale)"

text \<open>The relaxed versions also return the source and the destination, one of which they may have shrunk.\<close>

definition drm_rect_calc_hscale_relaxed :: "drm_rect \<Rightarrow> drm_rect \<Rightarrow> s32 \<Rightarrow> s32 \<Rightarrow>
    (errno + s32) \<times> drm_rect \<times> drm_rect" where
  "drm_rect_calc_hscale_relaxed src dst min_hscale max_hscale =
     (let src_w = drm_rect_width src; dst_w = drm_rect_width dst
      in case drm_calc_scale src_w dst_w of
           Inl e \<Rightarrow> (Inl e, src, dst)
         | Inr hscale \<Rightarrow>
             if dst_w = 0 then (Inr hscale, src, dst)
             else if sint hscale < sint min_hscale then
               let max_dst_w = s32_div src_w min_hscale
               in (Inr min_hscale, src, drm_rect_adjust_size (max_dst_w - dst_w) 0 dst)
             else if sint hscale > sint max_hscale then
               let max_src_w = dst_w * max_hscale
               in (Inr max_hscale, drm_rect_adjust_size (max_src_w - src_w) 0 src, dst)
             else (Inr hscale, src, dst))"

definition drm_rect_calc_vscale_relaxed :: "drm_rect \<Rightarrow> drm_rect \<Rightarrow> s32 \<Rightarrow> s32 \<Rightarrow>
    (errno + s32) \<times> drm_rect \<times> drm_rect" where
  "drm_rect_calc_vscale_relaxed src dst min_vscale max_vscale =
     (let src_h = drm_rect_height src; dst_h = drm_rect_height dst
      in case drm_calc_scale src_h dst_h of
           Inl e \<Rightarrow> (Inl e, src, dst)
         | Inr vscale \<Rightarrow>
             if dst_h = 0 then (Inr vscale, src, dst)
             else if sint vscale < sint min_vscale then
               let max_dst_h = s32_div src_h min_vscale
               in (Inr min_vscale, src, drm_rect_adjust_size 0 (max_dst_h - dst_h) dst)
             else if sint vscale > sint max_vscale then
               let max_src_h = dst_h * max_vscale
               in (Inr max_vscale, drm_rect_adjust_size 0 (max_src_h - src_h) src, dst)
             else (Inr vscale, src, dst))"

section \<open>Rotation\<close>

definition DRM_MODE_ROTATE_0 :: u32 where "DRM_MODE_ROTATE_0 = push_bit 0 1"
definition DRM_MODE_ROTATE_90 :: u32 where "DRM_MODE_ROTATE_90 = push_bit 1 1"
definition DRM_MODE_ROTATE_180 :: u32 where "DRM_MODE_ROTATE_180 = push_bit 2 1"
definition DRM_MODE_ROTATE_270 :: u32 where "DRM_MODE_ROTATE_270 = push_bit 3 1"
definition DRM_MODE_REFLECT_X :: u32 where "DRM_MODE_REFLECT_X = push_bit 4 1"
definition DRM_MODE_REFLECT_Y :: u32 where "DRM_MODE_REFLECT_Y = push_bit 5 1"

definition DRM_MODE_ROTATE_MASK :: u32 where
  "DRM_MODE_ROTATE_MASK = DRM_MODE_ROTATE_0 OR DRM_MODE_ROTATE_90 OR DRM_MODE_ROTATE_180 OR DRM_MODE_ROTATE_270"

definition DRM_MODE_REFLECT_MASK :: u32 where
  "DRM_MODE_REFLECT_MASK = DRM_MODE_REFLECT_X OR DRM_MODE_REFLECT_Y"

lemmas rotate_consts = DRM_MODE_ROTATE_0_def DRM_MODE_ROTATE_90_def DRM_MODE_ROTATE_180_def DRM_MODE_ROTATE_270_def
  DRM_MODE_REFLECT_X_def DRM_MODE_REFLECT_Y_def DRM_MODE_ROTATE_MASK_def DRM_MODE_REFLECT_MASK_def

text \<open>The reflection step, the first of \<^verbatim>\<open>drm_rect_rotate\<close> and the last of \<^verbatim>\<open>drm_rect_rotate_inv\<close>.\<close>

definition rect_reflect :: "s32 \<Rightarrow> s32 \<Rightarrow> u32 \<Rightarrow> drm_rect \<Rightarrow> drm_rect" where
  "rect_reflect width height rotation r =
     (if rotation AND (DRM_MODE_REFLECT_X OR DRM_MODE_REFLECT_Y) \<noteq> 0 then
        let tmp = r;
            r = (if rotation AND DRM_MODE_REFLECT_X \<noteq> 0
                 then r\<lparr>rect_x1 := width - rect_x2 tmp, rect_x2 := width - rect_x1 tmp\<rparr> else r)
        in (if rotation AND DRM_MODE_REFLECT_Y \<noteq> 0
            then r\<lparr>rect_y1 := height - rect_y2 tmp, rect_y2 := height - rect_y1 tmp\<rparr> else r)
      else r)"

definition drm_rect_rotate :: "s32 \<Rightarrow> s32 \<Rightarrow> u32 \<Rightarrow> drm_rect \<Rightarrow> drm_rect" where
  "drm_rect_rotate width height rotation r =
     (let tmp = rect_reflect width height rotation r;
          rot = rotation AND DRM_MODE_ROTATE_MASK
      in if rot = DRM_MODE_ROTATE_0 then tmp
         else if rot = DRM_MODE_ROTATE_90 then
           tmp\<lparr>rect_x1 := rect_y1 tmp, rect_x2 := rect_y2 tmp,
               rect_y1 := width - rect_x2 tmp, rect_y2 := width - rect_x1 tmp\<rparr>
         else if rot = DRM_MODE_ROTATE_180 then
           tmp\<lparr>rect_x1 := width - rect_x2 tmp, rect_x2 := width - rect_x1 tmp,
               rect_y1 := height - rect_y2 tmp, rect_y2 := height - rect_y1 tmp\<rparr>
         else if rot = DRM_MODE_ROTATE_270 then
           tmp\<lparr>rect_x1 := height - rect_y2 tmp, rect_x2 := height - rect_y1 tmp,
               rect_y1 := rect_x1 tmp, rect_y2 := rect_x2 tmp\<rparr>
         else tmp)"

definition drm_rect_rotate_inv :: "s32 \<Rightarrow> s32 \<Rightarrow> u32 \<Rightarrow> drm_rect \<Rightarrow> drm_rect" where
  "drm_rect_rotate_inv width height rotation tmp =
     (let rot = rotation AND DRM_MODE_ROTATE_MASK;
          r = (if rot = DRM_MODE_ROTATE_0 then tmp
               else if rot = DRM_MODE_ROTATE_90 then
                 tmp\<lparr>rect_x1 := width - rect_y2 tmp, rect_x2 := width - rect_y1 tmp,
                     rect_y1 := rect_x1 tmp, rect_y2 := rect_x2 tmp\<rparr>
               else if rot = DRM_MODE_ROTATE_180 then
                 tmp\<lparr>rect_x1 := width - rect_x2 tmp, rect_x2 := width - rect_x1 tmp,
                     rect_y1 := height - rect_y2 tmp, rect_y2 := height - rect_y1 tmp\<rparr>
               else if rot = DRM_MODE_ROTATE_270 then
                 tmp\<lparr>rect_x1 := rect_y1 tmp, rect_x2 := rect_y2 tmp,
                     rect_y1 := height - rect_x2 tmp, rect_y2 := height - rect_x1 tmp\<rparr>
               else tmp)
      in rect_reflect width height rotation r)"

text \<open>\<^verbatim>\<open>ffs\<close>: the number of the lowest set bit, counted from 1, and 0 without a set bit.\<close>

definition ffs :: "u32 \<Rightarrow> nat" where
  "ffs x = (case find (bit x) [0..<32] of None \<Rightarrow> 0 | Some i \<Rightarrow> Suc i)"

definition drm_rotation_simplify :: "u32 \<Rightarrow> u32 \<Rightarrow> u32" where
  "drm_rotation_simplify rotation supported_rotations =
     (if rotation AND NOT supported_rotations \<noteq> 0 then
        let rotation = rotation XOR (DRM_MODE_REFLECT_X OR DRM_MODE_REFLECT_Y)
        in (rotation AND DRM_MODE_REFLECT_MASK) OR
           push_bit ((ffs (rotation AND DRM_MODE_ROTATE_MASK) + 1) mod 4) 1
      else rotation)"

end
