(* ===== verification/Rect_Correct.thy ===== *)
theory Rect_Correct
  imports Rect
begin

text \<open>
  Rotating back and forth is the identity, a simplified rotation has the same effect, intersections are
  those of the pixels, and clipping and scaling keep the ratio of the two rectangles.
\<close>

unbundle bit_operations_syntax

section \<open>Coordinates\<close>

lemma sint_clamp: "sint (clamp_s32 k) = max (- (2 ^ 31)) (min k (2 ^ 31 - 1))"
  unfolding clamp_s32_def by (rule sint_of_int) auto

lemma sint_max: "sint (s32_max a b) = max (sint a) (sint b)"
  by (simp add: s32_max_def)

lemma sint_min: "sint (s32_min a b) = min (sint a) (sint b)"
  by (simp add: s32_min_def)

section \<open>Rotations\<close>

lemma rect_reflect_reflect: "rect_reflect w h rot (rect_reflect w h rot r) = r"
  by (cases r) (simp add: rect_reflect_def Let_def)

lemma rotate_masks:
  "DRM_MODE_ROTATE_MASK = 15" "DRM_MODE_REFLECT_MASK = 48" "DRM_MODE_REFLECT_X OR DRM_MODE_REFLECT_Y = 48"
  by (simp_all add: rotate_consts)

lemma reflect_bits: "x AND 16 = 0 \<longleftrightarrow> \<not> bit x 4" "x AND 32 = 0 \<longleftrightarrow> \<not> bit x 5" for x :: u32
  by (simp_all add: bit_iff_and_push_bit_not_eq_0)

lemma reflect_mask: "x AND 48 = 0 \<longleftrightarrow> \<not> bit x 4 \<and> \<not> bit x 5" for x :: u32
proof -
  have "(48 :: u32) = 16 OR 32" by simp
  then have "x AND 48 = (x AND 16) OR (x AND 32)" by (simp only: bit.conj_disj_distrib)
  then show ?thesis by (simp add: or_eq_0_iff reflect_bits)
qed

text \<open>The effect of a rotation value only depends on six of its bits.\<close>

lemma rect_reflect_bits:
  "rect_reflect w h rot r =
     (let r' = (if bit rot 4 then r\<lparr>rect_x1 := w - rect_x2 r, rect_x2 := w - rect_x1 r\<rparr> else r)
      in if bit rot 5 then r'\<lparr>rect_y1 := h - rect_y2 r, rect_y2 := h - rect_y1 r\<rparr> else r')"
  by (auto simp: rect_reflect_def rotate_masks reflect_mask Let_def DRM_MODE_REFLECT_X_def DRM_MODE_REFLECT_Y_def reflect_bits)

lemma ffs_bit: "i < 4 \<Longrightarrow> ffs (push_bit i 1) = Suc i"
proof -
  assume "i < 4"
  then consider "i = 0" | "i = 1" | "i = 2" | "i = 3" by linarith
  then show ?thesis by cases (simp_all add: ffs_def upt_rec [of _ 32] bit_simps)
qed

lemma rotation_simplify_bits:
  assumes "rotation AND 15 = push_bit i 1" and "i < 4" and "rotation AND NOT supported \<noteq> 0"
  shows "bit (drm_rotation_simplify rotation supported) 4 \<longleftrightarrow> \<not> bit rotation 4"
    and "bit (drm_rotation_simplify rotation supported) 5 \<longleftrightarrow> \<not> bit rotation 5"
    and "drm_rotation_simplify rotation supported AND 15 = push_bit ((i + 2) mod 4) 1"
proof -
  have "(rotation XOR 48) AND 15 = rotation AND 15"
    by (simp add: bit.conj_xor_distrib2)
  then have f: "ffs ((rotation XOR 48) AND 15) = Suc i" 
    using assms(1) ffs_bit [OF assms(2)] by simp
  have s: "drm_rotation_simplify rotation supported =
      ((rotation XOR 48) AND 48) OR push_bit ((i + 2) mod 4) 1"
    unfolding drm_rotation_simplify_def rotate_masks Let_def f using assms(3) by simp
  consider "i = 0" | "i = 1" | "i = 2" | "i = 3" using assms(2) by linarith
  then show "bit (drm_rotation_simplify rotation supported) 4 \<longleftrightarrow> \<not> bit rotation 4"
    "bit (drm_rotation_simplify rotation supported) 5 \<longleftrightarrow> \<not> bit rotation 5"
    "drm_rotation_simplify rotation supported AND 15 = push_bit ((i + 2) mod 4) 1"
    unfolding s by (cases; simp add: bit_simps bit.conj_disj_distrib2 and.assoc)+
qed

text \<open>
  \<^verbatim>\<open>drm_rect_rotate_inv\<close> undoes \<^verbatim>\<open>drm_rect_rotate\<close> for every rectangle, every rotation value, even one that
  is not a valid rotation, and every width and height, also when the coordinates wrap around.
\<close>

theorem rotate_roundtrip:
  "drm_rect_rotate_inv width height rotation (drm_rect_rotate width height rotation r) = r"
proof -
  have "drm_rect_rotate_inv width height rotation (drm_rect_rotate width height rotation r) =
      rect_reflect width height rotation (rect_reflect width height rotation r)"
    unfolding drm_rect_rotate_inv_def drm_rect_rotate_def Let_def
    by (simp add: rotate_consts)
  then show ?thesis by (simp add: rect_reflect_reflect)
qed

text \<open>
  \<^verbatim>\<open>drm_rotation_simplify\<close> replaces a rotation by another one with the same effect on every rectangle: it
  adds 180 degrees and toggles both reflections.
\<close>

theorem rotation_simplify_same:
  assumes "rotation AND DRM_MODE_ROTATE_MASK \<in>
      {DRM_MODE_ROTATE_0, DRM_MODE_ROTATE_90, DRM_MODE_ROTATE_180, DRM_MODE_ROTATE_270}"
  shows "drm_rect_rotate width height (drm_rotation_simplify rotation supported) r =
    drm_rect_rotate width height rotation r"
proof (cases "rotation AND NOT supported = 0")
  case False
  let ?s = "drm_rotation_simplify rotation supported"
  obtain i where i: "rotation AND 15 = push_bit i 1" "i < 4"
    using assms by (auto simp: rotate_masks rotate_consts intro: that [of 0] that [of 1] that [of 2] that [of 3])
  note b = rotation_simplify_bits [OF i False]
  consider "i = 0" | "i = 1" | "i = 2" | "i = 3" using i(2) by linarith
  then show ?thesis
    by cases (use i(1) b(3) in \<open>simp_all add: drm_rect_rotate_def Let_def rect_reflect_bits b(1,2) rotate_masks
      rotate_consts\<close>)
qed (simp add: drm_rotation_simplify_def)

theorem rotation_simplify_same_witness:
  "drm_rotation_simplify (DRM_MODE_ROTATE_90 OR DRM_MODE_REFLECT_X) (DRM_MODE_ROTATE_MASK OR DRM_MODE_REFLECT_Y) =
     DRM_MODE_ROTATE_270 OR DRM_MODE_REFLECT_Y \<and>
   drm_rect_rotate 64 48 (DRM_MODE_ROTATE_270 OR DRM_MODE_REFLECT_Y)
     \<lparr>rect_x1 = 1, rect_y1 = 2, rect_x2 = 30, rect_y2 = 40\<rparr> =
   drm_rect_rotate 64 48 (DRM_MODE_ROTATE_90 OR DRM_MODE_REFLECT_X)
     \<lparr>rect_x1 = 1, rect_y1 = 2, rect_x2 = 30, rect_y2 = 40\<rparr>"
proof -
  have "drm_rotation_simplify (DRM_MODE_ROTATE_90 OR DRM_MODE_REFLECT_X) (DRM_MODE_ROTATE_MASK OR DRM_MODE_REFLECT_Y) =
     DRM_MODE_ROTATE_270 OR DRM_MODE_REFLECT_Y"
    using ffs_bit [of 1] by (simp add: drm_rotation_simplify_def Let_def rotate_consts)
  with rotation_simplify_same [of "DRM_MODE_ROTATE_90 OR DRM_MODE_REFLECT_X" 64 48
      "DRM_MODE_ROTATE_MASK OR DRM_MODE_REFLECT_Y" "\<lparr>rect_x1 = 1, rect_y1 = 2, rect_x2 = 30, rect_y2 = 40\<rparr>"]
  show ?thesis by (simp add: rotate_consts)
qed

section \<open>Clipping\<close>

definition rect_pixels :: "drm_rect \<Rightarrow> (int \<times> int) set" where
  "rect_pixels r = {(x, y). sint (rect_x1 r) \<le> x \<and> x < sint (rect_x2 r) \<and> sint (rect_y1 r) \<le> y \<and> y < sint (rect_y2 r)}"

text \<open>Coordinates whose differences are representable.\<close>

definition coord_small :: "s32 \<Rightarrow> bool" where
  "coord_small c \<longleftrightarrow> - (2 ^ 30) \<le> sint c \<and> sint c < 2 ^ 30"

definition rect_small :: "drm_rect \<Rightarrow> bool" where
  "rect_small r \<longleftrightarrow> coord_small (rect_x1 r) \<and> coord_small (rect_y1 r) \<and> coord_small (rect_x2 r) \<and> coord_small (rect_y2 r)"

lemma sint_diff_small: "coord_small a \<Longrightarrow> coord_small b \<Longrightarrow> sint (a - b) = sint a - sint b"
  by (rule sint_diff) (simp_all add: coord_small_def)

lemma rect_visible_small:
  "rect_small r \<Longrightarrow> drm_rect_visible r \<longleftrightarrow> sint (rect_x1 r) < sint (rect_x2 r) \<and> sint (rect_y1 r) < sint (rect_y2 r)"
  by (simp add: drm_rect_visible_def drm_rect_width_def drm_rect_height_def rect_small_def sint_diff_small)

lemma rect_small_intersect:
  "rect_small r1 \<Longrightarrow> rect_small r2 \<Longrightarrow> rect_small (snd (drm_rect_intersect r1 r2))"
  by (simp add: rect_small_def drm_rect_intersect_def Let_def s32_max_def s32_min_def)

lemma intersect_coords:
  "sint (rect_x1 (snd (drm_rect_intersect r1 r2))) = max (sint (rect_x1 r1)) (sint (rect_x1 r2))"
  "sint (rect_y1 (snd (drm_rect_intersect r1 r2))) = max (sint (rect_y1 r1)) (sint (rect_y1 r2))"
  "sint (rect_x2 (snd (drm_rect_intersect r1 r2))) = min (sint (rect_x2 r1)) (sint (rect_x2 r2))"
  "sint (rect_y2 (snd (drm_rect_intersect r1 r2))) = min (sint (rect_y2 r1)) (sint (rect_y2 r2))"
  by (simp_all add: drm_rect_intersect_def Let_def sint_max sint_min)

lemma intersect_visible: "fst (drm_rect_intersect r1 r2) = drm_rect_visible (snd (drm_rect_intersect r1 r2))"
  by (simp add: drm_rect_intersect_def Let_def)

text \<open>
  \<^verbatim>\<open>drm_rect_intersect\<close> computes the common pixels of the two rectangles, and it returns true exactly when
  there are any, provided that the sizes of the rectangles can be represented.
\<close>

theorem intersect_pixels:
  "rect_pixels (snd (drm_rect_intersect r1 r2)) = rect_pixels r1 \<inter> rect_pixels r2 \<and>
   (rect_small r1 \<and> rect_small r2 \<longrightarrow> fst (drm_rect_intersect r1 r2) = (rect_pixels r1 \<inter> rect_pixels r2 \<noteq> {}))"
proof (intro conjI impI)
  show eq: "rect_pixels (snd (drm_rect_intersect r1 r2)) = rect_pixels r1 \<inter> rect_pixels r2"
    by (auto simp: rect_pixels_def intersect_coords)
  have ne: "rect_pixels r \<noteq> {} \<longleftrightarrow> sint (rect_x1 r) < sint (rect_x2 r) \<and> sint (rect_y1 r) < sint (rect_y2 r)" for r
    by (auto simp: rect_pixels_def intro: exI [of _ "sint (rect_x1 r)"] exI [of _ "sint (rect_y1 r)"])
  show "fst (drm_rect_intersect r1 r2) = (rect_pixels r1 \<inter> rect_pixels r2 \<noteq> {})" if "rect_small r1 \<and> rect_small r2"
    using that rect_visible_small [OF rect_small_intersect] by (simp add: intersect_visible ne flip: eq)
qed

theorem intersect_pixels_witness:
  "fst (drm_rect_intersect \<lparr>rect_x1 = 0, rect_y1 = 0, rect_x2 = 10, rect_y2 = 10\<rparr>
     \<lparr>rect_x1 = -5, rect_y1 = 9, rect_x2 = 3, rect_y2 = 20\<rparr>) =
   (rect_pixels \<lparr>rect_x1 = 0, rect_y1 = 0, rect_x2 = 10, rect_y2 = 10\<rparr> \<inter>
    rect_pixels \<lparr>rect_x1 = -5, rect_y1 = 9, rect_x2 = 3, rect_y2 = 20\<rparr> \<noteq> {})"
  using intersect_pixels [of "\<lparr>rect_x1 = 0, rect_y1 = 0, rect_x2 = 10, rect_y2 = 10\<rparr>"
      "\<lparr>rect_x1 = -5, rect_y1 = 9, rect_x2 = 3, rect_y2 = 20\<rparr>"]
  by (simp add: rect_small_def coord_small_def)

text \<open>One dimension of the scaled clip.\<close>

lemma clip_scaled_1d:
  fixes a1 a2 b1 b2 c1 c2 s :: int
  assumes "a2 - a1 = (b2 - b1) * s" and "0 \<le> s" and "max b1 c1 < min b2 c2"
  defines "a1' \<equiv> (if c1 - b1 > 0 then a1 + (c1 - b1) * s else a1)"
    and "a2' \<equiv> (if b2 - c2 > 0 then a2 - (b2 - c2) * s else a2)"
  shows "a1 \<le> a1'" "a1' \<le> a2'" "a2' \<le> a2" "a2' - a1' = (min b2 c2 - max b1 c1) * s"
proof -
  have e: "a1' = a1 + max 0 (c1 - b1) * s" "a2' = a2 - max 0 (b2 - c2) * s"
    by (simp_all add: a1'_def a2'_def)
  show "a1 \<le> a1'" "a2' \<le> a2" using assms(2) by (simp_all add: e)
  have m: "min b2 c2 = b2 - max 0 (b2 - c2)" "max b1 c1 = b1 + max 0 (c1 - b1)" by auto
  show *: "a2' - a1' = (min b2 c2 - max b1 c1) * s"
    unfolding e m using assms(1) by (simp add: algebra_simps)
  have "0 \<le> (min b2 c2 - max b1 c1) * s" using assms(2,3) by simp
  with * show "a1' \<le> a2'" by simp
qed

text \<open>The source is the destination scaled up, in integers.\<close>

definition rect_scaled :: "drm_rect \<Rightarrow> drm_rect \<Rightarrow> s32 \<Rightarrow> s32 \<Rightarrow> bool" where
  "rect_scaled src dst hscale vscale \<longleftrightarrow>
     sint (rect_x2 src) - sint (rect_x1 src) = (sint (rect_x2 dst) - sint (rect_x1 dst)) * sint hscale \<and>
     sint (rect_y2 src) - sint (rect_y1 src) = (sint (rect_y2 dst) - sint (rect_y1 dst)) * sint vscale"

definition rect_inside :: "drm_rect \<Rightarrow> drm_rect \<Rightarrow> bool" where
  "rect_inside r1 r2 \<longleftrightarrow> sint (rect_x1 r2) \<le> sint (rect_x1 r1) \<and> sint (rect_x2 r1) \<le> sint (rect_x2 r2) \<and>
     sint (rect_y1 r2) \<le> sint (rect_y1 r1) \<and> sint (rect_y2 r1) \<le> sint (rect_y2 r2)"

lemma sint_clamp_id: "- (2 ^ 31) \<le> k \<Longrightarrow> k < 2 ^ 31 \<Longrightarrow> sint (clamp_s32 k) = k"
  unfolding sint_clamp by simp

lemma clip_scaled_coords:
  fixes src hs vs
  assumes "rect_small dst" and "rect_small clip"
  defines "src' \<equiv> fst (snd (drm_rect_clip_scaled src dst clip hs vs))"
  shows "rect_x1 src' = (if sint (rect_x1 clip) - sint (rect_x1 dst) > 0
      then clamp_s32 (sint (rect_x1 src) + (sint (rect_x1 clip) - sint (rect_x1 dst)) * sint hs) else rect_x1 src)"
    "rect_y1 src' = (if sint (rect_y1 clip) - sint (rect_y1 dst) > 0
      then clamp_s32 (sint (rect_y1 src) + (sint (rect_y1 clip) - sint (rect_y1 dst)) * sint vs) else rect_y1 src)"
    "rect_x2 src' = (if sint (rect_x2 dst) - sint (rect_x2 clip) > 0
      then clamp_s32 (sint (rect_x2 src) - (sint (rect_x2 dst) - sint (rect_x2 clip)) * sint hs) else rect_x2 src)"
    "rect_y2 src' = (if sint (rect_y2 dst) - sint (rect_y2 clip) > 0
      then clamp_s32 (sint (rect_y2 src) - (sint (rect_y2 dst) - sint (rect_y2 clip)) * sint vs) else rect_y2 src)"
    "snd (snd (drm_rect_clip_scaled src dst clip hs vs)) = snd (drm_rect_intersect dst clip)"
    "fst (drm_rect_clip_scaled src dst clip hs vs) = fst (drm_rect_intersect dst clip)"
  using assms(1,2) unfolding src'_def
  by (simp_all add: drm_rect_clip_scaled_def Let_def split_beta rect_small_def sint_diff_small)

text \<open>
  C20. \<^verbatim>\<open>drm_rect_clip_scaled\<close> clips the destination to the clip rectangle and keeps the scale: when the source
  is the destination scaled up and something stays visible, the clipped source lies inside of the
  source and is the clipped destination scaled up by the same factors. No coordinate is clamped.
\<close>

theorem clip_scaled_keeps_scale:
  assumes small: "rect_small dst" "rect_small clip" and scale: "rect_scaled src dst hscale vscale"
    and pos: "0 \<le> sint hscale" "0 \<le> sint vscale"
    and clip: "drm_rect_clip_scaled src dst clip hscale vscale = (True, src', dst')"
  shows "rect_scaled src' dst' hscale vscale \<and> rect_inside src' src \<and>
    rect_pixels dst' = rect_pixels dst \<inter> rect_pixels clip \<and> rect_pixels dst' \<noteq> {}"
proof -
  note c = clip_scaled_coords [OF small, of src hscale vscale, unfolded clip fst_conv snd_conv]
  have dst': "dst' = snd (drm_rect_intersect dst clip)" and vis: "fst (drm_rect_intersect dst clip)"
    using c(5,6) by simp_all
  from vis have v: "max (sint (rect_x1 dst)) (sint (rect_x1 clip)) < min (sint (rect_x2 dst)) (sint (rect_x2 clip))"
    "max (sint (rect_y1 dst)) (sint (rect_y1 clip)) < min (sint (rect_y2 dst)) (sint (rect_y2 clip))"
    unfolding intersect_visible rect_visible_small [OF rect_small_intersect [OF small]] intersect_coords by simp_all
  note x = clip_scaled_1d [OF conjunct1 [OF scale [unfolded rect_scaled_def]] pos(1) v(1)]
  note y = clip_scaled_1d [OF conjunct2 [OF scale [unfolded rect_scaled_def]] pos(2) v(2)]
  have r: "- (2 ^ 31) \<le> sint (rect_x1 src)" "sint (rect_x2 src) < 2 ^ 31"
    "- (2 ^ 31) \<le> sint (rect_y1 src)" "sint (rect_y2 src) < 2 ^ 31" by (rule sint_range)+
  have s: "sint (rect_x1 src') = (if sint (rect_x1 clip) - sint (rect_x1 dst) > 0
      then sint (rect_x1 src) + (sint (rect_x1 clip) - sint (rect_x1 dst)) * sint hscale else sint (rect_x1 src))"
    "sint (rect_x2 src') = (if sint (rect_x2 dst) - sint (rect_x2 clip) > 0
      then sint (rect_x2 src) - (sint (rect_x2 dst) - sint (rect_x2 clip)) * sint hscale else sint (rect_x2 src))"
    "sint (rect_y1 src') = (if sint (rect_y1 clip) - sint (rect_y1 dst) > 0
      then sint (rect_y1 src) + (sint (rect_y1 clip) - sint (rect_y1 dst)) * sint vscale else sint (rect_y1 src))"
    "sint (rect_y2 src') = (if sint (rect_y2 dst) - sint (rect_y2 clip) > 0
      then sint (rect_y2 src) - (sint (rect_y2 dst) - sint (rect_y2 clip)) * sint vscale else sint (rect_y2 src))"
    unfolding c using x(1-3) y(1-3) r
    by (auto intro!: sint_clamp_id split: if_splits)
  have "rect_scaled src' dst' hscale vscale" "rect_inside src' src"
    unfolding rect_scaled_def rect_inside_def dst' intersect_coords s using x y by blast+
  moreover have "rect_pixels dst' = rect_pixels dst \<inter> rect_pixels clip"
    unfolding dst' by (auto simp: rect_pixels_def intersect_coords)
  moreover have "(sint (rect_x1 dst'), sint (rect_y1 dst')) \<in> rect_pixels dst'"
    using v by (simp add: rect_pixels_def dst' intersect_coords)
  ultimately show ?thesis by blast
qed

theorem clip_scaled_keeps_scale_witness:
  "let src = \<lparr>rect_x1 = 0, rect_y1 = 0, rect_x2 = 200, rect_y2 = 300\<rparr>;
       dst = \<lparr>rect_x1 = -10, rect_y1 = -20, rect_x2 = 90, rect_y2 = 80\<rparr>;
       clip = \<lparr>rect_x1 = 0, rect_y1 = 0, rect_x2 = 64, rect_y2 = 64\<rparr>
   in \<exists>src' dst'. drm_rect_clip_scaled src dst clip 2 3 = (True, src', dst') \<and> rect_scaled src' dst' 2 3 \<and>
        rect_x1 src' = 20 \<and> rect_y2 src' = 252"
proof -
  let ?src = "\<lparr>rect_x1 = 0, rect_y1 = 0, rect_x2 = 200, rect_y2 = 300\<rparr>"
  let ?dst = "\<lparr>rect_x1 = -10, rect_y1 = -20, rect_x2 = 90, rect_y2 = 80\<rparr>"
  let ?clip = "\<lparr>rect_x1 = 0, rect_y1 = 0, rect_x2 = 64, rect_y2 = 64\<rparr>"
  have small: "rect_small ?dst" "rect_small ?clip" "rect_scaled ?src ?dst 2 3"
    by (simp_all add: rect_small_def coord_small_def rect_scaled_def)
  have c: "drm_rect_clip_scaled ?src ?dst ?clip 2 3 =
      (True, \<lparr>rect_x1 = 20, rect_y1 = 60, rect_x2 = 148, rect_y2 = 252\<rparr>, \<lparr>rect_x1 = 0, rect_y1 = 0, rect_x2 = 64, rect_y2 = 64\<rparr>)"
    by (simp add: drm_rect_clip_scaled_def drm_rect_intersect_def drm_rect_visible_def drm_rect_width_def
        drm_rect_height_def clamp_s32_def s32_max_def s32_min_def Let_def)
  from clip_scaled_keeps_scale [OF small _ _ c] c show ?thesis by (simp add: Let_def)
qed

section \<open>Scaling\<close>

lemma half_sum:
  fixes d :: s32
  assumes "sint d \<noteq> 2 ^ 31 - 1"
  shows "signed_drop_bit 1 d + signed_drop_bit 1 (d + 1) = d"
proof -
  have h: "signed_drop_bit 1 w = (word_of_int (sint w div 2) :: s32)" for w :: s32
  proof -
    have "sint (signed_drop_bit 1 w) = sint w div 2" by (simp add: sint_signed_drop_bit_eq drop_bit_eq_div)
    then have "word_of_int (sint (signed_drop_bit 1 w)) = (word_of_int (sint w div 2) :: s32)" by simp
    then show ?thesis by simp
  qed
  have "sint (d + 1) = sint d + 1"
    using assms sint_range [of d] by (subst sint_plus) simp_all
  moreover have "sint d div 2 + (sint d + 1) div 2 = sint d" by presburger
  ultimately have "signed_drop_bit 1 d + signed_drop_bit 1 (d + 1) = (word_of_int (sint d) :: s32)"
    unfolding h by (metis of_int_add)
  then show ?thesis by simp
qed

lemma adjust_size_width:
  "sint dw \<noteq> 2 ^ 31 - 1 \<Longrightarrow> drm_rect_width (drm_rect_adjust_size dw dh r) = drm_rect_width r + dw"
  "sint dh \<noteq> 2 ^ 31 - 1 \<Longrightarrow> drm_rect_height (drm_rect_adjust_size dw dh r) = drm_rect_height r + dh"
  using half_sum [of dw] half_sum [of dh]
  by (simp_all add: drm_rect_width_def drm_rect_height_def drm_rect_adjust_size_def algebra_simps)

text \<open>What relaxing does to the two sizes, for either direction.\<close>

lemma relaxed_size:
  fixes w d m M :: s32
  assumes w: "0 \<le> sint w" and d: "0 < sint d" and m: "0 < sint m" "sint m \<le> sint M"
  shows "\<exists>s. drm_calc_scale w d = Inr s \<and> sint s = sint w div sint d \<and>
    (sint s < sint m \<longrightarrow> sint (s32_div w m) \<le> sint d \<and> sint (s32_div w m) * sint m \<le> sint w \<and>
       sint (s32_div w m - d) \<noteq> 2 ^ 31 - 1) \<and>
    (sint M < sint s \<longrightarrow> sint (d * M) = sint d * sint M \<and> sint d * sint M \<le> sint w \<and> sint (d * M - w) \<noteq> 2 ^ 31 - 1) \<and>
    sint d * sint s \<le> sint w"
proof (intro exI conjI impI)
  show e: "drm_calc_scale w d = Inr (s32_div w d)" using w d by (auto simp: drm_calc_scale_def)
  show q: "sint (s32_div w d) = sint w div sint d" by (rule s32_div_pos [OF w d])
  have r: "sint w < 2 ^ 31" "sint d < 2 ^ 31" by (rule sint_range)+
  show "sint d * sint (s32_div w d) \<le> sint w"
    unfolding q using d by (simp add: mult_div_le)
  have qm: "sint (s32_div w m) = sint w div sint m" by (rule s32_div_pos [OF w m(1)])
  have qm0: "0 \<le> sint w div sint m" using w m(1) by (simp add: pos_imp_zdiv_nonneg_iff)
  show "sint (s32_div w m) * sint m \<le> sint w"
    unfolding qm using m(1) by (simp add: mult.commute mult_div_le)
  show c1: "sint (s32_div w m) \<le> sint d" if "sint (s32_div w d) < sint m"
  proof -
    have "sint w < sint m * sint d" using that q div_less_mult [OF d] by simp
    then have "sint w div sint m < sint d" using div_less_mult [OF m(1)] by (simp add: mult.commute)
    then show ?thesis using qm by simp
  qed
  show "sint (s32_div w m - d) \<noteq> 2 ^ 31 - 1" if "sint (s32_div w d) < sint m"
    using c1 [OF that] qm qm0 r d by (subst sint_diff) auto
  assume "sint M < sint (s32_div w d)"
  then have "sint M < sint w div sint d" using q by simp
  then have "sint d * sint M < sint d * (sint w div sint d)" using d by (rule mult_strict_left_mono)
  also have "\<dots> \<le> sint w" using d by (simp add: mult_div_le)
  finally have c2: "sint d * sint M < sint w" .
  have c3: "0 < sint d * sint M" using d m by simp
  show c4: "sint (d * M) = sint d * sint M"
    using c2 c3 r by (simp add: sint_word_ariths signed_take_bit_int_eq_self)
  show "sint d * sint M \<le> sint w" using c2 by simp
  show "sint (d * M - w) \<noteq> 2 ^ 31 - 1"
    using c2 c3 r unfolding c4 [symmetric] by (subst sint_diff) auto
qed

text \<open>
  \<^verbatim>\<open>drm_rect_calc_hscale_relaxed\<close> never fails on rectangles with positive width: the factor it returns is within
  the limits, and at that factor the destination fits into the source. It changes nothing when the
  exact factor is within the limits; otherwise it shrinks one of the two widths, never a height.
\<close>

theorem hscale_relaxed_within:
  fixes min_h max_h :: s32
  defines "width \<equiv> \<lambda>r. sint (drm_rect_width r)"
  assumes "0 \<le> width src" and "0 < width dst" and "0 < sint min_h" and "sint min_h \<le> sint max_h"
  shows "\<exists>s src' dst'. drm_rect_calc_hscale_relaxed src dst min_h max_h = (Inr s, src', dst') \<and>
    sint min_h \<le> sint s \<and> sint s \<le> sint max_h \<and> width dst' * sint s \<le> width src' \<and>
    width dst' \<le> width dst \<and> width src' \<le> width src \<and> (src' = src \<or> dst' = dst) \<and>
    drm_rect_height src' = drm_rect_height src \<and> drm_rect_height dst' = drm_rect_height dst \<and>
    (sint min_h \<le> width src div width dst \<and> width src div width dst \<le> sint max_h \<longrightarrow>
      src' = src \<and> dst' = dst \<and> sint s = width src div width dst)"
proof -
  obtain s where s: "drm_calc_scale (drm_rect_width src) (drm_rect_width dst) = Inr s" "sint s = width src div width dst"
    "sint s < sint min_h \<Longrightarrow> sint (s32_div (drm_rect_width src) min_h) \<le> width dst \<and>
       sint (s32_div (drm_rect_width src) min_h) * sint min_h \<le> width src \<and>
       sint (s32_div (drm_rect_width src) min_h - drm_rect_width dst) \<noteq> 2 ^ 31 - 1"
    "sint max_h < sint s \<Longrightarrow> sint (drm_rect_width dst * max_h) = width dst * sint max_h \<and>
       width dst * sint max_h \<le> width src \<and> sint (drm_rect_width dst * max_h - drm_rect_width src) \<noteq> 2 ^ 31 - 1"
    "width dst * sint s \<le> width src"
    using relaxed_size [of "drm_rect_width src" "drm_rect_width dst" min_h max_h] assms by blast
  have d: "drm_rect_width dst \<noteq> 0" using assms(3) by (auto simp: width_def)
  consider "sint s < sint min_h" | "sint max_h < sint s" | "sint min_h \<le> sint s" "sint s \<le> sint max_h" by linarith
  then show ?thesis
  proof cases
    case 1
    then show ?thesis using s d assms(5)
      by (simp add: drm_rect_calc_hscale_relaxed_def Let_def width_def adjust_size_width)
  next
    case 2
    then show ?thesis using s d assms(5)
      by (simp add: drm_rect_calc_hscale_relaxed_def Let_def width_def adjust_size_width)
  next
    case 3
    then show ?thesis using s d
      by (simp add: drm_rect_calc_hscale_relaxed_def Let_def width_def)
  qed
qed

theorem hscale_relaxed_within_witness:
  "\<exists>s src' dst'. drm_rect_calc_hscale_relaxed \<lparr>rect_x1 = 0, rect_y1 = 0, rect_x2 = 100, rect_y2 = 10\<rparr>
      \<lparr>rect_x1 = 0, rect_y1 = 0, rect_x2 = 80, rect_y2 = 10\<rparr> 2 4 = (Inr s, src', dst') \<and>
    2 \<le> sint s \<and> sint s \<le> 4 \<and> sint (drm_rect_width dst') * sint s \<le> sint (drm_rect_width src')"
  using hscale_relaxed_within [of "\<lparr>rect_x1 = 0, rect_y1 = 0, rect_x2 = 100, rect_y2 = 10\<rparr>"
      "\<lparr>rect_x1 = 0, rect_y1 = 0, rect_x2 = 80, rect_y2 = 10\<rparr>" 2 4]
  by (auto simp: drm_rect_width_def)

text \<open>The vertical direction is the horizontal one with the axes exchanged.\<close>

definition rect_flip :: "drm_rect \<Rightarrow> drm_rect" where
  "rect_flip r = \<lparr>rect_x1 = rect_y1 r, rect_y1 = rect_x1 r, rect_x2 = rect_y2 r, rect_y2 = rect_x2 r\<rparr>"

lemma rect_flip_simps [simp]:
  "rect_flip (rect_flip r) = r" "drm_rect_width (rect_flip r) = drm_rect_height r"
  "drm_rect_height (rect_flip r) = drm_rect_width r"
  "drm_rect_adjust_size dw dh (rect_flip r) = rect_flip (drm_rect_adjust_size dh dw r)"
  by (simp_all add: rect_flip_def drm_rect_width_def drm_rect_height_def drm_rect_adjust_size_def)

lemma vscale_relaxed_flip:
  "drm_rect_calc_vscale_relaxed src dst min_v max_v =
     (let (s, src', dst') = drm_rect_calc_hscale_relaxed (rect_flip src) (rect_flip dst) min_v max_v
      in (s, rect_flip src', rect_flip dst'))"
  by (simp add: drm_rect_calc_vscale_relaxed_def drm_rect_calc_hscale_relaxed_def Let_def split: sum.split)

lemma vscale_flip: "drm_rect_calc_vscale src dst min_v max_v = drm_rect_calc_hscale (rect_flip src) (rect_flip dst) min_v max_v"
  by (simp add: drm_rect_calc_vscale_def drm_rect_calc_hscale_def)

end
