(* ===== verification/Fourcc.thy ===== *)
theory Fourcc
  imports Prelude
begin

text \<open>
  Pixel formats (\<^verbatim>\<open>drm_fourcc.c\<close>, \<^verbatim>\<open>drm_fourcc.h\<close>) and the checks that a framebuffer of user space has to pass
  before a driver sees it (\<^verbatim>\<open>drm_framebuffer.c\<close>). What a driver provides, its own format information, the
  limits of its modes and the creation of the framebuffer object, are arguments of the functions.
\<close>

unbundle bit_operations_syntax

section \<open>Format codes\<close>

definition fourcc_code :: "char \<Rightarrow> char \<Rightarrow> char \<Rightarrow> char \<Rightarrow> u32" where
  "fourcc_code a b c d = of_char a OR push_bit 8 (of_char b) OR push_bit 16 (of_char c) OR push_bit 24 (of_char d)"

definition DRM_FORMAT_BIG_ENDIAN :: u32 where "DRM_FORMAT_BIG_ENDIAN = push_bit 31 1"

definition DRM_FORMAT_C8 :: u32 where "DRM_FORMAT_C8 = fourcc_code CHR ''C'' CHR ''8'' CHR '' '' CHR '' ''"
definition DRM_FORMAT_RGB332 :: u32 where "DRM_FORMAT_RGB332 = fourcc_code CHR ''R'' CHR ''G'' CHR ''B'' CHR ''8''"
definition DRM_FORMAT_BGR233 :: u32 where "DRM_FORMAT_BGR233 = fourcc_code CHR ''B'' CHR ''G'' CHR ''R'' CHR ''8''"
definition DRM_FORMAT_XRGB4444 :: u32 where "DRM_FORMAT_XRGB4444 = fourcc_code CHR ''X'' CHR ''R'' CHR ''1'' CHR ''2''"
definition DRM_FORMAT_XBGR4444 :: u32 where "DRM_FORMAT_XBGR4444 = fourcc_code CHR ''X'' CHR ''B'' CHR ''1'' CHR ''2''"
definition DRM_FORMAT_RGBX4444 :: u32 where "DRM_FORMAT_RGBX4444 = fourcc_code CHR ''R'' CHR ''X'' CHR ''1'' CHR ''2''"
definition DRM_FORMAT_BGRX4444 :: u32 where "DRM_FORMAT_BGRX4444 = fourcc_code CHR ''B'' CHR ''X'' CHR ''1'' CHR ''2''"
definition DRM_FORMAT_ARGB4444 :: u32 where "DRM_FORMAT_ARGB4444 = fourcc_code CHR ''A'' CHR ''R'' CHR ''1'' CHR ''2''"
definition DRM_FORMAT_ABGR4444 :: u32 where "DRM_FORMAT_ABGR4444 = fourcc_code CHR ''A'' CHR ''B'' CHR ''1'' CHR ''2''"
definition DRM_FORMAT_RGBA4444 :: u32 where "DRM_FORMAT_RGBA4444 = fourcc_code CHR ''R'' CHR ''A'' CHR ''1'' CHR ''2''"
definition DRM_FORMAT_BGRA4444 :: u32 where "DRM_FORMAT_BGRA4444 = fourcc_code CHR ''B'' CHR ''A'' CHR ''1'' CHR ''2''"
definition DRM_FORMAT_XRGB1555 :: u32 where "DRM_FORMAT_XRGB1555 = fourcc_code CHR ''X'' CHR ''R'' CHR ''1'' CHR ''5''"
definition DRM_FORMAT_XBGR1555 :: u32 where "DRM_FORMAT_XBGR1555 = fourcc_code CHR ''X'' CHR ''B'' CHR ''1'' CHR ''5''"
definition DRM_FORMAT_RGBX5551 :: u32 where "DRM_FORMAT_RGBX5551 = fourcc_code CHR ''R'' CHR ''X'' CHR ''1'' CHR ''5''"
definition DRM_FORMAT_BGRX5551 :: u32 where "DRM_FORMAT_BGRX5551 = fourcc_code CHR ''B'' CHR ''X'' CHR ''1'' CHR ''5''"
definition DRM_FORMAT_ARGB1555 :: u32 where "DRM_FORMAT_ARGB1555 = fourcc_code CHR ''A'' CHR ''R'' CHR ''1'' CHR ''5''"
definition DRM_FORMAT_ABGR1555 :: u32 where "DRM_FORMAT_ABGR1555 = fourcc_code CHR ''A'' CHR ''B'' CHR ''1'' CHR ''5''"
definition DRM_FORMAT_RGBA5551 :: u32 where "DRM_FORMAT_RGBA5551 = fourcc_code CHR ''R'' CHR ''A'' CHR ''1'' CHR ''5''"
definition DRM_FORMAT_BGRA5551 :: u32 where "DRM_FORMAT_BGRA5551 = fourcc_code CHR ''B'' CHR ''A'' CHR ''1'' CHR ''5''"
definition DRM_FORMAT_RGB565 :: u32 where "DRM_FORMAT_RGB565 = fourcc_code CHR ''R'' CHR ''G'' CHR ''1'' CHR ''6''"
definition DRM_FORMAT_BGR565 :: u32 where "DRM_FORMAT_BGR565 = fourcc_code CHR ''B'' CHR ''G'' CHR ''1'' CHR ''6''"
definition DRM_FORMAT_RGB888 :: u32 where "DRM_FORMAT_RGB888 = fourcc_code CHR ''R'' CHR ''G'' CHR ''2'' CHR ''4''"
definition DRM_FORMAT_BGR888 :: u32 where "DRM_FORMAT_BGR888 = fourcc_code CHR ''B'' CHR ''G'' CHR ''2'' CHR ''4''"
definition DRM_FORMAT_XRGB8888 :: u32 where "DRM_FORMAT_XRGB8888 = fourcc_code CHR ''X'' CHR ''R'' CHR ''2'' CHR ''4''"
definition DRM_FORMAT_XBGR8888 :: u32 where "DRM_FORMAT_XBGR8888 = fourcc_code CHR ''X'' CHR ''B'' CHR ''2'' CHR ''4''"
definition DRM_FORMAT_RGBX8888 :: u32 where "DRM_FORMAT_RGBX8888 = fourcc_code CHR ''R'' CHR ''X'' CHR ''2'' CHR ''4''"
definition DRM_FORMAT_BGRX8888 :: u32 where "DRM_FORMAT_BGRX8888 = fourcc_code CHR ''B'' CHR ''X'' CHR ''2'' CHR ''4''"
definition DRM_FORMAT_ARGB8888 :: u32 where "DRM_FORMAT_ARGB8888 = fourcc_code CHR ''A'' CHR ''R'' CHR ''2'' CHR ''4''"
definition DRM_FORMAT_ABGR8888 :: u32 where "DRM_FORMAT_ABGR8888 = fourcc_code CHR ''A'' CHR ''B'' CHR ''2'' CHR ''4''"
definition DRM_FORMAT_RGBA8888 :: u32 where "DRM_FORMAT_RGBA8888 = fourcc_code CHR ''R'' CHR ''A'' CHR ''2'' CHR ''4''"
definition DRM_FORMAT_BGRA8888 :: u32 where "DRM_FORMAT_BGRA8888 = fourcc_code CHR ''B'' CHR ''A'' CHR ''2'' CHR ''4''"
definition DRM_FORMAT_XRGB2101010 :: u32 where "DRM_FORMAT_XRGB2101010 = fourcc_code CHR ''X'' CHR ''R'' CHR ''3'' CHR ''0''"
definition DRM_FORMAT_XBGR2101010 :: u32 where "DRM_FORMAT_XBGR2101010 = fourcc_code CHR ''X'' CHR ''B'' CHR ''3'' CHR ''0''"
definition DRM_FORMAT_RGBX1010102 :: u32 where "DRM_FORMAT_RGBX1010102 = fourcc_code CHR ''R'' CHR ''X'' CHR ''3'' CHR ''0''"
definition DRM_FORMAT_BGRX1010102 :: u32 where "DRM_FORMAT_BGRX1010102 = fourcc_code CHR ''B'' CHR ''X'' CHR ''3'' CHR ''0''"
definition DRM_FORMAT_ARGB2101010 :: u32 where "DRM_FORMAT_ARGB2101010 = fourcc_code CHR ''A'' CHR ''R'' CHR ''3'' CHR ''0''"
definition DRM_FORMAT_ABGR2101010 :: u32 where "DRM_FORMAT_ABGR2101010 = fourcc_code CHR ''A'' CHR ''B'' CHR ''3'' CHR ''0''"
definition DRM_FORMAT_RGBA1010102 :: u32 where "DRM_FORMAT_RGBA1010102 = fourcc_code CHR ''R'' CHR ''A'' CHR ''3'' CHR ''0''"
definition DRM_FORMAT_BGRA1010102 :: u32 where "DRM_FORMAT_BGRA1010102 = fourcc_code CHR ''B'' CHR ''A'' CHR ''3'' CHR ''0''"
definition DRM_FORMAT_YUYV :: u32 where "DRM_FORMAT_YUYV = fourcc_code CHR ''Y'' CHR ''U'' CHR ''Y'' CHR ''V''"
definition DRM_FORMAT_YVYU :: u32 where "DRM_FORMAT_YVYU = fourcc_code CHR ''Y'' CHR ''V'' CHR ''Y'' CHR ''U''"
definition DRM_FORMAT_UYVY :: u32 where "DRM_FORMAT_UYVY = fourcc_code CHR ''U'' CHR ''Y'' CHR ''V'' CHR ''Y''"
definition DRM_FORMAT_VYUY :: u32 where "DRM_FORMAT_VYUY = fourcc_code CHR ''V'' CHR ''Y'' CHR ''U'' CHR ''Y''"
definition DRM_FORMAT_AYUV :: u32 where "DRM_FORMAT_AYUV = fourcc_code CHR ''A'' CHR ''Y'' CHR ''U'' CHR ''V''"
definition DRM_FORMAT_XRGB8888_A8 :: u32 where "DRM_FORMAT_XRGB8888_A8 = fourcc_code CHR ''X'' CHR ''R'' CHR ''A'' CHR ''8''"
definition DRM_FORMAT_XBGR8888_A8 :: u32 where "DRM_FORMAT_XBGR8888_A8 = fourcc_code CHR ''X'' CHR ''B'' CHR ''A'' CHR ''8''"
definition DRM_FORMAT_RGBX8888_A8 :: u32 where "DRM_FORMAT_RGBX8888_A8 = fourcc_code CHR ''R'' CHR ''X'' CHR ''A'' CHR ''8''"
definition DRM_FORMAT_BGRX8888_A8 :: u32 where "DRM_FORMAT_BGRX8888_A8 = fourcc_code CHR ''B'' CHR ''X'' CHR ''A'' CHR ''8''"
definition DRM_FORMAT_RGB888_A8 :: u32 where "DRM_FORMAT_RGB888_A8 = fourcc_code CHR ''R'' CHR ''8'' CHR ''A'' CHR ''8''"
definition DRM_FORMAT_BGR888_A8 :: u32 where "DRM_FORMAT_BGR888_A8 = fourcc_code CHR ''B'' CHR ''8'' CHR ''A'' CHR ''8''"
definition DRM_FORMAT_RGB565_A8 :: u32 where "DRM_FORMAT_RGB565_A8 = fourcc_code CHR ''R'' CHR ''5'' CHR ''A'' CHR ''8''"
definition DRM_FORMAT_BGR565_A8 :: u32 where "DRM_FORMAT_BGR565_A8 = fourcc_code CHR ''B'' CHR ''5'' CHR ''A'' CHR ''8''"
definition DRM_FORMAT_NV12 :: u32 where "DRM_FORMAT_NV12 = fourcc_code CHR ''N'' CHR ''V'' CHR ''1'' CHR ''2''"
definition DRM_FORMAT_NV21 :: u32 where "DRM_FORMAT_NV21 = fourcc_code CHR ''N'' CHR ''V'' CHR ''2'' CHR ''1''"
definition DRM_FORMAT_NV16 :: u32 where "DRM_FORMAT_NV16 = fourcc_code CHR ''N'' CHR ''V'' CHR ''1'' CHR ''6''"
definition DRM_FORMAT_NV61 :: u32 where "DRM_FORMAT_NV61 = fourcc_code CHR ''N'' CHR ''V'' CHR ''6'' CHR ''1''"
definition DRM_FORMAT_NV24 :: u32 where "DRM_FORMAT_NV24 = fourcc_code CHR ''N'' CHR ''V'' CHR ''2'' CHR ''4''"
definition DRM_FORMAT_NV42 :: u32 where "DRM_FORMAT_NV42 = fourcc_code CHR ''N'' CHR ''V'' CHR ''4'' CHR ''2''"
definition DRM_FORMAT_YUV410 :: u32 where "DRM_FORMAT_YUV410 = fourcc_code CHR ''Y'' CHR ''U'' CHR ''V'' CHR ''9''"
definition DRM_FORMAT_YVU410 :: u32 where "DRM_FORMAT_YVU410 = fourcc_code CHR ''Y'' CHR ''V'' CHR ''U'' CHR ''9''"
definition DRM_FORMAT_YUV411 :: u32 where "DRM_FORMAT_YUV411 = fourcc_code CHR ''Y'' CHR ''U'' CHR ''1'' CHR ''1''"
definition DRM_FORMAT_YVU411 :: u32 where "DRM_FORMAT_YVU411 = fourcc_code CHR ''Y'' CHR ''V'' CHR ''1'' CHR ''1''"
definition DRM_FORMAT_YUV420 :: u32 where "DRM_FORMAT_YUV420 = fourcc_code CHR ''Y'' CHR ''U'' CHR ''1'' CHR ''2''"
definition DRM_FORMAT_YVU420 :: u32 where "DRM_FORMAT_YVU420 = fourcc_code CHR ''Y'' CHR ''V'' CHR ''1'' CHR ''2''"
definition DRM_FORMAT_YUV422 :: u32 where "DRM_FORMAT_YUV422 = fourcc_code CHR ''Y'' CHR ''U'' CHR ''1'' CHR ''6''"
definition DRM_FORMAT_YVU422 :: u32 where "DRM_FORMAT_YVU422 = fourcc_code CHR ''Y'' CHR ''V'' CHR ''1'' CHR ''6''"
definition DRM_FORMAT_YUV444 :: u32 where "DRM_FORMAT_YUV444 = fourcc_code CHR ''Y'' CHR ''U'' CHR ''2'' CHR ''4''"
definition DRM_FORMAT_YVU444 :: u32 where "DRM_FORMAT_YVU444 = fourcc_code CHR ''Y'' CHR ''V'' CHR ''2'' CHR ''4''"

lemmas fourcc_defs =
  DRM_FORMAT_C8_def DRM_FORMAT_RGB332_def DRM_FORMAT_BGR233_def DRM_FORMAT_XRGB4444_def DRM_FORMAT_XBGR4444_def
  DRM_FORMAT_RGBX4444_def DRM_FORMAT_BGRX4444_def DRM_FORMAT_ARGB4444_def DRM_FORMAT_ABGR4444_def
  DRM_FORMAT_RGBA4444_def DRM_FORMAT_BGRA4444_def DRM_FORMAT_XRGB1555_def DRM_FORMAT_XBGR1555_def
  DRM_FORMAT_RGBX5551_def DRM_FORMAT_BGRX5551_def DRM_FORMAT_ARGB1555_def DRM_FORMAT_ABGR1555_def
  DRM_FORMAT_RGBA5551_def DRM_FORMAT_BGRA5551_def DRM_FORMAT_RGB565_def DRM_FORMAT_BGR565_def DRM_FORMAT_RGB888_def
  DRM_FORMAT_BGR888_def DRM_FORMAT_XRGB8888_def DRM_FORMAT_XBGR8888_def DRM_FORMAT_RGBX8888_def
  DRM_FORMAT_BGRX8888_def DRM_FORMAT_ARGB8888_def DRM_FORMAT_ABGR8888_def DRM_FORMAT_RGBA8888_def
  DRM_FORMAT_BGRA8888_def DRM_FORMAT_XRGB2101010_def DRM_FORMAT_XBGR2101010_def DRM_FORMAT_RGBX1010102_def
  DRM_FORMAT_BGRX1010102_def DRM_FORMAT_ARGB2101010_def DRM_FORMAT_ABGR2101010_def DRM_FORMAT_RGBA1010102_def
  DRM_FORMAT_BGRA1010102_def DRM_FORMAT_YUYV_def DRM_FORMAT_YVYU_def DRM_FORMAT_UYVY_def DRM_FORMAT_VYUY_def
  DRM_FORMAT_AYUV_def DRM_FORMAT_XRGB8888_A8_def DRM_FORMAT_XBGR8888_A8_def DRM_FORMAT_RGBX8888_A8_def
  DRM_FORMAT_BGRX8888_A8_def DRM_FORMAT_RGB888_A8_def DRM_FORMAT_BGR888_A8_def DRM_FORMAT_RGB565_A8_def
  DRM_FORMAT_BGR565_A8_def DRM_FORMAT_NV12_def DRM_FORMAT_NV21_def DRM_FORMAT_NV16_def DRM_FORMAT_NV61_def
  DRM_FORMAT_NV24_def DRM_FORMAT_NV42_def DRM_FORMAT_YUV410_def DRM_FORMAT_YVU410_def DRM_FORMAT_YUV411_def
  DRM_FORMAT_YVU411_def DRM_FORMAT_YUV420_def DRM_FORMAT_YVU420_def DRM_FORMAT_YUV422_def DRM_FORMAT_YVU422_def
  DRM_FORMAT_YUV444_def DRM_FORMAT_YVU444_def

section \<open>The table of formats\<close>

record drm_format_info =
  fi_format :: u32
  fi_depth :: u8
  fi_num_planes :: u8
  fi_cpp :: "u8 list"
  fi_hsub :: u8
  fi_vsub :: u8

abbreviation fmt :: "u32 \<Rightarrow> u8 \<Rightarrow> u8 \<Rightarrow> u8 list \<Rightarrow> u8 \<Rightarrow> u8 \<Rightarrow> drm_format_info" where
  "fmt f d n c h v \<equiv> \<lparr>fi_format = f, fi_depth = d, fi_num_planes = n, fi_cpp = c, fi_hsub = h, fi_vsub = v\<rparr>"

definition drm_formats :: "drm_format_info list" where
  "drm_formats =
     [fmt DRM_FORMAT_C8 8 1 [1, 0, 0] 1 1,
      fmt DRM_FORMAT_RGB332 8 1 [1, 0, 0] 1 1,
      fmt DRM_FORMAT_BGR233 8 1 [1, 0, 0] 1 1,
      fmt DRM_FORMAT_XRGB4444 0 1 [2, 0, 0] 1 1,
      fmt DRM_FORMAT_XBGR4444 0 1 [2, 0, 0] 1 1,
      fmt DRM_FORMAT_RGBX4444 0 1 [2, 0, 0] 1 1,
      fmt DRM_FORMAT_BGRX4444 0 1 [2, 0, 0] 1 1,
      fmt DRM_FORMAT_ARGB4444 0 1 [2, 0, 0] 1 1,
      fmt DRM_FORMAT_ABGR4444 0 1 [2, 0, 0] 1 1,
      fmt DRM_FORMAT_RGBA4444 0 1 [2, 0, 0] 1 1,
      fmt DRM_FORMAT_BGRA4444 0 1 [2, 0, 0] 1 1,
      fmt DRM_FORMAT_XRGB1555 15 1 [2, 0, 0] 1 1,
      fmt DRM_FORMAT_XBGR1555 15 1 [2, 0, 0] 1 1,
      fmt DRM_FORMAT_RGBX5551 15 1 [2, 0, 0] 1 1,
      fmt DRM_FORMAT_BGRX5551 15 1 [2, 0, 0] 1 1,
      fmt DRM_FORMAT_ARGB1555 15 1 [2, 0, 0] 1 1,
      fmt DRM_FORMAT_ABGR1555 15 1 [2, 0, 0] 1 1,
      fmt DRM_FORMAT_RGBA5551 15 1 [2, 0, 0] 1 1,
      fmt DRM_FORMAT_BGRA5551 15 1 [2, 0, 0] 1 1,
      fmt DRM_FORMAT_RGB565 16 1 [2, 0, 0] 1 1,
      fmt DRM_FORMAT_BGR565 16 1 [2, 0, 0] 1 1,
      fmt DRM_FORMAT_RGB888 24 1 [3, 0, 0] 1 1,
      fmt DRM_FORMAT_BGR888 24 1 [3, 0, 0] 1 1,
      fmt DRM_FORMAT_XRGB8888 24 1 [4, 0, 0] 1 1,
      fmt DRM_FORMAT_XBGR8888 24 1 [4, 0, 0] 1 1,
      fmt DRM_FORMAT_RGBX8888 24 1 [4, 0, 0] 1 1,
      fmt DRM_FORMAT_BGRX8888 24 1 [4, 0, 0] 1 1,
      fmt DRM_FORMAT_RGB565_A8 24 2 [2, 1, 0] 1 1,
      fmt DRM_FORMAT_BGR565_A8 24 2 [2, 1, 0] 1 1,
      fmt DRM_FORMAT_XRGB2101010 30 1 [4, 0, 0] 1 1,
      fmt DRM_FORMAT_XBGR2101010 30 1 [4, 0, 0] 1 1,
      fmt DRM_FORMAT_RGBX1010102 30 1 [4, 0, 0] 1 1,
      fmt DRM_FORMAT_BGRX1010102 30 1 [4, 0, 0] 1 1,
      fmt DRM_FORMAT_ARGB2101010 30 1 [4, 0, 0] 1 1,
      fmt DRM_FORMAT_ABGR2101010 30 1 [4, 0, 0] 1 1,
      fmt DRM_FORMAT_RGBA1010102 30 1 [4, 0, 0] 1 1,
      fmt DRM_FORMAT_BGRA1010102 30 1 [4, 0, 0] 1 1,
      fmt DRM_FORMAT_ARGB8888 32 1 [4, 0, 0] 1 1,
      fmt DRM_FORMAT_ABGR8888 32 1 [4, 0, 0] 1 1,
      fmt DRM_FORMAT_RGBA8888 32 1 [4, 0, 0] 1 1,
      fmt DRM_FORMAT_BGRA8888 32 1 [4, 0, 0] 1 1,
      fmt DRM_FORMAT_RGB888_A8 32 2 [3, 1, 0] 1 1,
      fmt DRM_FORMAT_BGR888_A8 32 2 [3, 1, 0] 1 1,
      fmt DRM_FORMAT_XRGB8888_A8 32 2 [4, 1, 0] 1 1,
      fmt DRM_FORMAT_XBGR8888_A8 32 2 [4, 1, 0] 1 1,
      fmt DRM_FORMAT_RGBX8888_A8 32 2 [4, 1, 0] 1 1,
      fmt DRM_FORMAT_BGRX8888_A8 32 2 [4, 1, 0] 1 1,
      fmt DRM_FORMAT_YUV410 0 3 [1, 1, 1] 4 4,
      fmt DRM_FORMAT_YVU410 0 3 [1, 1, 1] 4 4,
      fmt DRM_FORMAT_YUV411 0 3 [1, 1, 1] 4 1,
      fmt DRM_FORMAT_YVU411 0 3 [1, 1, 1] 4 1,
      fmt DRM_FORMAT_YUV420 0 3 [1, 1, 1] 2 2,
      fmt DRM_FORMAT_YVU420 0 3 [1, 1, 1] 2 2,
      fmt DRM_FORMAT_YUV422 0 3 [1, 1, 1] 2 1,
      fmt DRM_FORMAT_YVU422 0 3 [1, 1, 1] 2 1,
      fmt DRM_FORMAT_YUV444 0 3 [1, 1, 1] 1 1,
      fmt DRM_FORMAT_YVU444 0 3 [1, 1, 1] 1 1,
      fmt DRM_FORMAT_NV12 0 2 [1, 2, 0] 2 2,
      fmt DRM_FORMAT_NV21 0 2 [1, 2, 0] 2 2,
      fmt DRM_FORMAT_NV16 0 2 [1, 2, 0] 2 1,
      fmt DRM_FORMAT_NV61 0 2 [1, 2, 0] 2 1,
      fmt DRM_FORMAT_NV24 0 2 [1, 2, 0] 1 1,
      fmt DRM_FORMAT_NV42 0 2 [1, 2, 0] 1 1,
      fmt DRM_FORMAT_YUYV 0 1 [2, 0, 0] 2 1,
      fmt DRM_FORMAT_YVYU 0 1 [2, 0, 0] 2 1,
      fmt DRM_FORMAT_UYVY 0 1 [2, 0, 0] 2 1,
      fmt DRM_FORMAT_VYUY 0 1 [2, 0, 0] 2 1,
      fmt DRM_FORMAT_AYUV 0 1 [4, 0, 0] 1 1]"

definition drm_format_info_lookup :: "u32 \<Rightarrow> drm_format_info option" where
  "drm_format_info_lookup format = find (\<lambda>info. fi_format info = format) drm_formats"

text \<open>\<^verbatim>\<open>drm_format_info\<close> adds a warning to \<^verbatim>\<open>__drm_format_info\<close>, so the two are one function here.\<close>

definition drm_mode_legacy_fb_format :: "u32 \<Rightarrow> u32 \<Rightarrow> u32" where
  "drm_mode_legacy_fb_format bpp depth =
     (if bpp = 8 then DRM_FORMAT_C8
      else if bpp = 16 then (if depth = 15 then DRM_FORMAT_XRGB1555 else DRM_FORMAT_RGB565)
      else if bpp = 24 then DRM_FORMAT_RGB888
      else if bpp = 32 then
        (if depth = 24 then DRM_FORMAT_XRGB8888
         else if depth = 30 then DRM_FORMAT_XRGB2101010
         else DRM_FORMAT_ARGB8888)
      else DRM_FORMAT_XRGB8888)"

section \<open>Sizes of planes\<close>

definition drm_format_num_planes :: "u32 \<Rightarrow> s32" where
  "drm_format_num_planes format =
     (case drm_format_info_lookup format of None \<Rightarrow> 1 | Some info \<Rightarrow> ucast (fi_num_planes info))"

text \<open>A plane index is not negative; the callers count up from 0.\<close>

definition drm_format_plane_cpp :: "u32 \<Rightarrow> nat \<Rightarrow> s32" where
  "drm_format_plane_cpp format plane =
     (case drm_format_info_lookup format of
        None \<Rightarrow> 0
      | Some info \<Rightarrow> if plane \<ge> unat (fi_num_planes info) then 0 else ucast (fi_cpp info ! plane))"

definition drm_format_horz_chroma_subsampling :: "u32 \<Rightarrow> s32" where
  "drm_format_horz_chroma_subsampling format =
     (case drm_format_info_lookup format of None \<Rightarrow> 1 | Some info \<Rightarrow> ucast (fi_hsub info))"

definition drm_format_vert_chroma_subsampling :: "u32 \<Rightarrow> s32" where
  "drm_format_vert_chroma_subsampling format =
     (case drm_format_info_lookup format of None \<Rightarrow> 1 | Some info \<Rightarrow> ucast (fi_vsub info))"

definition drm_format_plane_width :: "s32 \<Rightarrow> u32 \<Rightarrow> nat \<Rightarrow> s32" where
  "drm_format_plane_width width format plane =
     (case drm_format_info_lookup format of
        None \<Rightarrow> 0
      | Some info \<Rightarrow>
          if plane \<ge> unat (fi_num_planes info) then 0
          else if plane = 0 then width
          else s32_div width (ucast (fi_hsub info)))"

definition drm_format_plane_height :: "s32 \<Rightarrow> u32 \<Rightarrow> nat \<Rightarrow> s32" where
  "drm_format_plane_height height format plane =
     (case drm_format_info_lookup format of
        None \<Rightarrow> 0
      | Some info \<Rightarrow>
          if plane \<ge> unat (fi_num_planes info) then 0
          else if plane = 0 then height
          else s32_div height (ucast (fi_vsub info)))"

definition DIV_ROUND_UP :: "s32 \<Rightarrow> s32 \<Rightarrow> s32" where
  "DIV_ROUND_UP n d = s32_div (n + d - 1) d"

definition fb_plane_width :: "s32 \<Rightarrow> drm_format_info \<Rightarrow> nat \<Rightarrow> s32" where
  "fb_plane_width width format plane = (if plane = 0 then width else DIV_ROUND_UP width (ucast (fi_hsub format)))"

definition fb_plane_height :: "s32 \<Rightarrow> drm_format_info \<Rightarrow> nat \<Rightarrow> s32" where
  "fb_plane_height height format plane = (if plane = 0 then height else DIV_ROUND_UP height (ucast (fi_vsub format)))"

section \<open>Framebuffers\<close>

text \<open>The arrays of \<^verbatim>\<open>struct drm_mode_fb_cmd2\<close> have four elements.\<close>

record drm_mode_fb_cmd2 =
  fb_id :: u32
  cmd_width :: u32
  cmd_height :: u32
  pixel_format :: u32
  cmd_flags :: u32
  handles :: "u32 list"
  pitches :: "u32 list"
  offsets :: "u32 list"
  modifier :: "u64 list"

record drm_mode_fb_cmd =
  or_fb_id :: u32
  or_width :: u32
  or_height :: u32
  or_pitch :: u32
  or_bpp :: u32
  or_depth :: u32
  or_handle :: u32

record drm_framebuffer =
  fb_base_id :: u32
  fb_width :: u32
  fb_height :: u32
  fb_format :: drm_format_info

definition drm_framebuffer_plane_width :: "s32 \<Rightarrow> drm_framebuffer \<Rightarrow> nat \<Rightarrow> s32" where
  "drm_framebuffer_plane_width width fb plane =
     (if plane \<ge> unat (fi_num_planes (fb_format fb)) then 0 else fb_plane_width width (fb_format fb) plane)"

definition drm_framebuffer_plane_height :: "s32 \<Rightarrow> drm_framebuffer \<Rightarrow> nat \<Rightarrow> s32" where
  "drm_framebuffer_plane_height height fb plane =
     (if plane \<ge> unat (fi_num_planes (fb_format fb)) then 0 else fb_plane_height height (fb_format fb) plane)"

definition DRM_MODE_FB_INTERLACED :: u32 where "DRM_MODE_FB_INTERLACED = push_bit 0 1"
definition DRM_MODE_FB_MODIFIERS :: u32 where "DRM_MODE_FB_MODIFIERS = push_bit 1 1"

definition DRM_FORMAT_MOD_SAMSUNG_64_32_TILE :: u64 where
  "DRM_FORMAT_MOD_SAMSUNG_64_32_TILE = push_bit 56 0x04 OR (1 AND 0x00ffffffffffffff)"

definition drm_framebuffer_check_src_coords :: "u32 \<Rightarrow> u32 \<Rightarrow> u32 \<Rightarrow> u32 \<Rightarrow> drm_framebuffer \<Rightarrow> errno + unit" where
  "drm_framebuffer_check_src_coords src_x src_y src_w src_h fb =
     (let fb_w = push_bit 16 (fb_width fb); fb_h = push_bit 16 (fb_height fb)
      in if src_w > fb_w \<or> src_x > fb_w - src_w \<or> src_h > fb_h \<or> src_y > fb_h - src_h
         then Inl ENOSPC else Inr ())"

text \<open>\<^verbatim>\<open>drm_get_format_info\<close>; \<open>hook\<close> is the driver's \<^verbatim>\<open>get_format_info\<close>, if it has one.\<close>

type_synonym format_hook = "(drm_mode_fb_cmd2 \<Rightarrow> drm_format_info option) option"

definition drm_get_format_info :: "format_hook \<Rightarrow> drm_mode_fb_cmd2 \<Rightarrow> drm_format_info option" where
  "drm_get_format_info hook mode_cmd =
     (case (case hook of None \<Rightarrow> None | Some get \<Rightarrow> get mode_cmd) of
        None \<Rightarrow> drm_format_info_lookup (pixel_format mode_cmd)
      | Some info \<Rightarrow> Some info)"

text \<open>The body of the first loop of \<^verbatim>\<open>framebuffer_check\<close>, for a plane that the format uses.\<close>

definition fb_check_plane :: "drm_mode_fb_cmd2 \<Rightarrow> drm_format_info \<Rightarrow> nat \<Rightarrow> errno + unit" where
  "fb_check_plane r info i =
     (let width = fb_plane_width (cmd_width r) info i :: u32;
          height = fb_plane_height (cmd_height r) info i :: u32;
          cpp = ucast (fi_cpp info ! i) :: u32
      in if handles r ! i = 0 then Inl EINVAL
         else if (ucast width :: u64) * ucast cpp > 0xffffffff then Inl ERANGE
         else if (ucast height :: u64) * ucast (pitches r ! i) + ucast (offsets r ! i) > 0xffffffff then Inl ERANGE
         else if pitches r ! i < width * cpp then Inl EINVAL
         else if modifier r ! i \<noteq> 0 \<and> cmd_flags r AND DRM_MODE_FB_MODIFIERS = 0 then Inl EINVAL
         else if cmd_flags r AND DRM_MODE_FB_MODIFIERS \<noteq> 0 \<and> modifier r ! i \<noteq> modifier r ! 0 then Inl EINVAL
         else if modifier r ! i = DRM_FORMAT_MOD_SAMSUNG_64_32_TILE \<and>
                 (pixel_format r \<noteq> DRM_FORMAT_NV12 \<or> width mod 128 \<noteq> 0 \<or> height mod 32 \<noteq> 0 \<or> pitches r ! i mod 128 \<noteq> 0)
              then Inl EINVAL
         else Inr ())"

text \<open>The body of the second loop, for a plane that it does not use.\<close>

definition fb_check_unused :: "drm_mode_fb_cmd2 \<Rightarrow> nat \<Rightarrow> errno + unit" where
  "fb_check_unused r i =
     (if modifier r ! i \<noteq> 0 then Inl EINVAL
      else if cmd_flags r AND DRM_MODE_FB_MODIFIERS = 0 then Inr ()
      else if handles r ! i \<noteq> 0 then Inl EINVAL
      else if pitches r ! i \<noteq> 0 then Inl EINVAL
      else if offsets r ! i \<noteq> 0 then Inl EINVAL
      else Inr ())"

text \<open>A loop that stops at the first error.\<close>

fun first_error :: "(nat \<Rightarrow> errno + unit) \<Rightarrow> nat list \<Rightarrow> errno + unit" where
  "first_error check [] = Inr ()"
| "first_error check (i # is) = (case check i of Inl e \<Rightarrow> Inl e | Inr _ \<Rightarrow> first_error check is)"

text \<open>
  \<^verbatim>\<open>framebuffer_check\<close> is \<open>None\<close> where it dereferences a null pointer or reads more than the three elements of
  \<^verbatim>\<open>cpp\<close>.
\<close>

definition framebuffer_check :: "format_hook \<Rightarrow> drm_mode_fb_cmd2 \<Rightarrow> (errno + unit) option" where
  "framebuffer_check hook r =
     (if drm_format_info_lookup (pixel_format r AND NOT DRM_FORMAT_BIG_ENDIAN) = None then Some (Inl EINVAL)
      else
        let info = drm_get_format_info hook r
        in if cmd_width r = 0 then Some (Inl EINVAL)
           else if cmd_height r = 0 then Some (Inl EINVAL)
           else
             case info of
               None \<Rightarrow> None
             | Some info \<Rightarrow>
                 if unat (fi_num_planes info) > 3 then None
                 else
                   case first_error (fb_check_plane r info) [0..<unat (fi_num_planes info)] of
                     Inl e \<Rightarrow> Some (Inl e)
                   | Inr _ \<Rightarrow> Some (first_error (fb_check_unused r) [unat (fi_num_planes info)..<4]))"

text \<open>The limits in \<^verbatim>\<open>struct drm_mode_config\<close> are \<^verbatim>\<open>int\<close>, but compared with unsigned numbers.\<close>

record drm_mode_config =
  min_width :: u32
  max_width :: u32
  min_height :: u32
  max_height :: u32
  allow_fb_modifiers :: bool

definition drm_internal_framebuffer_create :: "drm_mode_config \<Rightarrow> format_hook \<Rightarrow>
    (drm_mode_fb_cmd2 \<Rightarrow> errno + drm_framebuffer) \<Rightarrow> drm_mode_fb_cmd2 \<Rightarrow> (errno + drm_framebuffer) option" where
  "drm_internal_framebuffer_create config hook fb_create r =
     (if cmd_flags r AND NOT (DRM_MODE_FB_INTERLACED OR DRM_MODE_FB_MODIFIERS) \<noteq> 0 then Some (Inl EINVAL)
      else if min_width config > cmd_width r \<or> cmd_width r > max_width config then Some (Inl EINVAL)
      else if min_height config > cmd_height r \<or> cmd_height r > max_height config then Some (Inl EINVAL)
      else if cmd_flags r AND DRM_MODE_FB_MODIFIERS \<noteq> 0 \<and> \<not> allow_fb_modifiers config then Some (Inl EINVAL)
      else
        case framebuffer_check hook r of
          None \<Rightarrow> None
        | Some (Inl e) \<Rightarrow> Some (Inl e)
        | Some (Inr _) \<Rightarrow> Some (fb_create r))"

text \<open>\<open>modeset\<close> is whether the driver has \<^verbatim>\<open>DRIVER_MODESET\<close>; \<open>fbs\<close> are the framebuffers of the open file.\<close>

definition drm_mode_addfb2 :: "bool \<Rightarrow> drm_mode_config \<Rightarrow> format_hook \<Rightarrow>
    (drm_mode_fb_cmd2 \<Rightarrow> errno + drm_framebuffer) \<Rightarrow> drm_mode_fb_cmd2 \<Rightarrow> drm_framebuffer list \<Rightarrow>
    (errno + drm_mode_fb_cmd2 \<times> drm_framebuffer list) option" where
  "drm_mode_addfb2 modeset config hook fb_create r fbs =
     (if \<not> modeset then Some (Inl EINVAL)
      else
        case drm_internal_framebuffer_create config hook fb_create r of
          None \<Rightarrow> None
        | Some (Inl e) \<Rightarrow> Some (Inl e)
        | Some (Inr fb) \<Rightarrow> Some (Inr (r\<lparr>fb_id := fb_base_id fb\<rparr>, fb # fbs)))"

text \<open>\<open>xbgr\<close> is whether the driver has \<^verbatim>\<open>DRIVER_PREFER_XBGR_30BPP\<close>.\<close>

definition drm_mode_addfb :: "bool \<Rightarrow> bool \<Rightarrow> drm_mode_config \<Rightarrow> format_hook \<Rightarrow>
    (drm_mode_fb_cmd2 \<Rightarrow> errno + drm_framebuffer) \<Rightarrow> drm_mode_fb_cmd \<Rightarrow> drm_framebuffer list \<Rightarrow>
    (errno + drm_mode_fb_cmd \<times> drm_framebuffer list) option" where
  "drm_mode_addfb xbgr modeset config hook fb_create cmd fbs =
     (let format = drm_mode_legacy_fb_format (or_bpp cmd) (or_depth cmd);
          format = (if format = DRM_FORMAT_XRGB2101010 \<and> xbgr then DRM_FORMAT_XBGR2101010 else format);
          r = \<lparr>fb_id = or_fb_id cmd, cmd_width = or_width cmd, cmd_height = or_height cmd, pixel_format = format,
               cmd_flags = 0, handles = [or_handle cmd, 0, 0, 0], pitches = [or_pitch cmd, 0, 0, 0],
               offsets = [0, 0, 0, 0], modifier = [0, 0, 0, 0]\<rparr>
      in case drm_mode_addfb2 modeset config hook fb_create r fbs of
           None \<Rightarrow> None
         | Some (Inl e) \<Rightarrow> Some (Inl e)
         | Some (Inr (r, fbs)) \<Rightarrow> Some (Inr (cmd\<lparr>or_fb_id := fb_id r\<rparr>, fbs)))"

end
