(* ===== verification/Fourcc_Table.thy ===== *)
theory Fourcc_Table
  imports Fourcc
begin

text \<open>
  Facts on the table of formats, by evaluation: the codes are distinct and little-endian, and every
  entry is well-formed.
\<close>

unbundle bit_operations_syntax

section \<open>The table\<close>

lemma fourcc_values:
  "DRM_FORMAT_C8 = 538982467"
  "DRM_FORMAT_RGB332 = 943867730"
  "DRM_FORMAT_BGR233 = 944916290"
  "DRM_FORMAT_XRGB4444 = 842093144"
  "DRM_FORMAT_XBGR4444 = 842089048"
  "DRM_FORMAT_RGBX4444 = 842094674"
  "DRM_FORMAT_BGRX4444 = 842094658"
  "DRM_FORMAT_ARGB4444 = 842093121"
  "DRM_FORMAT_ABGR4444 = 842089025"
  "DRM_FORMAT_RGBA4444 = 842088786"
  "DRM_FORMAT_BGRA4444 = 842088770"
  "DRM_FORMAT_XRGB1555 = 892424792"
  "DRM_FORMAT_XBGR1555 = 892420696"
  "DRM_FORMAT_RGBX5551 = 892426322"
  "DRM_FORMAT_BGRX5551 = 892426306"
  "DRM_FORMAT_ARGB1555 = 892424769"
  "DRM_FORMAT_ABGR1555 = 892420673"
  "DRM_FORMAT_RGBA5551 = 892420434"
  "DRM_FORMAT_BGRA5551 = 892420418"
  "DRM_FORMAT_RGB565 = 909199186"
  "DRM_FORMAT_BGR565 = 909199170"
  "DRM_FORMAT_RGB888 = 875710290"
  "DRM_FORMAT_BGR888 = 875710274"
  "DRM_FORMAT_XRGB8888 = 875713112"
  "DRM_FORMAT_XBGR8888 = 875709016"
  "DRM_FORMAT_RGBX8888 = 875714642"
  "DRM_FORMAT_BGRX8888 = 875714626"
  "DRM_FORMAT_ARGB8888 = 875713089"
  "DRM_FORMAT_ABGR8888 = 875708993"
  "DRM_FORMAT_RGBA8888 = 875708754"
  "DRM_FORMAT_BGRA8888 = 875708738"
  "DRM_FORMAT_XRGB2101010 = 808669784"
  "DRM_FORMAT_XBGR2101010 = 808665688"
  "DRM_FORMAT_RGBX1010102 = 808671314"
  "DRM_FORMAT_BGRX1010102 = 808671298"
  "DRM_FORMAT_ARGB2101010 = 808669761"
  "DRM_FORMAT_ABGR2101010 = 808665665"
  "DRM_FORMAT_RGBA1010102 = 808665426"
  "DRM_FORMAT_BGRA1010102 = 808665410"
  "DRM_FORMAT_YUYV = 1448695129"
  "DRM_FORMAT_YVYU = 1431918169"
  "DRM_FORMAT_UYVY = 1498831189"
  "DRM_FORMAT_VYUY = 1498765654"
  "DRM_FORMAT_AYUV = 1448433985"
  "DRM_FORMAT_XRGB8888_A8 = 943805016"
  "DRM_FORMAT_XBGR8888_A8 = 943800920"
  "DRM_FORMAT_RGBX8888_A8 = 943806546"
  "DRM_FORMAT_BGRX8888_A8 = 943806530"
  "DRM_FORMAT_RGB888_A8 = 943798354"
  "DRM_FORMAT_BGR888_A8 = 943798338"
  "DRM_FORMAT_RGB565_A8 = 943797586"
  "DRM_FORMAT_BGR565_A8 = 943797570"
  "DRM_FORMAT_NV12 = 842094158"
  "DRM_FORMAT_NV21 = 825382478"
  "DRM_FORMAT_NV16 = 909203022"
  "DRM_FORMAT_NV61 = 825644622"
  "DRM_FORMAT_NV24 = 875714126"
  "DRM_FORMAT_NV42 = 842290766"
  "DRM_FORMAT_YUV410 = 961959257"
  "DRM_FORMAT_YVU410 = 961893977"
  "DRM_FORMAT_YUV411 = 825316697"
  "DRM_FORMAT_YVU411 = 825316953"
  "DRM_FORMAT_YUV420 = 842093913"
  "DRM_FORMAT_YVU420 = 842094169"
  "DRM_FORMAT_YUV422 = 909202777"
  "DRM_FORMAT_YVU422 = 909203033"
  "DRM_FORMAT_YUV444 = 875713881"
  "DRM_FORMAT_YVU444 = 875714137"
  by (simp_all add: fourcc_defs fourcc_code_def)

text \<open>What every entry of the table has: one to three planes, with bytes exactly for these.\<close>

definition info_wf :: "drm_format_info \<Rightarrow> bool" where
  "info_wf info \<longleftrightarrow> fi_num_planes info \<in> {1, 2, 3} \<and> length (fi_cpp info) = 3 \<and>
     (\<forall>i<3. (fi_cpp info ! i \<noteq> 0) = (i < unat (fi_num_planes info))) \<and> (\<forall>c\<in>set (fi_cpp info). c \<le> 4) \<and>
     fi_hsub info \<in> {1, 2, 4} \<and> fi_vsub info \<in> {1, 2, 4}"

lemma all_less_3: "(\<forall>i<3. P i) \<longleftrightarrow> P 0 \<and> P 1 \<and> P (2 :: nat)"
  by (auto simp: numeral_3_eq_3 numeral_2_eq_2 less_Suc_eq)

lemma drm_formats_wf: "\<forall>info\<in>set drm_formats. info_wf info"
  by (simp add: drm_formats_def info_wf_def all_less_3)

lemma drm_formats_distinct: "distinct (map fi_format drm_formats)"
  by (simp add: drm_formats_def fourcc_values)

lemma drm_formats_little_endian: "\<forall>info\<in>set drm_formats. \<not> bit (fi_format info) 31"
  by (simp add: drm_formats_def fourcc_values)

lemma format_info_iff: "drm_format_info_lookup f = Some info \<longleftrightarrow> info \<in> set drm_formats \<and> fi_format info = f"
proof -
  have "find (\<lambda>info. fi_format info = f) xs = Some info \<longleftrightarrow> info \<in> set xs \<and> fi_format info = f"
    if "distinct (map fi_format xs)" for xs
    using that by (induction xs) (auto simp: image_iff)
  then show ?thesis by (simp add: drm_format_info_lookup_def drm_formats_distinct)
qed

lemma format_info_wf: "drm_format_info_lookup f = Some info \<Longrightarrow> info_wf info"
  using drm_formats_wf by (simp add: format_info_iff)

end
