(* ===== verification/Fourcc_Correct.thy ===== *)
theory Fourcc_Correct
  imports Fourcc_Table
begin

text \<open>
  A framebuffer that passes the checks can be addressed without overflow: every pixel of every plane
  lies in the first 4 GiB of its buffer object and within its row. The checks themselves can crash.
\<close>

unbundle bit_operations_syntax

section \<open>Addressing a plane\<close>

text \<open>The division in \<^verbatim>\<open>DIV_ROUND_UP\<close>, with operands of type \<^verbatim>\<open>int\<close>: the sum wraps around, and the quotient is truncated.\<close>

lemma sint_word_of_int: "sint (word_of_int a :: s32) = (if a < 2 ^ 31 then a else a - 2 ^ 32)" if "0 \<le> a" "a < 3 * 2 ^ 31"
proof -
  have "(a + 2147483648) mod 4294967296 = (if a < 2147483648 then a + 2147483648 else a - 2147483648)"
  proof (cases "a < 2147483648")
    case False
    then have "(a - 2147483648) mod 4294967296 = a - 2147483648"
      using that by (subst mod_pos_pos_trivial) simp_all
    moreover have "(a + 2147483648) mod 4294967296 = (a - 2147483648 + 4294967296) mod 4294967296" by (simp add: add.commute)
    ultimately show ?thesis using False by (simp only: mod_add_self2) simp
  qed (use that in \<open>simp add: mod_pos_pos_trivial\<close>)
  then show ?thesis
    by (simp add: sint_sbintrunc' signed_take_bit_eq_take_bit_shift take_bit_eq_mod)
qed

lemma div_round_up:
  fixes n d :: s32
  assumes "d \<noteq> 0" "unat d < 256"
  defines "a \<equiv> unat n + unat d - 1"
  shows "unat (DIV_ROUND_UP n d) =
    (if a < 2 ^ 31 then a div unat d else if 2 ^ 32 < a + unat d then 0 else 2 ^ 32 - (2 ^ 32 - a) div unat d)"
proof -
  have d: "0 < unat d" using assms(1) by (simp add: unat_gt_0)
  have n: "unat n < 2 ^ 32" using unsigned_less [of n] by simp
  have "n + d - 1 = word_of_int (int a)"
  proof -
    have "int a = uint n + uint d - 1" using d by (simp add: a_def)
    then show ?thesis by simp
  qed
  moreover have "int a < 3 * 2 ^ 31" using n assms(2) by (simp add: a_def del: of_nat_unat)
  ultimately have s: "sint (n + d - 1) = (if int a < 2 ^ 31 then int a else int a - 2 ^ 32)"
    using sint_word_of_int [of "int a"] by (simp only: of_nat_0_le_iff)
  have sd: "sint d = int (unat d)"
  proof -
    have "int (unat d) < 256" using assms(2) by (simp del: of_nat_unat)
    then show ?thesis using sint_word_of_int [of "int (unat d)"] by simp
  qed
  have u: "DIV_ROUND_UP n d = word_of_int (sint (n + d - 1) sdiv int (unat d))"
    by (simp add: DIV_ROUND_UP_def s32_div_def sd)
  consider "a < 2 ^ 31" | "2 ^ 31 \<le> a" "a + unat d \<le> 2 ^ 32" | "2 ^ 31 \<le> a" "2 ^ 32 < a + unat d" by linarith
  then show ?thesis
  proof cases
    case 1
    then have "int a sdiv int (unat d) = int (a div unat d)"
      using d by (cases "a = 0") (simp_all add: signed_divide_int_def zdiv_int del: of_nat_unat)
    with 1 s u have "DIV_ROUND_UP n d = of_nat (a div unat d)" by simp
    moreover have "a div unat d < 2 ^ 32" by (rule le_less_trans [OF div_le_dividend]) (use 1 in simp)
    ultimately show ?thesis using 1 by (simp add: unsigned_of_nat take_bit_nat_eq_self)
  next
    case 2
    define q where "q = (2 ^ 32 - a) div unat d"
    have "0 < q" using 2 d by (simp add: q_def div_greater_zero_iff)
    moreover have "q \<le> 2 ^ 31" unfolding q_def by (rule order_trans [OF div_le_dividend]) (use 2 in simp)
    ultimately have q: "0 < q" "q \<le> 2 ^ 31" by simp_all
    have "(int a - 2 ^ 32) sdiv int (unat d) = - int q"
    proof -
      have "int a - 2 ^ 32 = - int (2 ^ 32 - a)" using 2 by simp
      moreover have "0 < int (2 ^ 32 - a)" using 2 d by simp
      ultimately show ?thesis using d by (simp add: signed_divide_int_def q_def zdiv_int del: of_nat_unat)
    qed
    with 2 s u have "DIV_ROUND_UP n d = word_of_int (- int q)" by simp
    also have "\<dots> = of_nat (2 ^ 32 - q)" using q by (simp add: of_nat_diff word_of_int_minus)
    finally have "unat (DIV_ROUND_UP n d) = take_bit 32 (2 ^ 32 - q)" by (simp only: unsigned_of_nat) simp
    also have "\<dots> = 2 ^ 32 - q" by (rule take_bit_nat_eq_self) (use q in simp)
    finally show ?thesis using 2 by (simp add: q_def)
  next
    case 3
    then have "\<bar>int a - 2 ^ 32\<bar> < int (unat d)" using n by (simp add: a_def del: of_nat_unat)
    then have "(int a - 2 ^ 32) sdiv int (unat d) = 0"
      by (simp add: signed_divide_int_def)
    with 3 s u show ?thesis by simp
  qed
qed

lemma unat_less: "unat (a :: u8) < 2 ^ 8" "unat (b :: u32) < 2 ^ 32"
  using unsigned_less [of a] unsigned_less [of b] by simp_all

lemma unat_ucast_up: "unat (ucast (a :: u8) :: u32) = unat a" "unat (ucast (b :: u32) :: u64) = unat b"
  using unat_less(1) [of a] unat_less(2) [of b] by (simp_all add: unsigned_ucast_eq take_bit_nat_eq_self)

lemma unat_times: "unat a * unat b < 2 ^ 64 \<Longrightarrow> unat (a * b) = unat a * unat b" for a b :: u64
  by (simp add: unat_word_ariths)

text \<open>The size of a plane in samples, rounded up where it is subsampled.\<close>

definition plane_size :: "u32 \<Rightarrow> u8 \<Rightarrow> nat \<Rightarrow> nat" where
  "plane_size n sub i = (if i = 0 then unat n else (unat n + unat sub - 1) div unat sub)"

lemma fb_plane_rounded:
  assumes "0 < unat s" and "i \<noteq> 0"
  shows "unat (DIV_ROUND_UP n (ucast s)) < plane_size n s i \<longleftrightarrow> 2 ^ 32 + 1 < unat n + 2 * unat s"
    and "2 ^ 32 + 1 < unat n + 2 * unat s \<Longrightarrow> DIV_ROUND_UP n (ucast s) = 0"
proof -
  let ?a = "unat n + unat s - 1"
  have b: "unat s < 256" "unat n < 2 ^ 32" using unat_less(1) [of s] unat_less(2) [of n] by simp_all
  then have r: "unat (DIV_ROUND_UP n (ucast s)) =
      (if ?a < 2 ^ 31 then ?a div unat s else if 2 ^ 32 < ?a + unat s then 0 else 2 ^ 32 - (2 ^ 32 - ?a) div unat s)"
    using div_round_up [of "ucast s" n] assms(1) by (simp add: unat_ucast_up unat_gt_0 [symmetric])
  show z: "DIV_ROUND_UP n (ucast s) = 0" if "2 ^ 32 + 1 < unat n + 2 * unat s"
  proof -
    have "unat (DIV_ROUND_UP n (ucast s)) = 0" unfolding r using that b by simp
    then show ?thesis by (simp add: unat_eq_0)
  qed
  have "?a div unat s \<le> unat (DIV_ROUND_UP n (ucast s))" if "\<not> 2 ^ 32 + 1 < unat n + 2 * unat s"
  proof (cases "?a < 2 ^ 31")
    case False
    have "(2 ^ 32 - ?a) div unat s + ?a div unat s \<le> (2 ^ 32 - ?a + ?a) div unat s" by (simp only: div_add1_eq [of _ ?a])
    also have "\<dots> \<le> 2 ^ 32" using that by simp
    finally have "?a div unat s \<le> 2 ^ 32 - (2 ^ 32 - ?a) div unat s" by linarith
    moreover have "\<not> 2 ^ 32 < ?a + unat s" using that by simp
    ultimately show ?thesis unfolding r using False by (simp only: if_False)
  qed (simp add: r)
  moreover have "0 < ?a div unat s" if "2 ^ 32 + 1 < unat n + 2 * unat s" using that assms(1) b by (simp add: div_greater_zero_iff)
  ultimately show "unat (DIV_ROUND_UP n (ucast s)) < plane_size n s i \<longleftrightarrow> 2 ^ 32 + 1 < unat n + 2 * unat s"
    using z assms(2) by (auto simp: plane_size_def not_less [symmetric])
qed

lemma fb_plane_size:
  assumes "s \<noteq> 0" and "unat n + 2 * unat s \<le> 2 ^ 32 + 1"
  shows "s = fi_hsub info \<Longrightarrow> plane_size n s i \<le> unat (fb_plane_width n info i)"
    and "s = fi_vsub info \<Longrightarrow> plane_size n s i \<le> unat (fb_plane_height n info i)"
proof -
  have "0 < unat s" using assms(1) by (simp add: unat_gt_0)
  from fb_plane_rounded(1) [OF this, of i n] assms(2)
  show "s = fi_hsub info \<Longrightarrow> plane_size n s i \<le> unat (fb_plane_width n info i)"
    "s = fi_vsub info \<Longrightarrow> plane_size n s i \<le> unat (fb_plane_height n info i)"
    by (auto simp: fb_plane_width_def fb_plane_height_def plane_size_def not_less)
qed

lemma fb_check_plane_ok:
  assumes ok: "fb_check_plane r info i = Inr ()"
  defines "w \<equiv> unat (fb_plane_width (cmd_width r) info i)" and "h \<equiv> unat (fb_plane_height (cmd_height r) info i)"
    and "cpp \<equiv> unat (fi_cpp info ! i)"
  shows "handles r ! i \<noteq> 0" "w * cpp \<le> unat (pitches r ! i)"
    "h * unat (pitches r ! i) + unat (offsets r ! i) < 2 ^ 32"
proof -
  let ?w = "fb_plane_width (cmd_width r) info i" and ?h = "fb_plane_height (cmd_height r) info i"
  let ?c = "ucast (fi_cpp info ! i) :: u32" and ?p = "pitches r ! i" and ?o = "offsets r ! i"
  have c: "handles r ! i \<noteq> 0" "\<not> 0xffffffff < (ucast ?w :: u64) * ucast ?c"
    "\<not> 0xffffffff < (ucast ?h :: u64) * ucast ?p + ucast ?o" "\<not> ?p < ?w * ?c"
    using ok by (auto simp: fb_check_plane_def Let_def split: if_splits)
  have b: "unat ?w < 2 ^ 32" "unat ?h < 2 ^ 32" "unat ?p < 2 ^ 32" "unat ?o < 2 ^ 32" "cpp < 2 ^ 8"
    by (simp_all only: cpp_def unat_less)
  have "unat ?w * cpp \<le> 2 ^ 32 * 2 ^ 8" using b by (intro mult_mono) simp_all
  then have wc: "unat ((ucast ?w :: u64) * ucast ?c) = w * cpp"
    by (subst unat_times) (simp_all add: unat_ucast_up w_def cpp_def)
  with c(2) have wc32: "w * cpp < 2 ^ 32" by (simp add: word_less_nat_alt)
  have "unat ?h * unat ?p \<le> (2 ^ 32 - 1) * (2 ^ 32 - 1)" using b by (intro mult_mono) simp_all
  then have hp: "unat ((ucast ?h :: u64) * ucast ?p + ucast ?o) = h * unat ?p + unat ?o"
    using b(4) by (simp add: unat_word_ariths unat_ucast_up h_def)
  show "handles r ! i \<noteq> 0" by (rule c(1))
  show "h * unat ?p + unat ?o < 2 ^ 32" using c(3) hp by (simp add: word_less_nat_alt)
  have "unat (?w * ?c) = w * cpp" using wc32 by (simp add: unat_word_ariths unat_ucast_up w_def cpp_def)
  then show "w * cpp \<le> unat ?p" using c(4) by (simp add: word_less_nat_alt)
qed

lemma first_error_ok: "first_error f is = Inr () \<longleftrightarrow> (\<forall>i\<in>set is. f i = Inr ())"
  by (induction "is") (auto split: sum.split)

lemma framebuffer_check_planes:
  assumes "framebuffer_check hook r = Some (Inr ())" and "drm_get_format_info hook r = Some info"
  shows "i < unat (fi_num_planes info) \<Longrightarrow> fb_check_plane r info i = Inr ()"
    and "unat (fi_num_planes info) \<le> i \<Longrightarrow> i < 4 \<Longrightarrow> fb_check_unused r i = Inr ()"
proof -
  have "first_error (fb_check_plane r info) [0..<unat (fi_num_planes info)] = Inr ()"
    "first_error (fb_check_unused r) [unat (fi_num_planes info)..<4] = Inr ()"
    using assms by (auto simp: framebuffer_check_def Let_def split: if_splits sum.splits)
  then show "i < unat (fi_num_planes info) \<Longrightarrow> fb_check_plane r info i = Inr ()"
    "unat (fi_num_planes info) \<le> i \<Longrightarrow> i < 4 \<Longrightarrow> fb_check_unused r i = Inr ()"
    by (auto simp: first_error_ok)
qed

lemma bit_big_endian: "bit DRM_FORMAT_BIG_ENDIAN n \<longleftrightarrow> n = 31"
proof -
  have "bit (push_bit k (1 :: u32)) n \<longleftrightarrow> n = k" if "k < 32" for k
    using that by (auto simp: bit_simps)
  from this [of 31] show ?thesis unfolding DRM_FORMAT_BIG_ENDIAN_def by simp
qed

section \<open>Properties\<close>

text \<open>
  C11. When \<^verbatim>\<open>framebuffer_check\<close> accepts a request, the memory of the framebuffer can be addressed with 32 bits:
  every plane has a buffer object, every pixel of it lies inside of its row, and the last byte of every
  row is below 4 GiB. This holds for all subsampling factors other than zero, whether the format is of the
  table or of the driver, and for all sizes up to 2 to the 32 minus twice the factor, plus one.
\<close>

theorem framebuffer_check_safe:
  assumes ok: "framebuffer_check hook r = Some (Inr ())" and info: "drm_get_format_info hook r = Some info"
    and sub: "fi_hsub info \<noteq> 0" "fi_vsub info \<noteq> 0"
    and width: "unat (cmd_width r) + 2 * unat (fi_hsub info) \<le> 2 ^ 32 + 1"
    and height: "unat (cmd_height r) + 2 * unat (fi_vsub info) \<le> 2 ^ 32 + 1"
    and pixel: "i < unat (fi_num_planes info)" "x < plane_size (cmd_width r) (fi_hsub info) i"
      "y < plane_size (cmd_height r) (fi_vsub info) i"
  shows "handles r ! i \<noteq> 0 \<and> (x + 1) * unat (fi_cpp info ! i) \<le> unat (pitches r ! i) \<and>
    unat (offsets r ! i) + y * unat (pitches r ! i) + (x + 1) * unat (fi_cpp info ! i) < 2 ^ 32"
proof -
  let ?w = "unat (fb_plane_width (cmd_width r) info i)" and ?h = "unat (fb_plane_height (cmd_height r) info i)"
  let ?c = "unat (fi_cpp info ! i)" and ?p = "unat (pitches r ! i)"
  have "fb_check_plane r info i = Inr ()" by (rule framebuffer_check_planes(1) [OF ok info pixel(1)])
  note p = fb_check_plane_ok [OF this]
  have "x + 1 \<le> ?w" "y + 1 \<le> ?h"
    using pixel(2,3) fb_plane_size(1) [OF sub(1) width refl, of i] fb_plane_size(2) [OF sub(2) height refl, of i] by simp_all
  then have "(x + 1) * ?c \<le> ?w * ?c" "(y + 1) * ?p \<le> ?h * ?p" by (simp_all only: mult_le_mono1)
  with p(2) have row: "(x + 1) * ?c \<le> ?p" by simp
  with p(3) \<open>(y + 1) * ?p \<le> ?h * ?p\<close> have "unat (offsets r ! i) + y * ?p + (x + 1) * ?c < 2 ^ 32" by simp
  with p(1) row show ?thesis by blast
qed

text \<open>A frame in full HD, format NV12, with the chroma plane behind the luma plane.\<close>

definition fb_example :: drm_mode_fb_cmd2 where
  "fb_example = \<lparr>fb_id = 0, cmd_width = 1920, cmd_height = 1080, pixel_format = DRM_FORMAT_NV12, cmd_flags = 0,
     handles = [1, 1, 0, 0], pitches = [2048, 2048, 0, 0], offsets = [0, 2211840, 0, 0], modifier = [0, 0, 0, 0]\<rparr>"

lemma fb_example:
  "drm_format_info_lookup DRM_FORMAT_NV12 = Some (fmt DRM_FORMAT_NV12 0 2 [1, 2, 0] 2 2)"
  "framebuffer_check None fb_example = Some (Inr ())"
proof -
  show i: "drm_format_info_lookup DRM_FORMAT_NV12 = Some (fmt DRM_FORMAT_NV12 0 2 [1, 2, 0] 2 2)"
    by (simp add: format_info_iff) (simp add: drm_formats_def)
  have be: "DRM_FORMAT_NV12 AND NOT DRM_FORMAT_BIG_ENDIAN = DRM_FORMAT_NV12"
    by (simp add: fourcc_values DRM_FORMAT_BIG_ENDIAN_def)
  have u: "[0..<2] = [0, 1 :: nat]" "[2..<4] = [2, 3 :: nat]" by (simp_all add: upt_rec)
  have d: "DIV_ROUND_UP 1920 2 = 960" "DIV_ROUND_UP 1080 2 = 540"
    by (simp_all add: DIV_ROUND_UP_def s32_div_def signed_divide_int_def)
  show "framebuffer_check None fb_example = Some (Inr ())"
    by (simp add: framebuffer_check_def fb_example_def drm_get_format_info_def be i u fb_check_plane_def fb_check_unused_def
        fb_plane_width_def fb_plane_height_def d DRM_FORMAT_MOD_SAMSUNG_64_32_TILE_def)
qed

theorem framebuffer_check_safe_witness:
  "handles fb_example ! 1 \<noteq> 0 \<and> (959 + 1) * 2 \<le> unat (pitches fb_example ! 1) \<and>
    unat (offsets fb_example ! 1) + 539 * unat (pitches fb_example ! 1) + (959 + 1) * 2 < 2 ^ 32"
proof -
  let ?info = "fmt DRM_FORMAT_NV12 0 2 [1, 2, 0] 2 2"
  have i: "drm_get_format_info None fb_example = Some ?info"
    by (simp add: drm_get_format_info_def fb_example_def fb_example(1))
  from framebuffer_check_safe [OF fb_example(2) i, of 1 959 539] show ?thesis
    by (simp add: fb_example_def plane_size_def)
qed

text \<open>
  C35. The number of samples in a row of a subsampled plane is rounded up with an addition that wraps around.
  For the widths that wrap the number becomes zero: when such a request is accepted, it is also accepted
  with a pitch of zero for that plane, although a row of the plane has at least 2 to the 29 samples.
\<close>

theorem framebuffer_check_wraps:
  assumes ok: "framebuffer_check None r = Some (Inr ())" and info: "drm_get_format_info None r = Some info"
    and mods: "cmd_flags r AND DRM_MODE_FB_MODIFIERS = 0" "length (pitches r) = 4"
    and plane: "i \<noteq> 0" "i < unat (fi_num_planes info)"
    and wraps: "2 ^ 32 + 1 < unat (cmd_width r) + 2 * unat (fi_hsub info)"
  shows "framebuffer_check None (r\<lparr>pitches := (pitches r)[i := 0]\<rparr>) = Some (Inr ()) \<and>
    2 ^ 29 \<le> plane_size (cmd_width r) (fi_hsub info) i"
proof
  let ?r = "r\<lparr>pitches := (pitches r)[i := 0]\<rparr>"
  have i: "drm_get_format_info None ?r = Some info" using info by (simp add: drm_get_format_info_def)
  have "info_wf info" using info by (simp add: drm_get_format_info_def format_info_wf)
  then have n: "unat (fi_num_planes info) \<le> 3" "0 < unat (fi_hsub info)" "unat (fi_hsub info) \<le> 4" by (auto simp: info_wf_def)
  have w: "fb_plane_width (cmd_width r) info i = 0"
    using fb_plane_rounded(2) [OF n(2) plane(1) wraps] plane(1) by (simp add: fb_plane_width_def)
  note c = framebuffer_check_planes(1) [OF ok info]
  have "unat (ucast (offsets r ! i) :: u64) \<le> 0xffffffff"
    using unat_less(2) [of "offsets r ! i"] by (simp only: unat_ucast_up) simp
  then have o: "\<not> 0xffffffff < (ucast (offsets r ! i) :: u64)" by (simp add: word_less_nat_alt)
  have ch: "fb_check_plane ?r info j = Inr ()" if j: "j < unat (fi_num_planes info)" for j
  proof (cases "j = i")
    case True
    with c [OF j] w o mods plane n(1) show ?thesis
      by (auto simp: fb_check_plane_def Let_def DRM_FORMAT_MOD_SAMSUNG_64_32_TILE_def split: if_splits)
  next
    case False
    then have "fb_check_plane ?r info j = fb_check_plane r info j" by (simp add: fb_check_plane_def Let_def)
    with c [OF j] show ?thesis by simp
  qed
  have un: "fb_check_unused ?r j = Inr ()" if "unat (fi_num_planes info) \<le> j" "j < 4" for j
    using framebuffer_check_planes(2) [OF ok info that] plane(2) that by (simp add: fb_check_unused_def split: if_splits)
  have "first_error (fb_check_plane ?r info) [0..<unat (fi_num_planes info)] = Inr ()"
    "first_error (fb_check_unused ?r) [unat (fi_num_planes info)..<4] = Inr ()"
    using ch un by (simp_all add: first_error_ok)
  then show "framebuffer_check None ?r = Some (Inr ())"
    using ok i info n(1) by (simp add: framebuffer_check_def split: if_splits)
  have "2 ^ 29 * unat (fi_hsub info) \<le> unat (cmd_width r) + unat (fi_hsub info) - 1" using wraps n by simp
  then have "2 ^ 29 * unat (fi_hsub info) div unat (fi_hsub info) \<le> (unat (cmd_width r) + unat (fi_hsub info) - 1) div unat (fi_hsub info)"
    by (rule div_le_mono)
  with n(2) plane(1) show "2 ^ 29 \<le> plane_size (cmd_width r) (fi_hsub info) i" by (simp add: plane_size_def)
qed

definition fb_wrap :: drm_mode_fb_cmd2 where
  "fb_wrap = \<lparr>fb_id = 0, cmd_width = 0xffffffff, cmd_height = 1, pixel_format = DRM_FORMAT_NV12, cmd_flags = 0,
     handles = [1, 1, 0, 0], pitches = [0xffffffff, 64, 0, 0], offsets = [0, 0, 0, 0], modifier = [0, 0, 0, 0]\<rparr>"

theorem framebuffer_check_wraps_witness:
  "framebuffer_check None (fb_wrap\<lparr>pitches := [0xffffffff, 0, 0, 0]\<rparr>) = Some (Inr ()) \<and>
    plane_size (cmd_width fb_wrap) 2 1 = 2 ^ 31"
proof -
  let ?info = "fmt DRM_FORMAT_NV12 0 2 [1, 2, 0] 2 2"
  have be: "DRM_FORMAT_NV12 AND NOT DRM_FORMAT_BIG_ENDIAN = DRM_FORMAT_NV12"
    by (simp add: fourcc_values DRM_FORMAT_BIG_ENDIAN_def)
  have i: "drm_get_format_info None fb_wrap = Some ?info"
    by (simp add: drm_get_format_info_def fb_wrap_def fb_example(1))
  have u: "[0..<2] = [0, 1 :: nat]" "[2..<4] = [2, 3 :: nat]" by (simp_all add: upt_rec)
  have d: "DIV_ROUND_UP 0xffffffff 2 = 0" "DIV_ROUND_UP 1 2 = 1"
    by (simp_all add: DIV_ROUND_UP_def s32_div_def signed_divide_int_def)
  have "framebuffer_check None fb_wrap = Some (Inr ())"
    by (simp add: framebuffer_check_def i) (simp add: fb_wrap_def be fb_example(1) u fb_check_plane_def fb_check_unused_def
        fb_plane_width_def fb_plane_height_def d DRM_FORMAT_MOD_SAMSUNG_64_32_TILE_def)
  from framebuffer_check_wraps [OF this i, of 1] show ?thesis
    by (simp add: fb_wrap_def plane_size_def)
qed

text \<open>
  C34. \<^verbatim>\<open>framebuffer_check\<close> looks a format up without its endianness bit, and then again with it. For a supported
  format with that bit set the second lookup finds nothing, and unless the driver brings its own
  format information the null pointer is dereferenced: without such a driver the check crashes exactly
  on these requests, and on no other.
\<close>

theorem framebuffer_check_crash:
  "framebuffer_check None r = None \<longleftrightarrow>
     drm_format_info_lookup (pixel_format r AND NOT DRM_FORMAT_BIG_ENDIAN) \<noteq> None \<and> bit (pixel_format r) 31 \<and>
     cmd_width r \<noteq> 0 \<and> cmd_height r \<noteq> 0"
proof -
  let ?f = "pixel_format r"
  have be: "drm_format_info_lookup ?f = None" if "bit ?f 31"
    using that drm_formats_little_endian by (cases "drm_format_info_lookup ?f") (auto simp: format_info_iff)
  have le: "?f AND NOT DRM_FORMAT_BIG_ENDIAN = ?f" if "\<not> bit ?f 31"
    using that by (intro bit_word_eqI) (auto simp: bit_big_endian bit_simps)
  have wf: "\<not> 3 < unat (fi_num_planes info)" if "drm_format_info_lookup ?f = Some info" for info
    using format_info_wf [OF that] by (auto simp: info_wf_def)
  show ?thesis
  proof (cases "bit ?f 31")
    case True
    with be show ?thesis by (simp add: framebuffer_check_def drm_get_format_info_def)
  next
    case False
    with le wf show ?thesis
      by (auto simp: framebuffer_check_def drm_get_format_info_def Let_def split: option.split sum.split)
  qed
qed

text \<open>
  The format for a legacy request is always one of the table, with a single plane. For 8, 16, 24 and
  32 bits per pixel it has that many bits, and where a colour depth is possible for that size it has that depth.
\<close>

theorem legacy_format_supported:
  "\<exists>info. drm_format_info_lookup (drm_mode_legacy_fb_format bpp depth) = Some info \<and> fi_num_planes info = 1 \<and>
    (bpp \<in> {8, 16, 24, 32} \<longrightarrow> 8 * unat (fi_cpp info ! 0) = unat bpp) \<and>
    ((bpp, depth) \<in> {(8, 8), (16, 15), (16, 16), (24, 24), (32, 24), (32, 30), (32, 32)} \<longrightarrow> ucast (fi_depth info) = depth)"
proof -
  have t: "drm_format_info_lookup DRM_FORMAT_C8 = Some (fmt DRM_FORMAT_C8 8 1 [1, 0, 0] 1 1)"
    "drm_format_info_lookup DRM_FORMAT_XRGB1555 = Some (fmt DRM_FORMAT_XRGB1555 15 1 [2, 0, 0] 1 1)"
    "drm_format_info_lookup DRM_FORMAT_RGB565 = Some (fmt DRM_FORMAT_RGB565 16 1 [2, 0, 0] 1 1)"
    "drm_format_info_lookup DRM_FORMAT_RGB888 = Some (fmt DRM_FORMAT_RGB888 24 1 [3, 0, 0] 1 1)"
    "drm_format_info_lookup DRM_FORMAT_XRGB8888 = Some (fmt DRM_FORMAT_XRGB8888 24 1 [4, 0, 0] 1 1)"
    "drm_format_info_lookup DRM_FORMAT_XRGB2101010 = Some (fmt DRM_FORMAT_XRGB2101010 30 1 [4, 0, 0] 1 1)"
    "drm_format_info_lookup DRM_FORMAT_ARGB8888 = Some (fmt DRM_FORMAT_ARGB8888 32 1 [4, 0, 0] 1 1)"
    by (simp_all add: format_info_iff) (simp_all add: drm_formats_def)
  show ?thesis by (auto simp: drm_mode_legacy_fb_format_def t)
qed

theorem legacy_format_supported_witness:
  "\<exists>info. drm_format_info_lookup (drm_mode_legacy_fb_format 32 30) = Some info \<and> fi_depth info = 30"
  using legacy_format_supported [of 32 30] by (auto simp: word_unat_eq_iff unat_ucast_up)

text \<open>
  \<^verbatim>\<open>drm_framebuffer_check_src_coords\<close> only accepts a source rectangle, in 16.16 fixed point, that lies inside of
  the framebuffer, whatever the numbers are; and for a framebuffer of less than 65536 pixels in each
  direction it accepts every such rectangle. The only error is \<^verbatim>\<open>-ENOSPC\<close>.
\<close>

theorem check_src_coords_inside:
  defines "inside \<equiv> \<lambda>x y w h fb. unat x + unat w \<le> unat (fb_width fb) * 2 ^ 16 \<and>
      unat y + unat h \<le> unat (fb_height fb) * 2 ^ 16"
  shows "(drm_framebuffer_check_src_coords x y w h fb = Inr () \<longrightarrow> inside x y w h fb) \<and>
    (drm_framebuffer_check_src_coords x y w h fb \<noteq> Inr () \<longrightarrow>
       drm_framebuffer_check_src_coords x y w h fb = Inl ENOSPC) \<and>
    (fb_width fb < 65536 \<and> fb_height fb < 65536 \<longrightarrow>
       (drm_framebuffer_check_src_coords x y w h fb = Inr ()) = inside x y w h fb)"
proof -
  have d1: "\<not> a > n \<and> \<not> b > n - a \<longleftrightarrow> unat b + unat a \<le> unat n" for a b n :: u32
    by (auto simp: word_less_nat_alt not_less unat_sub word_le_nat_alt)
  have s: "unat (push_bit 16 n) = unat n * 2 ^ 16 mod 2 ^ 32" for n :: u32
    by (simp add: push_bit_eq_mult unat_word_ariths)
  have s16: "unat (push_bit 16 n) = unat n * 2 ^ 16" if "n < 65536" for n :: u32
    using that by (simp add: s word_less_nat_alt)
  have le: "unat (push_bit 16 n) \<le> unat n * 2 ^ 16" for n :: u32 unfolding s by (rule mod_less_eq_dividend)
  have c: "drm_framebuffer_check_src_coords x y w h fb =
      (if unat x + unat w \<le> unat (push_bit 16 (fb_width fb)) \<and> unat y + unat h \<le> unat (push_bit 16 (fb_height fb))
       then Inr () else Inl ENOSPC)"
    unfolding drm_framebuffer_check_src_coords_def Let_def d1 [symmetric] by auto
  show ?thesis unfolding c inside_def using le [of "fb_width fb"] le [of "fb_height fb"] s16 by auto
qed

theorem check_src_coords_inside_witness:
  "drm_framebuffer_check_src_coords 0x10000 0 0x640000 0x100000
     \<lparr>fb_base_id = 1, fb_width = 101, fb_height = 16, fb_format = fmt DRM_FORMAT_NV12 0 2 [1, 2, 0] 2 2\<rparr> = Inr ()"
  using check_src_coords_inside [where x = "0x10000" and y = 0 and w = "0x640000" and h = "0x100000" and fb =
      "\<lparr>fb_base_id = 1, fb_width = 101, fb_height = 16, fb_format = fmt DRM_FORMAT_NV12 0 2 [1, 2, 0] 2 2\<rparr>"]
  by simp

end
