(* ===== verification/Modes.thy ===== *)
theory Modes
  imports Prelude Rect "HOL-Library.Monad_Syntax"
begin

text \<open>
  Display modes (\<^verbatim>\<open>drm_modes.c\<close>, \<^verbatim>\<open>drm_modes.h\<close>): the timings of a mode, the timing formulas CVT and GTF, the
  comparison and the lists of modes of a connector, the exchange with user space and the parser of
  mode options on the kernel command line. A C \<^verbatim>\<open>int\<close> is a word that is read with \<open>sint\<close>, an
  \<^verbatim>\<open>unsigned int\<close> is read with \<open>unat\<close>; an operation with one unsigned operand is unsigned. A division by zero
  is \<open>None\<close>. An array of characters is the list of its bytes.
\<close>

unbundle bit_operations_syntax

section \<open>C arithmetic and strings\<close>

definition s32_mod :: "s32 \<Rightarrow> s32 \<Rightarrow> s32" where
  "s32_mod a b = a - s32_div a b * b"

definition u32_div :: "u32 \<Rightarrow> u32 \<Rightarrow> u32 option" where
  "u32_div a b = (if b = 0 then None else Some (a div b))"

definition NUL :: char where "NUL = CHR 0x00"

text \<open>The bytes that \<^verbatim>\<open>strncpy (dst, src, n)\<close> writes.\<close>

definition strncpy :: "string \<Rightarrow> nat \<Rightarrow> string" where
  "strncpy src n = (let s = takeWhile (\<lambda>c. c \<noteq> NUL) (take n src) in s @ replicate (n - length s) NUL)"

text \<open>\<^verbatim>\<open>snprintf (buf, length buf, ...)\<close> where \<open>s\<close> is the formatted text.\<close>

definition snprintf :: "string \<Rightarrow> string \<Rightarrow> string" where
  "snprintf buf s =
     (let t = take (length buf - 1) s in if buf = [] then [] else t @ NUL # drop (Suc (length t)) buf)"

definition digit_char :: "nat \<Rightarrow> char" where
  "digit_char d = char_of (48 + d)"

fun dec_nat :: "nat \<Rightarrow> string" where
  "dec_nat n = (if n < 10 then [digit_char n] else dec_nat (n div 10) @ [digit_char (n mod 10)])"

declare dec_nat.simps [simp del]

definition dec_int :: "int \<Rightarrow> string" where
  "dec_int k = (if k < 0 then CHR ''-'' # dec_nat (nat (- k)) else dec_nat (nat k))"

section \<open>Constants\<close>

definition DRM_DISPLAY_MODE_LEN :: nat where "DRM_DISPLAY_MODE_LEN = 32"

definition DRM_MODE_TYPE_BUILTIN :: u32 where "DRM_MODE_TYPE_BUILTIN = 1"
definition DRM_MODE_TYPE_CRTC_C :: u32 where "DRM_MODE_TYPE_CRTC_C = 5"
definition DRM_MODE_TYPE_PREFERRED :: u32 where "DRM_MODE_TYPE_PREFERRED = 8"
definition DRM_MODE_TYPE_USERDEF :: u32 where "DRM_MODE_TYPE_USERDEF = 32"

definition DRM_MODE_FLAG_PHSYNC :: u32 where "DRM_MODE_FLAG_PHSYNC = 1"
definition DRM_MODE_FLAG_NHSYNC :: u32 where "DRM_MODE_FLAG_NHSYNC = 2"
definition DRM_MODE_FLAG_PVSYNC :: u32 where "DRM_MODE_FLAG_PVSYNC = 4"
definition DRM_MODE_FLAG_NVSYNC :: u32 where "DRM_MODE_FLAG_NVSYNC = 8"
definition DRM_MODE_FLAG_INTERLACE :: u32 where "DRM_MODE_FLAG_INTERLACE = 0x10"
definition DRM_MODE_FLAG_DBLSCAN :: u32 where "DRM_MODE_FLAG_DBLSCAN = 0x20"
definition DRM_MODE_FLAG_DBLCLK :: u32 where "DRM_MODE_FLAG_DBLCLK = 0x1000"
definition DRM_MODE_FLAG_3D_MASK :: u32 where "DRM_MODE_FLAG_3D_MASK = 0x7c000"
definition DRM_MODE_FLAG_3D_FRAME_PACKING :: u32 where "DRM_MODE_FLAG_3D_FRAME_PACKING = 0x4000"
definition DRM_MODE_FLAG_3D_MAX :: u32 where "DRM_MODE_FLAG_3D_MAX = 0x20000"

definition CRTC_INTERLACE_HALVE_V :: u32 where "CRTC_INTERLACE_HALVE_V = 1"
definition CRTC_STEREO_DOUBLE :: u32 where "CRTC_STEREO_DOUBLE = 2"
definition CRTC_NO_DBLSCAN :: u32 where "CRTC_NO_DBLSCAN = 4"
definition CRTC_NO_VSCAN :: u32 where "CRTC_NO_VSCAN = 8"
definition CRTC_STEREO_DOUBLE_ONLY :: u32 where
  "CRTC_STEREO_DOUBLE_ONLY = CRTC_STEREO_DOUBLE OR CRTC_NO_DBLSCAN OR CRTC_NO_VSCAN"

lemmas mode_consts = DRM_DISPLAY_MODE_LEN_def DRM_MODE_TYPE_BUILTIN_def DRM_MODE_TYPE_CRTC_C_def
  DRM_MODE_TYPE_PREFERRED_def DRM_MODE_TYPE_USERDEF_def DRM_MODE_FLAG_PHSYNC_def DRM_MODE_FLAG_NHSYNC_def
  DRM_MODE_FLAG_PVSYNC_def DRM_MODE_FLAG_NVSYNC_def DRM_MODE_FLAG_INTERLACE_def DRM_MODE_FLAG_DBLSCAN_def
  DRM_MODE_FLAG_DBLCLK_def DRM_MODE_FLAG_3D_MASK_def DRM_MODE_FLAG_3D_FRAME_PACKING_def
  DRM_MODE_FLAG_3D_MAX_def CRTC_INTERLACE_HALVE_V_def CRTC_STEREO_DOUBLE_def CRTC_NO_DBLSCAN_def
  CRTC_NO_VSCAN_def CRTC_STEREO_DOUBLE_ONLY_def

section \<open>Modes\<close>

datatype drm_mode_status =
  MODE_OK | MODE_HSYNC | MODE_VSYNC | MODE_H_ILLEGAL | MODE_V_ILLEGAL | MODE_BAD_WIDTH | MODE_NOMODE
| MODE_NO_INTERLACE | MODE_NO_DBLESCAN | MODE_NO_VSCAN | MODE_MEM | MODE_VIRTUAL_X | MODE_VIRTUAL_Y
| MODE_MEM_VIRT | MODE_NOCLOCK | MODE_CLOCK_HIGH | MODE_CLOCK_LOW | MODE_CLOCK_RANGE | MODE_BAD_HVALUE
| MODE_BAD_VVALUE | MODE_BAD_VSCAN | MODE_HSYNC_NARROW | MODE_HSYNC_WIDE | MODE_HBLANK_NARROW
| MODE_HBLANK_WIDE | MODE_VSYNC_NARROW | MODE_VSYNC_WIDE | MODE_VBLANK_NARROW | MODE_VBLANK_WIDE
| MODE_PANEL | MODE_INTERLACE_WIDTH | MODE_ONE_WIDTH | MODE_ONE_HEIGHT | MODE_ONE_SIZE | MODE_NO_REDUCED
| MODE_NO_STEREO | MODE_NO_420 | MODE_STALE | MODE_BAD | MODE_ERROR

text \<open>The members \<^verbatim>\<open>crtc_*\<close> of a mode, the timings as the hardware is programmed.\<close>

record drm_crtc_timing =
  crtc_clock :: s32
  crtc_hdisplay :: s32
  crtc_hblank_start :: s32
  crtc_hblank_end :: s32
  crtc_hsync_start :: s32
  crtc_hsync_end :: s32
  crtc_htotal :: s32
  crtc_hskew :: s32
  crtc_vdisplay :: s32
  crtc_vblank_start :: s32
  crtc_vblank_end :: s32
  crtc_vsync_start :: s32
  crtc_vsync_end :: s32
  crtc_vtotal :: s32

text \<open>
  The list head of a mode is its place in a HOL list; \<open>mode_id\<close> is the identifier in \<^verbatim>\<open>base\<close>.
\<close>

record drm_display_mode =
  mode_id :: u32
  mode_name :: string
  mode_status :: drm_mode_status
  mode_type :: u32
  mode_clock :: s32
  hdisplay :: s32
  hsync_start :: s32
  hsync_end :: s32
  htotal :: s32
  hskew :: s32
  vdisplay :: s32
  vsync_start :: s32
  vsync_end :: s32
  vtotal :: s32
  vscan :: s32
  mode_flags :: u32
  width_mm :: s32
  height_mm :: s32
  mode_crtc :: drm_crtc_timing
  mode_private :: u64
  private_flags :: s32
  mode_vrefresh :: s32
  mode_hsync :: s32
  picture_aspect_ratio :: u32

definition drm_mode_is_stereo :: "drm_display_mode \<Rightarrow> bool" where
  "drm_mode_is_stereo mode \<longleftrightarrow> mode_flags mode AND DRM_MODE_FLAG_3D_MASK \<noteq> 0"

definition crtc_timing_zero :: drm_crtc_timing where
  "crtc_timing_zero = \<lparr>crtc_clock = 0, crtc_hdisplay = 0, crtc_hblank_start = 0, crtc_hblank_end = 0,
     crtc_hsync_start = 0, crtc_hsync_end = 0, crtc_htotal = 0, crtc_hskew = 0, crtc_vdisplay = 0,
     crtc_vblank_start = 0, crtc_vblank_end = 0, crtc_vsync_start = 0, crtc_vsync_end = 0, crtc_vtotal = 0\<rparr>"

definition drm_mode_zero :: "u32 \<Rightarrow> drm_display_mode" where
  "drm_mode_zero new_id = \<lparr>mode_id = new_id, mode_name = replicate DRM_DISPLAY_MODE_LEN NUL, mode_status = MODE_OK,
     mode_type = 0, mode_clock = 0, hdisplay = 0, hsync_start = 0, hsync_end = 0, htotal = 0, hskew = 0,
     vdisplay = 0, vsync_start = 0, vsync_end = 0, vtotal = 0, vscan = 0, mode_flags = 0, width_mm = 0,
     height_mm = 0, mode_crtc = crtc_timing_zero, mode_private = 0, private_flags = 0, mode_vrefresh = 0,
     mode_hsync = 0, picture_aspect_ratio = 0\<rparr>"

text \<open>
  The result of the allocation is the argument: the identifier that the registry of mode objects
  gives to the new mode, or \<open>None\<close> if there is no memory or no identifier.
\<close>

definition drm_mode_create :: "u32 option \<Rightarrow> drm_display_mode option" where
  "drm_mode_create alloc = map_option drm_mode_zero alloc"

text \<open>Only the interlace flag at the time of the call is part of the name.\<close>

definition drm_mode_set_name :: "drm_display_mode \<Rightarrow> drm_display_mode" where
  "drm_mode_set_name mode =
     (let interlaced = mode_flags mode AND DRM_MODE_FLAG_INTERLACE \<noteq> 0
      in mode\<lparr>mode_name := snprintf (mode_name mode)
           (dec_int (sint (hdisplay mode)) @ ''x'' @ dec_int (sint (vdisplay mode)) @ (if interlaced then ''i'' else ''''))\<rparr>)"

section \<open>Coordinated video timings\<close>

text \<open>The active pixels of a line with the borders, and the height of one border.\<close>

definition cvt_active_pixels :: "s32 \<Rightarrow> bool \<Rightarrow> s32" where
  "cvt_active_pixels hdisp margins =
     (let hdisplay_rnd = hdisp - s32_mod hdisp 8;
          hmargin = 0;
          hmargin = (if margins
                     then let hmargin = s32_div (hdisplay_rnd * 18) 1000 in hmargin - s32_mod hmargin 8
                     else hmargin)
      in hdisplay_rnd + 2 * hmargin)"

definition cvt_border_lines :: "s32 \<Rightarrow> bool \<Rightarrow> s32" where
  "cvt_border_lines vdisplay_rnd margins = (if margins then s32_div (vdisplay_rnd * 18) 1000 else 0)"

text \<open>The width of the vertical sync pulse depends on the aspect ratio.\<close>

definition cvt_vsync :: "s32 \<Rightarrow> s32 \<Rightarrow> s32" where
  "cvt_vsync hdisp vdisp =
     (if s32_mod vdisp 3 = 0 \<and> s32_div (vdisp * 4) 3 = hdisp then 4
      else if s32_mod vdisp 9 = 0 \<and> s32_div (vdisp * 16) 9 = hdisp then 5
      else if s32_mod vdisp 10 = 0 \<and> s32_div (vdisp * 16) 10 = hdisp then 6
      else if s32_mod vdisp 4 = 0 \<and> s32_div (vdisp * 5) 4 = hdisp then 7
      else if s32_mod vdisp 9 = 0 \<and> s32_div (vdisp * 15) 9 = hdisp then 7
      else 10)"

text \<open>
  The two ways to compute the blanking. Both get the mode with its active size and the number of
  active lines of a field, and return the mode and the horizontal period.
\<close>

definition cvt_blanking :: "drm_display_mode \<Rightarrow> s32 \<Rightarrow> u32 \<Rightarrow> s32 \<Rightarrow> s32 \<Rightarrow> (drm_display_mode \<times> u32) option" where
  "cvt_blanking mode lines vfieldrate interlace vsync =
     do { let tmp1 = 1000 * 1000000 - 550 * 1000 * vfieldrate;
          let tmp2 = (lines + 3) * 2 + interlace;
          hperiod \<leftarrow> u32_div (tmp1 * 2) (tmp2 * vfieldrate);
          q \<leftarrow> u32_div (550 * 1000) hperiod;
          let tmp1 = q + 1;
          let vsyncandback_porch = (if sint tmp1 < sint (vsync + 3) then vsync + 3 else tmp1);
          let mode = mode\<lparr>vtotal := lines + vsyncandback_porch + 3\<rparr>;
          let hblank_percentage = 30 * 1000 - 300 * hperiod div 1000;
          let hblank_percentage = (if hblank_percentage < 20 * 1000 then 20 * 1000 else hblank_percentage);
          hblank \<leftarrow> u32_div (hdisplay mode * hblank_percentage) (100 * 1000 - hblank_percentage);
          let hblank = hblank - s32_mod hblank 16;
          let mode = mode\<lparr>htotal := hdisplay mode + hblank\<rparr>;
          let mode = mode\<lparr>hsync_end := hdisplay mode + s32_div hblank 2\<rparr>;
          let mode = mode\<lparr>hsync_start := hsync_end mode - s32_div (htotal mode * 8) 100\<rparr>;
          let mode = mode\<lparr>hsync_start := hsync_start mode + (8 - s32_mod (hsync_start mode) 8)\<rparr>;
          let mode = mode\<lparr>vsync_start := vdisplay mode + 3\<rparr>;
          let mode = mode\<lparr>vsync_end := vsync_start mode + vsync\<rparr>;
          Some (mode, hperiod) }"

definition cvt_reduced_blanking :: "drm_display_mode \<Rightarrow> s32 \<Rightarrow> u32 \<Rightarrow> s32 \<Rightarrow> (drm_display_mode \<times> u32) option" where
  "cvt_reduced_blanking mode lines vfieldrate vsync =
     do { let tmp1 = 1000 * 1000000 - 460 * 1000 * vfieldrate;
          hperiod \<leftarrow> u32_div tmp1 (lines * vfieldrate);
          q \<leftarrow> u32_div (460 * 1000) hperiod;
          let vbilines = q + 1;
          let vbilines = (if sint vbilines < sint (3 + vsync + 6) then 3 + vsync + 6 else vbilines);
          let mode = mode\<lparr>vtotal := lines + vbilines\<rparr>;
          let mode = mode\<lparr>htotal := hdisplay mode + 160\<rparr>;
          let mode = mode\<lparr>hsync_end := hdisplay mode + 160 div 2\<rparr>;
          let mode = mode\<lparr>hsync_start := hsync_end mode - 32\<rparr>;
          let mode = mode\<lparr>vsync_start := vdisplay mode + 3\<rparr>;
          let mode = mode\<lparr>vsync_end := vsync_start mode + vsync\<rparr>;
          Some (mode, hperiod) }"

text \<open>
  The clock is computed in 64 bits. What is subtracted from it is the remainder of the clock that
  the mode has so far, which is zero.
\<close>

definition cvt_finish :: "drm_display_mode \<Rightarrow> u32 \<Rightarrow> bool \<Rightarrow> bool \<Rightarrow> drm_display_mode" where
  "cvt_finish mode hperiod reduced interlaced =
     (let tmp = (scast (htotal mode) :: u64) * (1000 * 1000);
          tmp = tmp div ucast hperiod;
          tmp = tmp - scast (s32_mod (mode_clock mode) 250);
          mode = mode\<lparr>mode_clock := ucast tmp\<rparr>;
          mode = (if interlaced
                  then mode\<lparr>vtotal := vtotal mode * 2, mode_flags := mode_flags mode OR DRM_MODE_FLAG_INTERLACE\<rparr>
                  else mode);
          mode = drm_mode_set_name mode
      in if reduced then mode\<lparr>mode_flags := mode_flags mode OR (DRM_MODE_FLAG_PHSYNC OR DRM_MODE_FLAG_NVSYNC)\<rparr>
         else mode\<lparr>mode_flags := mode_flags mode OR (DRM_MODE_FLAG_PVSYNC OR DRM_MODE_FLAG_NHSYNC)\<rparr>)"

text \<open>\<open>None\<close> is a division by zero, \<open>Some None\<close> is a null pointer.\<close>

definition drm_cvt_mode :: "u32 option \<Rightarrow> s32 \<Rightarrow> s32 \<Rightarrow> s32 \<Rightarrow> bool \<Rightarrow> bool \<Rightarrow> bool \<Rightarrow> drm_display_mode option option" where
  "drm_cvt_mode alloc hdisp vdisp vrefr reduced interlaced margins =
     (case drm_mode_create alloc of None \<Rightarrow> Some None
      | Some mode \<Rightarrow>
          let vrefr = (if vrefr = 0 then 60 else vrefr);
              vfieldrate = (if interlaced then vrefr * 2 else vrefr);
              mode = mode\<lparr>hdisplay := cvt_active_pixels hdisp margins\<rparr>;
              vdisplay_rnd = (if interlaced then s32_div vdisp 2 else vdisp);
              vmargin = cvt_border_lines vdisplay_rnd margins;
              mode = mode\<lparr>vdisplay := vdisp + 2 * vmargin\<rparr>;
              interlace = (if interlaced then 1 else 0);
              vsync = cvt_vsync hdisp vdisp
          in do { (mode, hperiod) \<leftarrow>
                    (if \<not> reduced then cvt_blanking mode (vdisplay_rnd + 2 * vmargin) vfieldrate interlace vsync
                     else cvt_reduced_blanking mode (vdisplay_rnd + 2 * vmargin) vfieldrate vsync);
                  Some (Some (cvt_finish mode hperiod reduced interlaced)) })"

section \<open>The generalized timing formula\<close>

text \<open>The ideal blanking duty cycle, with the macros \<^verbatim>\<open>GTF_C_PRIME\<close> and \<^verbatim>\<open>GTF_M_PRIME\<close>.\<close>

definition gtf_duty_cycle :: "s32 \<Rightarrow> s32 \<Rightarrow> s32 \<Rightarrow> s32 \<Rightarrow> u32 \<Rightarrow> u32 option" where
  "gtf_duty_cycle GTF_M GTF_2C GTF_K GTF_2J hfreq_est =
     do { let c_prime = s32_div (s32_div ((GTF_2C - GTF_2J) * GTF_K) 256 + GTF_2J) 2;
          let m_prime = s32_div (GTF_K * GTF_M) 256;
          q \<leftarrow> u32_div (m_prime * 1000000) hfreq_est;
          Some (c_prime * 1000 - q) }"

text \<open>Packing of the results; \<open>standard\<close> tells whether the parameters are the standard ones.\<close>

definition gtf_pack :: "drm_display_mode \<Rightarrow> u32 \<Rightarrow> s32 \<Rightarrow> s32 \<Rightarrow> u32 \<Rightarrow> u32 \<Rightarrow> u32 \<Rightarrow> u32 \<Rightarrow> bool \<Rightarrow> bool \<Rightarrow> drm_display_mode" where
  "gtf_pack mode hdisplay_rnd hfront hsync total_pixels vdisplay_rnd vtotal_lines pixel_freq interlaced standard =
     (let vodd_front_porch_lines = 1;
          mode = mode\<lparr>hdisplay := hdisplay_rnd, hsync_start := hdisplay_rnd + hfront\<rparr>;
          mode = mode\<lparr>hsync_end := hsync_start mode + hsync, htotal := total_pixels,
                      vdisplay := vdisplay_rnd, vsync_start := vdisplay_rnd + vodd_front_porch_lines\<rparr>;
          mode = mode\<lparr>vsync_end := vsync_start mode + 3, vtotal := vtotal_lines, mode_clock := pixel_freq\<rparr>;
          mode = (if interlaced
                  then mode\<lparr>vtotal := vtotal mode * 2, mode_flags := mode_flags mode OR DRM_MODE_FLAG_INTERLACE\<rparr>
                  else mode);
          mode = drm_mode_set_name mode
      in if standard then mode\<lparr>mode_flags := DRM_MODE_FLAG_NHSYNC OR DRM_MODE_FLAG_PVSYNC\<rparr>
         else mode\<lparr>mode_flags := DRM_MODE_FLAG_PHSYNC OR DRM_MODE_FLAG_NVSYNC\<rparr>)"

definition drm_gtf_mode_complex ::
  "u32 option \<Rightarrow> s32 \<Rightarrow> s32 \<Rightarrow> s32 \<Rightarrow> bool \<Rightarrow> bool \<Rightarrow> s32 \<Rightarrow> s32 \<Rightarrow> s32 \<Rightarrow> s32 \<Rightarrow> drm_display_mode option option" where
  "drm_gtf_mode_complex alloc hdisp vdisp vrefr interlaced margins GTF_M GTF_2C GTF_K GTF_2J =
     (case drm_mode_create alloc of None \<Rightarrow> Some None
      | Some mode \<Rightarrow>
          do { let hdisplay_rnd = s32_div (hdisp + 4) 8 * 8;
               let vdisplay_rnd = (if interlaced then s32_div vdisp 2 else vdisp);
               let vfieldrate_rqd = (if interlaced then vrefr * 2 else vrefr);
               let top_margin = (if margins then (vdisplay_rnd * 18 + 500) div 1000 else 0);
               let bottom_margin = top_margin;
               let interlace = (if interlaced then 1 else 0);
               let tmp1 = (1000000 - 550 * vfieldrate_rqd) div 500;
               let tmp2 = (vdisplay_rnd + 2 * top_margin + 1) * 2 + interlace;
               hfreq_est \<leftarrow> u32_div (tmp2 * 1000 * vfieldrate_rqd) tmp1;
               let vsync_plus_bp = 550 * hfreq_est div 1000;
               let vsync_plus_bp = s32_div (vsync_plus_bp + 500) 1000;
               let vtotal_lines = vdisplay_rnd + top_margin + bottom_margin + vsync_plus_bp + 1;
               vfieldrate_est \<leftarrow> u32_div hfreq_est vtotal_lines;
               hperiod \<leftarrow> u32_div 1000000 (vfieldrate_rqd * vtotal_lines);
               let left_margin = (if margins then (hdisplay_rnd * 18 + 500) div 1000 else 0);
               let right_margin = left_margin;
               let total_active_pixels = hdisplay_rnd + left_margin + right_margin;
               ideal_duty_cycle \<leftarrow> gtf_duty_cycle GTF_M GTF_2C GTF_K GTF_2J hfreq_est;
               hblank \<leftarrow> u32_div (total_active_pixels * ideal_duty_cycle) (100000 - ideal_duty_cycle);
               let hblank = (hblank + 8) div (2 * 8);
               let hblank = hblank * 2 * 8;
               let total_pixels = total_active_pixels + hblank;
               let pixel_freq = total_pixels * hfreq_est div 1000;
               let hsync = 8 * total_pixels div 100;
               let hsync = s32_div (hsync + 4) 8;
               let hsync = hsync * 8;
               let hfront = hblank div 2 - hsync;
               Some (Some (gtf_pack mode hdisplay_rnd hfront hsync total_pixels vdisplay_rnd vtotal_lines pixel_freq
                 interlaced (GTF_M = 600 \<and> GTF_2C = 80 \<and> GTF_K = 128 \<and> GTF_2J = 40))) })"

definition drm_gtf_mode :: "u32 option \<Rightarrow> s32 \<Rightarrow> s32 \<Rightarrow> s32 \<Rightarrow> bool \<Rightarrow> bool \<Rightarrow> drm_display_mode option option" where
  "drm_gtf_mode alloc hdisp vdisp vrefr interlaced margins =
     drm_gtf_mode_complex alloc hdisp vdisp vrefr interlaced margins 600 (40 * 2) 128 (20 * 2)"

section \<open>Conversion from and to video modes\<close>

definition DISPLAY_FLAGS_HSYNC_LOW :: u32 where "DISPLAY_FLAGS_HSYNC_LOW = 1"
definition DISPLAY_FLAGS_HSYNC_HIGH :: u32 where "DISPLAY_FLAGS_HSYNC_HIGH = 2"
definition DISPLAY_FLAGS_VSYNC_LOW :: u32 where "DISPLAY_FLAGS_VSYNC_LOW = 4"
definition DISPLAY_FLAGS_VSYNC_HIGH :: u32 where "DISPLAY_FLAGS_VSYNC_HIGH = 8"
definition DISPLAY_FLAGS_DE_LOW :: u32 where "DISPLAY_FLAGS_DE_LOW = 0x10"
definition DISPLAY_FLAGS_DE_HIGH :: u32 where "DISPLAY_FLAGS_DE_HIGH = 0x20"
definition DISPLAY_FLAGS_PIXDATA_POSEDGE :: u32 where "DISPLAY_FLAGS_PIXDATA_POSEDGE = 0x40"
definition DISPLAY_FLAGS_PIXDATA_NEGEDGE :: u32 where "DISPLAY_FLAGS_PIXDATA_NEGEDGE = 0x80"
definition DISPLAY_FLAGS_INTERLACED :: u32 where "DISPLAY_FLAGS_INTERLACED = 0x100"
definition DISPLAY_FLAGS_DOUBLESCAN :: u32 where "DISPLAY_FLAGS_DOUBLESCAN = 0x200"
definition DISPLAY_FLAGS_DOUBLECLK :: u32 where "DISPLAY_FLAGS_DOUBLECLK = 0x400"

lemmas display_flags = DISPLAY_FLAGS_HSYNC_LOW_def DISPLAY_FLAGS_HSYNC_HIGH_def DISPLAY_FLAGS_VSYNC_LOW_def
  DISPLAY_FLAGS_VSYNC_HIGH_def DISPLAY_FLAGS_DE_LOW_def DISPLAY_FLAGS_DE_HIGH_def
  DISPLAY_FLAGS_PIXDATA_POSEDGE_def DISPLAY_FLAGS_PIXDATA_NEGEDGE_def DISPLAY_FLAGS_INTERLACED_def
  DISPLAY_FLAGS_DOUBLESCAN_def DISPLAY_FLAGS_DOUBLECLK_def

record videomode =
  pixelclock :: u64
  hactive :: u32
  hfront_porch :: u32
  hback_porch :: u32
  hsync_len :: u32
  vactive :: u32
  vfront_porch :: u32
  vback_porch :: u32
  vsync_len :: u32
  vm_flags :: u32

definition drm_display_mode_from_videomode :: "videomode \<Rightarrow> drm_display_mode \<Rightarrow> drm_display_mode" where
  "drm_display_mode_from_videomode vm dmode =
     (let has = (\<lambda>f. vm_flags vm AND f \<noteq> 0);
          dmode = dmode\<lparr>hdisplay := hactive vm\<rparr>;
          dmode = dmode\<lparr>hsync_start := hdisplay dmode + hfront_porch vm\<rparr>;
          dmode = dmode\<lparr>hsync_end := hsync_start dmode + hsync_len vm\<rparr>;
          dmode = dmode\<lparr>htotal := hsync_end dmode + hback_porch vm\<rparr>;
          dmode = dmode\<lparr>vdisplay := vactive vm\<rparr>;
          dmode = dmode\<lparr>vsync_start := vdisplay dmode + vfront_porch vm\<rparr>;
          dmode = dmode\<lparr>vsync_end := vsync_start dmode + vsync_len vm\<rparr>;
          dmode = dmode\<lparr>vtotal := vsync_end dmode + vback_porch vm\<rparr>;
          dmode = dmode\<lparr>mode_clock := ucast (pixelclock vm div 1000)\<rparr>;
          fl = (if has DISPLAY_FLAGS_HSYNC_HIGH then DRM_MODE_FLAG_PHSYNC
                else if has DISPLAY_FLAGS_HSYNC_LOW then DRM_MODE_FLAG_NHSYNC else 0);
          fl = (if has DISPLAY_FLAGS_VSYNC_HIGH then fl OR DRM_MODE_FLAG_PVSYNC
                else if has DISPLAY_FLAGS_VSYNC_LOW then fl OR DRM_MODE_FLAG_NVSYNC else fl);
          fl = (if has DISPLAY_FLAGS_INTERLACED then fl OR DRM_MODE_FLAG_INTERLACE else fl);
          fl = (if has DISPLAY_FLAGS_DOUBLESCAN then fl OR DRM_MODE_FLAG_DBLSCAN else fl);
          fl = (if has DISPLAY_FLAGS_DOUBLECLK then fl OR DRM_MODE_FLAG_DBLCLK else fl)
      in drm_mode_set_name (dmode\<lparr>mode_flags := fl\<rparr>))"

text \<open>The clock is multiplied as an \<^verbatim>\<open>int\<close> and then extended to \<^verbatim>\<open>unsigned long\<close>.\<close>

definition drm_display_mode_to_videomode :: "drm_display_mode \<Rightarrow> videomode" where
  "drm_display_mode_to_videomode dmode =
     (let has = (\<lambda>f. mode_flags dmode AND f \<noteq> 0);
          fl = (if has DRM_MODE_FLAG_PHSYNC then DISPLAY_FLAGS_HSYNC_HIGH
                else if has DRM_MODE_FLAG_NHSYNC then DISPLAY_FLAGS_HSYNC_LOW else 0);
          fl = (if has DRM_MODE_FLAG_PVSYNC then fl OR DISPLAY_FLAGS_VSYNC_HIGH
                else if has DRM_MODE_FLAG_NVSYNC then fl OR DISPLAY_FLAGS_VSYNC_LOW else fl);
          fl = (if has DRM_MODE_FLAG_INTERLACE then fl OR DISPLAY_FLAGS_INTERLACED else fl);
          fl = (if has DRM_MODE_FLAG_DBLSCAN then fl OR DISPLAY_FLAGS_DOUBLESCAN else fl);
          fl = (if has DRM_MODE_FLAG_DBLCLK then fl OR DISPLAY_FLAGS_DOUBLECLK else fl)
      in \<lparr>pixelclock = scast (mode_clock dmode * 1000), hactive = hdisplay dmode,
          hfront_porch = hsync_start dmode - hdisplay dmode, hback_porch = htotal dmode - hsync_end dmode,
          hsync_len = hsync_end dmode - hsync_start dmode, vactive = vdisplay dmode,
          vfront_porch = vsync_start dmode - vdisplay dmode, vback_porch = vtotal dmode - vsync_end dmode,
          vsync_len = vsync_end dmode - vsync_start dmode, vm_flags = fl\<rparr>)"

definition drm_bus_flags_from_videomode :: "videomode \<Rightarrow> u32" where
  "drm_bus_flags_from_videomode vm =
     (let has = (\<lambda>f. vm_flags vm AND f \<noteq> 0);
          bus_flags = 0;
          bus_flags = (if has DISPLAY_FLAGS_PIXDATA_POSEDGE then bus_flags OR 4 else bus_flags);
          bus_flags = (if has DISPLAY_FLAGS_PIXDATA_NEGEDGE then bus_flags OR 8 else bus_flags);
          bus_flags = (if has DISPLAY_FLAGS_DE_LOW then bus_flags OR 1 else bus_flags)
      in if has DISPLAY_FLAGS_DE_HIGH then bus_flags OR 2 else bus_flags)"

section \<open>Rates and hardware timings\<close>

definition drm_mode_hsync :: "drm_display_mode \<Rightarrow> s32 option" where
  "drm_mode_hsync mode =
     (if mode_hsync mode \<noteq> 0 then Some (mode_hsync mode)
      else if sint (htotal mode) < 0 then Some 0
      else if htotal mode = 0 then None
      else let calc_val = s32_div (mode_clock mode * 1000) (htotal mode); calc_val = calc_val + 500
           in Some (calc_val div 1000))"

definition drm_mode_vrefresh :: "drm_display_mode \<Rightarrow> s32" where
  "drm_mode_vrefresh mode =
     (if sint (mode_vrefresh mode) > 0 then mode_vrefresh mode
      else if sint (htotal mode) > 0 \<and> sint (vtotal mode) > 0
      then let calc_val = mode_clock mode * 1000;
               calc_val = calc_val div htotal mode;
               refresh = (calc_val + s32_div (vtotal mode) 2) div vtotal mode;
               refresh = (if mode_flags mode AND DRM_MODE_FLAG_INTERLACE \<noteq> 0 then refresh * 2 else refresh);
               refresh = (if mode_flags mode AND DRM_MODE_FLAG_DBLSCAN \<noteq> 0 then s32_div refresh 2 else refresh)
           in if sint (vscan mode) > 1 then s32_div refresh (vscan mode) else refresh
      else 0)"

definition crtc_map_v :: "(s32 \<Rightarrow> s32) \<Rightarrow> drm_crtc_timing \<Rightarrow> drm_crtc_timing" where
  "crtc_map_v f c = c\<lparr>crtc_vdisplay := f (crtc_vdisplay c), crtc_vsync_start := f (crtc_vsync_start c),
     crtc_vsync_end := f (crtc_vsync_end c), crtc_vtotal := f (crtc_vtotal c)\<rparr>"

definition drm_mode_set_crtcinfo :: "drm_display_mode \<Rightarrow> u32 \<Rightarrow> drm_display_mode" where
  "drm_mode_set_crtcinfo p adjust_flags =
     (if mode_type p AND DRM_MODE_TYPE_CRTC_C = DRM_MODE_TYPE_BUILTIN then p
      else
        let c = (mode_crtc p)\<lparr>crtc_clock := mode_clock p, crtc_hdisplay := hdisplay p,
                  crtc_hsync_start := hsync_start p, crtc_hsync_end := hsync_end p, crtc_htotal := htotal p,
                  crtc_hskew := hskew p, crtc_vdisplay := vdisplay p, crtc_vsync_start := vsync_start p,
                  crtc_vsync_end := vsync_end p, crtc_vtotal := vtotal p\<rparr>;
            c = (if mode_flags p AND DRM_MODE_FLAG_INTERLACE \<noteq> 0 \<and> adjust_flags AND CRTC_INTERLACE_HALVE_V \<noteq> 0
                 then crtc_map_v (\<lambda>x. s32_div x 2) c else c);
            c = (if adjust_flags AND CRTC_NO_DBLSCAN = 0 \<and> mode_flags p AND DRM_MODE_FLAG_DBLSCAN \<noteq> 0
                 then crtc_map_v (\<lambda>x. x * 2) c else c);
            c = (if adjust_flags AND CRTC_NO_VSCAN = 0 \<and> sint (vscan p) > 1
                 then crtc_map_v (\<lambda>x. x * vscan p) c else c);
            c = (if adjust_flags AND CRTC_STEREO_DOUBLE \<noteq> 0 \<and>
                    mode_flags p AND DRM_MODE_FLAG_3D_MASK = DRM_MODE_FLAG_3D_FRAME_PACKING
                 then crtc_map_v (\<lambda>x. x + crtc_vtotal c) (c\<lparr>crtc_clock := crtc_clock c * 2\<rparr>) else c);
            c = c\<lparr>crtc_vblank_start := s32_min (crtc_vsync_start c) (crtc_vdisplay c),
                  crtc_vblank_end := s32_max (crtc_vsync_end c) (crtc_vtotal c),
                  crtc_hblank_start := s32_min (crtc_hsync_start c) (crtc_hdisplay c),
                  crtc_hblank_end := s32_max (crtc_hsync_end c) (crtc_htotal c)\<rparr>
        in p\<lparr>mode_crtc := c\<rparr>)"

definition drm_mode_get_hv_timing :: "drm_display_mode \<Rightarrow> s32 \<times> s32" where
  "drm_mode_get_hv_timing mode =
     (let adjusted = drm_mode_set_crtcinfo mode CRTC_STEREO_DOUBLE_ONLY
      in (crtc_hdisplay (mode_crtc adjusted), crtc_vdisplay (mode_crtc adjusted)))"

section \<open>Copying and comparing modes\<close>

definition drm_mode_copy :: "drm_display_mode \<Rightarrow> drm_display_mode \<Rightarrow> drm_display_mode" where
  "drm_mode_copy dst src = src\<lparr>mode_id := mode_id dst\<rparr>"

definition drm_mode_duplicate :: "u32 option \<Rightarrow> drm_display_mode \<Rightarrow> drm_display_mode option" where
  "drm_mode_duplicate alloc mode = map_option (\<lambda>nmode. drm_mode_copy nmode mode) (drm_mode_create alloc)"

text \<open>The clock is sign-extended to \<^verbatim>\<open>unsigned long\<close> before the division.\<close>

definition KHZ2PICOS :: "s32 \<Rightarrow> u64" where
  "KHZ2PICOS a = 1000000000 div scast a"

definition drm_mode_equal_no_clocks_no_stereo :: "drm_display_mode \<Rightarrow> drm_display_mode \<Rightarrow> bool" where
  "drm_mode_equal_no_clocks_no_stereo mode1 mode2 \<longleftrightarrow>
     hdisplay mode1 = hdisplay mode2 \<and> hsync_start mode1 = hsync_start mode2 \<and>
     hsync_end mode1 = hsync_end mode2 \<and> htotal mode1 = htotal mode2 \<and> hskew mode1 = hskew mode2 \<and>
     vdisplay mode1 = vdisplay mode2 \<and> vsync_start mode1 = vsync_start mode2 \<and>
     vsync_end mode1 = vsync_end mode2 \<and> vtotal mode1 = vtotal mode2 \<and> vscan mode1 = vscan mode2 \<and>
     mode_flags mode1 AND NOT DRM_MODE_FLAG_3D_MASK = mode_flags mode2 AND NOT DRM_MODE_FLAG_3D_MASK"

definition drm_mode_equal_no_clocks :: "drm_display_mode \<Rightarrow> drm_display_mode \<Rightarrow> bool" where
  "drm_mode_equal_no_clocks mode1 mode2 \<longleftrightarrow>
     (if mode_flags mode1 AND DRM_MODE_FLAG_3D_MASK \<noteq> mode_flags mode2 AND DRM_MODE_FLAG_3D_MASK then False
      else drm_mode_equal_no_clocks_no_stereo mode1 mode2)"

definition drm_mode_equal :: "drm_display_mode option \<Rightarrow> drm_display_mode option \<Rightarrow> bool" where
  "drm_mode_equal m1 m2 \<longleftrightarrow>
     (case (m1, m2) of
        (None, None) \<Rightarrow> True
      | (Some mode1, Some mode2) \<Rightarrow>
          if mode_clock mode1 \<noteq> 0 \<and> mode_clock mode2 \<noteq> 0
          then if KHZ2PICOS (mode_clock mode1) \<noteq> KHZ2PICOS (mode_clock mode2) then False
               else drm_mode_equal_no_clocks mode1 mode2
          else if mode_clock mode1 \<noteq> mode_clock mode2 then False
          else drm_mode_equal_no_clocks mode1 mode2
      | _ \<Rightarrow> False)"

section \<open>Validation\<close>

definition drm_mode_validate_basic :: "drm_display_mode \<Rightarrow> drm_mode_status" where
  "drm_mode_validate_basic mode =
     (if mode_clock mode = 0 then MODE_CLOCK_LOW
      else if hdisplay mode = 0 \<or> sint (hsync_start mode) < sint (hdisplay mode) \<or>
              sint (hsync_end mode) < sint (hsync_start mode) \<or> sint (htotal mode) < sint (hsync_end mode)
      then MODE_H_ILLEGAL
      else if vdisplay mode = 0 \<or> sint (vsync_start mode) < sint (vdisplay mode) \<or>
              sint (vsync_end mode) < sint (vsync_start mode) \<or> sint (vtotal mode) < sint (vsync_end mode)
      then MODE_V_ILLEGAL
      else MODE_OK)"

definition drm_mode_validate_size :: "drm_display_mode \<Rightarrow> s32 \<Rightarrow> s32 \<Rightarrow> drm_mode_status" where
  "drm_mode_validate_size mode maxX maxY =
     (if sint maxX > 0 \<and> sint (hdisplay mode) > sint maxX then MODE_VIRTUAL_X
      else if sint maxY > 0 \<and> sint (vdisplay mode) > sint maxY then MODE_VIRTUAL_Y
      else MODE_OK)"

text \<open>
  The modes of the CEA standard that need the YCbCr 4:2:0 format are bitmaps over the codes of that
  standard; \<open>match_cea\<close> is \<^verbatim>\<open>drm_match_cea_mode\<close> of the EDID parser.
\<close>

definition drm_mode_validate_ycbcr420 ::
  "(drm_display_mode \<Rightarrow> u8) \<Rightarrow> drm_display_mode \<Rightarrow> (u8 \<Rightarrow> bool) \<Rightarrow> bool \<Rightarrow> drm_mode_status" where
  "drm_mode_validate_ycbcr420 match_cea mode y420_vdb_modes ycbcr_420_allowed =
     (let vic = match_cea mode
      in if y420_vdb_modes vic then if \<not> ycbcr_420_allowed then MODE_NO_420 else MODE_OK else MODE_OK)"

definition drm_mode_is_420_only :: "(drm_display_mode \<Rightarrow> u8) \<Rightarrow> (u8 \<Rightarrow> bool) \<Rightarrow> drm_display_mode \<Rightarrow> bool" where
  "drm_mode_is_420_only match_cea y420_vdb_modes mode = y420_vdb_modes (match_cea mode)"

definition drm_mode_is_420_also :: "(drm_display_mode \<Rightarrow> u8) \<Rightarrow> (u8 \<Rightarrow> bool) \<Rightarrow> drm_display_mode \<Rightarrow> bool" where
  "drm_mode_is_420_also match_cea y420_cmdb_modes mode = y420_cmdb_modes (match_cea mode)"

definition drm_mode_is_420 ::
  "(drm_display_mode \<Rightarrow> u8) \<Rightarrow> (u8 \<Rightarrow> bool) \<Rightarrow> (u8 \<Rightarrow> bool) \<Rightarrow> drm_display_mode \<Rightarrow> bool" where
  "drm_mode_is_420 match_cea y420_vdb_modes y420_cmdb_modes mode \<longleftrightarrow>
     drm_mode_is_420_only match_cea y420_vdb_modes mode \<or> drm_mode_is_420_also match_cea y420_cmdb_modes mode"

section \<open>The names of the status codes\<close>

text \<open>The values of the enumerators.\<close>

definition mode_status_value :: "drm_mode_status \<Rightarrow> int" where
  "mode_status_value status = (case status of
      MODE_OK \<Rightarrow> 0 | MODE_HSYNC \<Rightarrow> 1 | MODE_VSYNC \<Rightarrow> 2 |
      MODE_H_ILLEGAL \<Rightarrow> 3 | MODE_V_ILLEGAL \<Rightarrow> 4 | MODE_BAD_WIDTH \<Rightarrow> 5 |
      MODE_NOMODE \<Rightarrow> 6 | MODE_NO_INTERLACE \<Rightarrow> 7 | MODE_NO_DBLESCAN \<Rightarrow> 8 |
      MODE_NO_VSCAN \<Rightarrow> 9 | MODE_MEM \<Rightarrow> 10 | MODE_VIRTUAL_X \<Rightarrow> 11 |
      MODE_VIRTUAL_Y \<Rightarrow> 12 | MODE_MEM_VIRT \<Rightarrow> 13 | MODE_NOCLOCK \<Rightarrow> 14 |
      MODE_CLOCK_HIGH \<Rightarrow> 15 | MODE_CLOCK_LOW \<Rightarrow> 16 | MODE_CLOCK_RANGE \<Rightarrow> 17 |
      MODE_BAD_HVALUE \<Rightarrow> 18 | MODE_BAD_VVALUE \<Rightarrow> 19 | MODE_BAD_VSCAN \<Rightarrow> 20 |
      MODE_HSYNC_NARROW \<Rightarrow> 21 | MODE_HSYNC_WIDE \<Rightarrow> 22 |
      MODE_HBLANK_NARROW \<Rightarrow> 23 | MODE_HBLANK_WIDE \<Rightarrow> 24 |
      MODE_VSYNC_NARROW \<Rightarrow> 25 | MODE_VSYNC_WIDE \<Rightarrow> 26 |
      MODE_VBLANK_NARROW \<Rightarrow> 27 | MODE_VBLANK_WIDE \<Rightarrow> 28 | MODE_PANEL \<Rightarrow> 29 |
      MODE_INTERLACE_WIDTH \<Rightarrow> 30 | MODE_ONE_WIDTH \<Rightarrow> 31 |
      MODE_ONE_HEIGHT \<Rightarrow> 32 | MODE_ONE_SIZE \<Rightarrow> 33 | MODE_NO_REDUCED \<Rightarrow> 34 |
      MODE_NO_STEREO \<Rightarrow> 35 | MODE_NO_420 \<Rightarrow> 36 | MODE_STALE \<Rightarrow> - 3 |
      MODE_BAD \<Rightarrow> - 2 | MODE_ERROR \<Rightarrow> - 1)"

text \<open>The designated initialisers of the array, each at the place \<^verbatim>\<open>[MODE_x + 3]\<close>.\<close>

definition drm_mode_status_names :: "(int \<times> string) list" where
  "drm_mode_status_names = map (\<lambda>(status, name). (mode_status_value status + 3, name))
     [
      (MODE_OK, ''OK''), (MODE_HSYNC, ''HSYNC''), (MODE_VSYNC, ''VSYNC''), (MODE_H_ILLEGAL, ''H_ILLEGAL''),
      (MODE_V_ILLEGAL, ''V_ILLEGAL''), (MODE_BAD_WIDTH, ''BAD_WIDTH''), (MODE_NOMODE, ''NOMODE''),
      (MODE_NO_INTERLACE, ''NO_INTERLACE''), (MODE_NO_DBLESCAN, ''NO_DBLESCAN''),
      (MODE_NO_VSCAN, ''NO_VSCAN''), (MODE_MEM, ''MEM''), (MODE_VIRTUAL_X, ''VIRTUAL_X''),
      (MODE_VIRTUAL_Y, ''VIRTUAL_Y''), (MODE_MEM_VIRT, ''MEM_VIRT''), (MODE_NOCLOCK, ''NOCLOCK''),
      (MODE_CLOCK_HIGH, ''CLOCK_HIGH''), (MODE_CLOCK_LOW, ''CLOCK_LOW''), (MODE_CLOCK_RANGE, ''CLOCK_RANGE''),
      (MODE_BAD_HVALUE, ''BAD_HVALUE''), (MODE_BAD_VVALUE, ''BAD_VVALUE''), (MODE_BAD_VSCAN, ''BAD_VSCAN''),
      (MODE_HSYNC_NARROW, ''HSYNC_NARROW''), (MODE_HSYNC_WIDE, ''HSYNC_WIDE''),
      (MODE_HBLANK_NARROW, ''HBLANK_NARROW''), (MODE_HBLANK_WIDE, ''HBLANK_WIDE''),
      (MODE_VSYNC_NARROW, ''VSYNC_NARROW''), (MODE_VSYNC_WIDE, ''VSYNC_WIDE''),
      (MODE_VBLANK_NARROW, ''VBLANK_NARROW''), (MODE_VBLANK_WIDE, ''VBLANK_WIDE''), (MODE_PANEL, ''PANEL''),
      (MODE_INTERLACE_WIDTH, ''INTERLACE_WIDTH''), (MODE_ONE_WIDTH, ''ONE_WIDTH''),
      (MODE_ONE_HEIGHT, ''ONE_HEIGHT''), (MODE_ONE_SIZE, ''ONE_SIZE''), (MODE_NO_REDUCED, ''NO_REDUCED''),
      (MODE_NO_STEREO, ''NO_STEREO''), (MODE_NO_420, ''NO_420''), (MODE_STALE, ''STALE''),
      (MODE_BAD, ''BAD''), (MODE_ERROR, ''ERROR'')]"

definition drm_get_mode_status_name :: "drm_mode_status \<Rightarrow> string option" where
  "drm_get_mode_status_name status =
     (let index = mode_status_value status + 3
      in if index < 0 \<or> index \<ge> Max (fst ` set drm_mode_status_names) + 1 then Some []
         else map_of drm_mode_status_names index)"

section \<open>Lists of modes\<close>

text \<open>The modes that stay in the list, and those that are destroyed.\<close>

definition drm_mode_prune_invalid :: "drm_display_mode list \<Rightarrow> drm_display_mode list \<times> drm_display_mode list" where
  "drm_mode_prune_invalid mode_list =
     (filter (\<lambda>mode. mode_status mode = MODE_OK) mode_list, filter (\<lambda>mode. mode_status mode \<noteq> MODE_OK) mode_list)"

definition mode_preferred :: "drm_display_mode \<Rightarrow> s32" where
  "mode_preferred mode = (if mode_type mode AND DRM_MODE_TYPE_PREFERRED \<noteq> 0 then 1 else 0)"

definition drm_mode_compare :: "drm_display_mode \<Rightarrow> drm_display_mode \<Rightarrow> s32" where
  "drm_mode_compare a b =
     (let diff = mode_preferred b - mode_preferred a
      in if diff \<noteq> 0 then diff
         else let diff = hdisplay b * vdisplay b - hdisplay a * vdisplay a
              in if diff \<noteq> 0 then diff
                 else let diff = mode_vrefresh b - mode_vrefresh a
                      in if diff \<noteq> 0 then diff else mode_clock b - mode_clock a)"

text \<open>\<open>list_sort\<close> is the sorting function of the kernel library; it gets the comparison.\<close>

definition drm_mode_sort ::
  "((drm_display_mode \<Rightarrow> drm_display_mode \<Rightarrow> s32) \<Rightarrow> drm_display_mode list \<Rightarrow> drm_display_mode list) \<Rightarrow>
   drm_display_mode list \<Rightarrow> drm_display_mode list" where
  "drm_mode_sort list_sort mode_list = list_sort drm_mode_compare mode_list"

record drm_connector_modes =
  conn_modes :: "drm_display_mode list"
  probed_modes :: "drm_display_mode list"

definition drm_mode_probed_add :: "drm_connector_modes \<Rightarrow> drm_display_mode \<Rightarrow> drm_connector_modes" where
  "drm_mode_probed_add connector mode = connector\<lparr>probed_modes := probed_modes connector @ [mode]\<rparr>"

text \<open>What becomes of the mode \<open>mode\<close> of the list if the probed mode \<open>pmode\<close> is equal to it.\<close>

definition mode_merge :: "drm_display_mode \<Rightarrow> drm_display_mode \<Rightarrow> drm_display_mode" where
  "mode_merge pmode mode =
     (if mode_status mode = MODE_STALE then drm_mode_copy mode pmode
      else if mode_type mode AND DRM_MODE_TYPE_PREFERRED = 0 \<and> mode_type pmode AND DRM_MODE_TYPE_PREFERRED \<noteq> 0
      then drm_mode_copy mode (pmode\<lparr>mode_type := mode_type pmode OR mode_type mode\<rparr>)
      else mode\<lparr>mode_type := mode_type mode OR mode_type pmode\<rparr>)"

text \<open>The inner loop stops at the first equal mode; \<open>None\<close> means that there is none.\<close>

fun modes_find_merge :: "drm_display_mode \<Rightarrow> drm_display_mode list \<Rightarrow> drm_display_mode list option" where
  "modes_find_merge pmode [] = None"
| "modes_find_merge pmode (mode # modes) =
     (if \<not> drm_mode_equal (Some pmode) (Some mode) then map_option (\<lambda>ms. mode # ms) (modes_find_merge pmode modes)
      else Some (mode_merge pmode mode # modes))"

text \<open>The outer loop also returns the identifiers of the modes that it destroys.\<close>

fun list_update_loop ::
  "drm_display_mode list \<Rightarrow> drm_display_mode list \<Rightarrow> drm_display_mode list \<times> u32 list" where
  "list_update_loop [] modes = (modes, [])"
| "list_update_loop (pmode # pmodes) modes =
     (case modes_find_merge pmode modes of
        Some modes' \<Rightarrow> (case list_update_loop pmodes modes' of (ms, destroyed) \<Rightarrow> (ms, mode_id pmode # destroyed))
      | None \<Rightarrow> list_update_loop pmodes (modes @ [pmode]))"

definition drm_mode_connector_list_update :: "drm_connector_modes \<Rightarrow> drm_connector_modes \<times> u32 list" where
  "drm_mode_connector_list_update connector =
     (case list_update_loop (probed_modes connector) (conn_modes connector) of
        (modes, destroyed) \<Rightarrow> (\<lparr>conn_modes = modes, probed_modes = []\<rparr>, destroyed))"

section \<open>Exchange with user space\<close>

record drm_mode_modeinfo =
  u_clock :: u32
  u_hdisplay :: u16
  u_hsync_start :: u16
  u_hsync_end :: u16
  u_htotal :: u16
  u_hskew :: u16
  u_vdisplay :: u16
  u_vsync_start :: u16
  u_vsync_end :: u16
  u_vtotal :: u16
  u_vscan :: u16
  u_vrefresh :: u32
  u_flags :: u32
  u_type :: u32
  u_name :: string

definition umode_name :: "string \<Rightarrow> string" where
  "umode_name name = (strncpy name DRM_DISPLAY_MODE_LEN)[DRM_DISPLAY_MODE_LEN - 1 := NUL]"

definition drm_mode_convert_to_umode :: "drm_display_mode \<Rightarrow> drm_mode_modeinfo" where
  "drm_mode_convert_to_umode inm =
     \<lparr>u_clock = mode_clock inm, u_hdisplay = ucast (hdisplay inm), u_hsync_start = ucast (hsync_start inm),
      u_hsync_end = ucast (hsync_end inm), u_htotal = ucast (htotal inm), u_hskew = ucast (hskew inm),
      u_vdisplay = ucast (vdisplay inm), u_vsync_start = ucast (vsync_start inm),
      u_vsync_end = ucast (vsync_end inm), u_vtotal = ucast (vtotal inm), u_vscan = ucast (vscan inm),
      u_vrefresh = mode_vrefresh inm, u_flags = mode_flags inm, u_type = mode_type inm,
      u_name = umode_name (mode_name inm)\<rparr>"

text \<open>
  The mode is filled in before it is validated, so it is changed also when \<^verbatim>\<open>-EINVAL\<close> is returned
  because of its timings.
\<close>

definition drm_mode_convert_umode :: "drm_display_mode \<Rightarrow> drm_mode_modeinfo \<Rightarrow> errno option \<times> drm_display_mode" where
  "drm_mode_convert_umode out inm =
     (if u_clock inm > 0x7fffffff \<or> u_vrefresh inm > 0x7fffffff then (Some ERANGE, out)
      else if u_flags inm AND DRM_MODE_FLAG_3D_MASK > DRM_MODE_FLAG_3D_MAX then (Some EINVAL, out)
      else
        let out = out\<lparr>mode_clock := u_clock inm, hdisplay := ucast (u_hdisplay inm),
              hsync_start := ucast (u_hsync_start inm), hsync_end := ucast (u_hsync_end inm),
              htotal := ucast (u_htotal inm), hskew := ucast (u_hskew inm), vdisplay := ucast (u_vdisplay inm),
              vsync_start := ucast (u_vsync_start inm), vsync_end := ucast (u_vsync_end inm),
              vtotal := ucast (u_vtotal inm), vscan := ucast (u_vscan inm), mode_vrefresh := u_vrefresh inm,
              mode_flags := u_flags inm, mode_type := u_type inm, mode_name := umode_name (u_name inm)\<rparr>;
            out = out\<lparr>mode_status := drm_mode_validate_basic out\<rparr>
        in if mode_status out \<noteq> MODE_OK then (Some EINVAL, out)
           else (None, drm_mode_set_crtcinfo out CRTC_INTERLACE_HALVE_V))"

section \<open>Mode options of the command line\<close>

datatype drm_connector_force = DRM_FORCE_UNSPECIFIED | DRM_FORCE_OFF | DRM_FORCE_ON | DRM_FORCE_ON_DIGITAL

record drm_cmdline_mode =
  cmd_specified :: bool
  cmd_refresh_specified :: bool
  cmd_bpp_specified :: bool
  cmd_xres :: s32
  cmd_yres :: s32
  cmd_bpp :: s32
  cmd_refresh :: s32
  cmd_rb :: bool
  cmd_interlace :: bool
  cmd_cvt :: bool
  cmd_margins :: bool
  cmd_force :: drm_connector_force

text \<open>The library function \<^verbatim>\<open>simple_strtol (s, &ch, 10)\<close>: the value and the offset of \<^verbatim>\<open>ch\<close>.\<close>

definition is_digit :: "char \<Rightarrow> bool" where
  "is_digit c \<longleftrightarrow> 48 \<le> (of_char c :: nat) \<and> (of_char c :: nat) \<le> 57"

definition is_space :: "char \<Rightarrow> bool" where
  "is_space c \<longleftrightarrow> (of_char c :: nat) = 32 \<or> 9 \<le> (of_char c :: nat) \<and> (of_char c :: nat) \<le> 13"

definition dec_value :: "string \<Rightarrow> nat" where
  "dec_value s = fold (\<lambda>c v. 10 * v + (of_char c - 48)) s 0"

definition simple_strtol :: "string \<Rightarrow> int \<times> nat" where
  "simple_strtol s =
     (let ws = length (takeWhile is_space s);
          r = drop ws s;
          negative = (r \<noteq> [] \<and> hd r = CHR ''-'');
          sign = (if r \<noteq> [] \<and> (hd r = CHR ''-'' \<or> hd r = CHR ''+'') then 1 else 0);
          digits = takeWhile is_digit (drop sign r);
          v = (if negative then - int (dec_value digits) else int (dec_value digits))
      in if digits = [] then (0, 0)
         else (max (- (2 ^ 63)) (min v (2 ^ 63 - 1)), ws + sign + length digits))"

text \<open>The local variables of the scan.\<close>

record cmdline_scan =
  bpp_specified :: bool
  refresh_specified :: bool
  yres_specified :: bool
  scan_yres :: u32
  scan_bpp :: u32
  scan_refresh :: u32
  scan_cvt :: bool
  scan_rb :: bool
  scan_interlace :: bool
  scan_margins :: bool
  was_digit :: bool
  scan_force :: drm_connector_force

definition cmdline_scan_init :: cmdline_scan where
  "cmdline_scan_init = \<lparr>bpp_specified = False, refresh_specified = False, yres_specified = False, scan_yres = 0,
     scan_bpp = 32, scan_refresh = 0, scan_cvt = False, scan_rb = False, scan_interlace = False,
     scan_margins = False, was_digit = False, scan_force = DRM_FORCE_UNSPECIFIED\<rparr>"

text \<open>One iteration of the loop: the character \<open>c\<close> and the text behind it; \<open>None\<close> is \<^verbatim>\<open>goto done\<close>.\<close>

definition cmdline_step :: "bool \<Rightarrow> char \<Rightarrow> string \<Rightarrow> cmdline_scan \<Rightarrow> cmdline_scan option" where
  "cmdline_step digital c rest s =
     (let number = (word_of_int (fst (simple_strtol rest)) :: u32);
          may_force = (\<not> (yres_specified s \<or> bpp_specified s \<or> refresh_specified s \<or> was_digit s \<or>
                          scan_force s \<noteq> DRM_FORCE_UNSPECIFIED))
      in if c = CHR ''@'' then
           (if \<not> refresh_specified s \<and> \<not> bpp_specified s \<and> \<not> yres_specified s \<and> \<not> scan_cvt s \<and> \<not> scan_rb s \<and>
               was_digit s
            then Some (s\<lparr>scan_refresh := number, refresh_specified := True, was_digit := False\<rparr>) else None)
         else if c = CHR ''-'' then
           (if \<not> bpp_specified s \<and> \<not> yres_specified s \<and> \<not> scan_cvt s \<and> \<not> scan_rb s \<and> was_digit s
            then Some (s\<lparr>scan_bpp := number, bpp_specified := True, was_digit := False\<rparr>) else None)
         else if c = CHR ''x'' then
           (if \<not> yres_specified s \<and> was_digit s
            then Some (s\<lparr>scan_yres := number, yres_specified := True, was_digit := False\<rparr>) else None)
         else if is_digit c then Some (s\<lparr>was_digit := True\<rparr>)
         else if c = CHR ''M'' then
           (if yres_specified s \<or> scan_cvt s \<or> was_digit s then None else Some (s\<lparr>scan_cvt := True\<rparr>))
         else if c = CHR ''R'' then
           (if yres_specified s \<or> scan_cvt s \<or> scan_rb s \<or> was_digit s then None else Some (s\<lparr>scan_rb := True\<rparr>))
         else if c = CHR ''m'' then
           (if scan_cvt s \<or> yres_specified s \<or> was_digit s then None else Some (s\<lparr>scan_margins := True\<rparr>))
         else if c = CHR ''i'' then
           (if scan_cvt s \<or> yres_specified s \<or> was_digit s then None else Some (s\<lparr>scan_interlace := True\<rparr>))
         else if c = CHR ''e'' then (if may_force then Some (s\<lparr>scan_force := DRM_FORCE_ON\<rparr>) else None)
         else if c = CHR ''D'' then
           (if may_force
            then Some (s\<lparr>scan_force := (if \<not> digital then DRM_FORCE_ON else DRM_FORCE_ON_DIGITAL)\<rparr>) else None)
         else if c = CHR ''d'' then (if may_force then Some (s\<lparr>scan_force := DRM_FORCE_OFF\<rparr>) else None)
         else None)"

text \<open>
  The loop runs from the last character to the first. It returns the variable \<^verbatim>\<open>i\<close> after the loop,
  which is the position of the character at which it gave up, or \<open>-1\<close>.
\<close>

fun cmdline_loop :: "bool \<Rightarrow> string \<Rightarrow> nat \<Rightarrow> cmdline_scan \<Rightarrow> int \<times> cmdline_scan" where
  "cmdline_loop digital name 0 s = (- 1, s)"
| "cmdline_loop digital name (Suc i) s =
     (case cmdline_step digital (name ! i) (drop (Suc i) name) s of
        None \<Rightarrow> (int i, s)
      | Some s' \<Rightarrow> cmdline_loop digital name i s')"

text \<open>
  Without an option the global variable \<^verbatim>\<open>fb_mode_option\<close> is used, which is null and never assigned.
  \<open>digital\<close> tells whether the connector is of type DVI-I or HDMI-B. The name is the text without the
  terminating zero. The gotos to \<^verbatim>\<open>done\<close> skip the test of the horizontal resolution.
\<close>

definition fb_mode_option :: "string option" where "fb_mode_option = None"

definition drm_mode_parse_command_line_for_connector ::
  "string option \<Rightarrow> bool \<Rightarrow> drm_cmdline_mode \<Rightarrow> bool \<times> drm_cmdline_mode" where
  "drm_mode_parse_command_line_for_connector mode_option digital mode =
     (case (if mode_option = None then fb_mode_option else mode_option) of
        None \<Rightarrow> (False, mode\<lparr>cmd_specified := False\<rparr>)
      | Some name \<Rightarrow>
          let (i, s) = cmdline_loop digital name (length name) cmdline_scan_init;
              (xres, ch) = simple_strtol name;
              res_specified = (i < 0 \<and> yres_specified s \<and> ch < length name \<and> name ! ch = CHR ''x'');
              i = (if i \<ge> 0 then i
                   else if yres_specified s then (if res_specified then i else int ch)
                   else if was_digit s then 0 else i)
          in if i \<ge> 0 then (False, mode\<lparr>cmd_specified := False\<rparr>)
             else
               let mode = (if res_specified
                           then mode\<lparr>cmd_specified := True, cmd_xres := word_of_int xres, cmd_yres := scan_yres s\<rparr>
                           else mode);
                   mode = (if refresh_specified s
                           then mode\<lparr>cmd_refresh_specified := True, cmd_refresh := scan_refresh s\<rparr> else mode);
                   mode = (if bpp_specified s
                           then mode\<lparr>cmd_bpp_specified := True, cmd_bpp := scan_bpp s\<rparr> else mode)
               in (True, mode\<lparr>cmd_rb := scan_rb s, cmd_cvt := scan_cvt s, cmd_interlace := scan_interlace s,
                              cmd_margins := scan_margins s, cmd_force := scan_force s\<rparr>))"

definition drm_mode_fixup_1366x768 :: "drm_display_mode \<Rightarrow> drm_display_mode" where
  "drm_mode_fixup_1366x768 mode =
     (if hdisplay mode = 1368 \<and> vdisplay mode = 768
      then drm_mode_set_name (mode\<lparr>hdisplay := 1366, hsync_start := hsync_start mode - 1, hsync_end := hsync_end mode - 1\<rparr>)
      else mode)"

definition drm_mode_create_from_cmdline_mode :: "u32 option \<Rightarrow> drm_cmdline_mode \<Rightarrow> drm_display_mode option option" where
  "drm_mode_create_from_cmdline_mode alloc cmd =
     do { let refr = (if cmd_refresh_specified cmd then cmd_refresh cmd else 60);
          mode \<leftarrow> (if cmd_cvt cmd
                    then drm_cvt_mode alloc (cmd_xres cmd) (cmd_yres cmd) refr (cmd_rb cmd) (cmd_interlace cmd) (cmd_margins cmd)
                    else drm_gtf_mode alloc (cmd_xres cmd) (cmd_yres cmd) refr (cmd_interlace cmd) (cmd_margins cmd));
          Some (map_option (\<lambda>mode.
            let mode = mode\<lparr>mode_type := mode_type mode OR DRM_MODE_TYPE_USERDEF\<rparr>;
                mode = (if cmd_xres cmd = 1366 then drm_mode_fixup_1366x768 mode else mode)
            in drm_mode_set_crtcinfo mode CRTC_INTERLACE_HALVE_V) mode) }"

end
