(* ===== verification/Modes_Correct.thy ===== *)
theory Modes_Correct
  imports Modes "HOL-Library.Product_Lexorder"
begin

text \<open>
  Correctness of the handling of modes: equality of modes is equality of a key, the update of the mode
  list of a connector, the order in which modes are sorted, the exchange with user space, the timings
  for the hardware and the well-formedness of the modes that the functions create.
\<close>

unbundle bit_operations_syntax

section \<open>Equality of modes\<close>

text \<open>Two modes are equal for the driver iff these values are.\<close>

definition mode_timings :: "drm_display_mode \<Rightarrow> s32 list" where
  "mode_timings m = [hdisplay m, hsync_start m, hsync_end m, htotal m, hskew m, vdisplay m, vsync_start m,
     vsync_end m, vtotal m, vscan m]"

datatype mode_key = Mode_Key (key_picos: "u64 option") (key_timings: "s32 list") (key_flags: u32)

definition mode_key :: "drm_display_mode \<Rightarrow> mode_key" where
  "mode_key m =
     Mode_Key (if mode_clock m = 0 then None else Some (KHZ2PICOS (mode_clock m))) (mode_timings m) (mode_flags m)"

lemma word_eq_masked:
  "x = y \<longleftrightarrow> x AND m = y AND m \<and> x AND NOT m = y AND NOT m" for x y m :: "'a::len word"
  by (auto simp: bit_eq_iff bit_simps)

lemma drm_mode_equal_key: "drm_mode_equal (Some a) (Some b) \<longleftrightarrow> mode_key a = mode_key b"
  using word_eq_masked [of "mode_flags a" "mode_flags b" DRM_MODE_FLAG_3D_MASK]
  by (auto simp: drm_mode_equal_def drm_mode_equal_no_clocks_def drm_mode_equal_no_clocks_no_stereo_def
      mode_key_def mode_timings_def)

lemma mode_key_update [simp]:
  "mode_key (m\<lparr>mode_type := t\<rparr>) = mode_key m" "mode_key (m\<lparr>mode_id := i\<rparr>) = mode_key m"
  "mode_key (drm_mode_copy d m) = mode_key m"
  by (simp_all add: mode_key_def mode_timings_def drm_mode_copy_def)

section \<open>Updating the list of a connector\<close>

text \<open>The union of the type bits of the modes with a key, where stale modes do not count.\<close>

definition live_type :: "mode_key \<Rightarrow> drm_display_mode list \<Rightarrow> u32" where
  "live_type k ms = foldr (\<lambda>m t. mode_type m OR t) (filter (\<lambda>m. mode_key m = k \<and> mode_status m \<noteq> MODE_STALE) ms) 0"

lemma live_type_simps [simp]:
  "live_type k [] = 0"
  "live_type k (m # ms) = (if mode_key m = k \<and> mode_status m \<noteq> MODE_STALE then mode_type m OR live_type k ms else live_type k ms)"
  by (simp_all add: live_type_def)

lemma live_type_append: "live_type k (ms @ ms') = live_type k ms OR live_type k ms'"
  by (induction ms) (simp_all add: or.assoc)

lemma mode_merge_facts:
  assumes "mode_key p = mode_key m" and "mode_status p \<noteq> MODE_STALE"
  shows "mode_key (mode_merge p m) = mode_key m" "mode_id (mode_merge p m) = mode_id m"
    "mode_status (mode_merge p m) \<noteq> MODE_STALE"
    "mode_type (mode_merge p m) = (if mode_status m = MODE_STALE then mode_type p else mode_type m OR mode_type p)"
  using assms by (auto simp: mode_merge_def drm_mode_copy_def or.commute)

lemma find_merge_None: "modes_find_merge p ms = None \<longleftrightarrow> mode_key p \<notin> mode_key ` set ms"
  by (induction ms) (auto simp: drm_mode_equal_key)

lemma find_merge_Some:
  assumes "modes_find_merge p ms = Some ms'" and "mode_status p \<noteq> MODE_STALE"
  shows "map mode_key ms' = map mode_key ms \<and> mode_key p \<in> mode_key ` set ms \<and> map mode_id ms' = map mode_id ms"
    and "live_type k ms' = live_type k ms OR (if mode_key p = k then mode_type p else 0)"
  using assms
proof (induction ms arbitrary: ms')
  case (Cons m ms)
  { case 1 with Cons.IH(1) show ?case
      by (auto simp: drm_mode_equal_key mode_merge_facts split: if_splits) }
  { case 2 with Cons.IH(2) show ?case
      by (auto simp: drm_mode_equal_key mode_merge_facts or.assoc or.left_commute or.commute split: if_splits) }
qed simp_all

lemma find_merge_stale:
  assumes "modes_find_merge p ms = Some ms'" and "mode_status p \<noteq> MODE_STALE" and "distinct (map mode_key ms)"
  shows "{m \<in> set ms'. mode_status m = MODE_STALE} = {m \<in> set ms. mode_status m = MODE_STALE \<and> mode_key m \<noteq> mode_key p}"
  using assms
proof (induction ms arbitrary: ms')
  case (Cons m ms)
  show ?case
  proof (cases "mode_key p = mode_key m")
    case True
    with Cons.prems have "ms' = mode_merge p m # ms" by (simp add: drm_mode_equal_key)
    moreover have "mode_key x \<noteq> mode_key p" if "x \<in> set ms" for x
      using that Cons.prems(3) True by (auto simp: image_iff)
    ultimately show ?thesis
      using mode_merge_facts(3) [OF True Cons.prems(2)] True by auto
  next
    case False
    then obtain ms2 where "modes_find_merge p ms = Some ms2" "ms' = m # ms2"
      using Cons.prems(1) by (auto simp: drm_mode_equal_key)
    with Cons.IH [OF _ Cons.prems(2), of ms2] Cons.prems(3) False show ?thesis by auto
  qed
qed simp

text \<open>What the update promises: the keys, the identifiers, the stale modes and the type bits.\<close>

definition list_updated ::
  "drm_display_mode list \<Rightarrow> drm_display_mode list \<Rightarrow> drm_display_mode list \<Rightarrow> u32 list \<Rightarrow> bool" where
  "list_updated old probed new destroyed \<longleftrightarrow>
     distinct (map mode_key new) \<and> mode_key ` set new = mode_key ` set old \<union> mode_key ` set probed \<and>
     mset (map mode_id new) + mset destroyed = mset (map mode_id old) + mset (map mode_id probed) \<and>
     {m \<in> set new. mode_status m = MODE_STALE} =
       {m \<in> set old. mode_status m = MODE_STALE \<and> mode_key m \<notin> mode_key ` set probed} \<and>
     (\<forall>k. live_type k new = live_type k old OR live_type k probed)"

lemma list_updated_step:
  assumes "list_updated ms1 ps new destroyed"
    and "mode_key ` set ms1 = insert (mode_key p) (mode_key ` set ms)"
    and "mset (map mode_id ms1) + mset d = add_mset (mode_id p) (mset (map mode_id ms))"
    and "{m \<in> set ms1. mode_status m = MODE_STALE} = {m \<in> set ms. mode_status m = MODE_STALE \<and> mode_key m \<noteq> mode_key p}"
    and "\<And>k. live_type k ms1 = live_type k ms OR live_type k [p]"
  shows "list_updated ms (p # ps) new (d @ destroyed)"
proof -
  have "{m \<in> set new. mode_status m = MODE_STALE} = {m \<in> set ms. mode_status m = MODE_STALE \<and> mode_key m \<notin> mode_key ` set (p # ps)}"
    using assms(1,4) unfolding list_updated_def by auto
  moreover have "mset (map mode_id new) + mset (d @ destroyed) = mset (map mode_id ms) + mset (map mode_id (p # ps))"
    using assms(1,3) unfolding list_updated_def by (simp add: ac_simps)
  moreover have "live_type k new = live_type k ms OR live_type k (p # ps)" for k
    using assms(1,5) live_type_append [of k "[p]" ps] unfolding list_updated_def by (simp add: or.assoc)
  ultimately show ?thesis
    using assms(1,2) unfolding list_updated_def by auto
qed

lemma list_update_loop_correct:
  assumes "distinct (map mode_key ms)" and "\<forall>p\<in>set ps. mode_status p \<noteq> MODE_STALE"
    and "list_update_loop ps ms = (new, destroyed)"
  shows "list_updated ms ps new destroyed"
  using assms
proof (induction ps arbitrary: ms destroyed)
  case Nil
  then show ?case by (auto simp: list_updated_def)
next
  case (Cons p ps)
  have p: "mode_status p \<noteq> MODE_STALE" and ps: "\<forall>p\<in>set ps. mode_status p \<noteq> MODE_STALE"
    using Cons.prems(2) by simp_all
  show ?case
  proof (cases "modes_find_merge p ms")
    case None
    then have new: "mode_key p \<notin> mode_key ` set ms" by (simp add: find_merge_None)
    have l: "list_update_loop ps (ms @ [p]) = (new, destroyed)" using Cons.prems(3) None by simp
    have "list_updated (ms @ [p]) ps new destroyed"
      by (rule Cons.IH [OF _ ps l]) (use Cons.prems(1) new in auto)
    then have "list_updated ms (p # ps) new ([] @ destroyed)"
      by (rule list_updated_step) (use new p in \<open>auto simp: live_type_append image_iff\<close>)
    then show ?thesis by simp
  next
    case (Some ms1)
    then obtain d where l: "list_update_loop ps ms1 = (new, d)" and d: "destroyed = mode_id p # d"
      using Cons.prems(3) by (auto split: prod.splits)
    note f = find_merge_Some(1) [OF Some p]
    have "list_updated ms1 ps new d"
      by (rule Cons.IH [OF _ ps l]) (use Cons.prems(1) f in simp)
    then have "list_updated ms (p # ps) new ([mode_id p] @ d)"
    proof (rule list_updated_step)
      show "mode_key ` set ms1 = insert (mode_key p) (mode_key ` set ms)"
        using f by (metis insert_absorb list.set_map)
      show "mset (map mode_id ms1) + mset [mode_id p] = add_mset (mode_id p) (mset (map mode_id ms))"
        using f by simp
    qed (use find_merge_stale [OF Some p Cons.prems(1)] find_merge_Some(2) [OF Some p] p in auto)
    then show ?thesis using d by simp
  qed
qed

lemma live_type_single: "distinct (map mode_key ms) \<Longrightarrow> m \<in> set ms \<Longrightarrow> mode_status m \<noteq> MODE_STALE \<Longrightarrow> live_type (mode_key m) ms = mode_type m"
proof (induction ms)
  case (Cons x ms)
  have "live_type k ms = 0" if "k \<notin> mode_key ` set ms" for k
    using that by (induction ms) auto
  then show ?case using Cons by auto
qed simp

text \<open>
  C14. Updating the mode list of a connector moves every probed mode into the list or merges it with the
  mode that is equal to it. Afterwards no probed mode is left, no two modes of the list are equal, every
  old and every probed mode has an equal mode in the list, every mode object is in the list or destroyed
  and none is both, exactly those stale modes stay stale that were not probed again, and the type bits
  of every other mode are the union of those of the modes that were merged into it.
\<close>

theorem connector_list_update_correct:
  assumes "distinct (map mode_key (conn_modes c))" and "\<forall>p\<in>set (probed_modes c). mode_status p \<noteq> MODE_STALE"
    and "drm_mode_connector_list_update c = (c', destroyed)"
  shows "probed_modes c' = [] \<and> distinct (conn_modes c') \<and>
    (\<forall>m\<in>set (conn_modes c'). \<forall>m'\<in>set (conn_modes c'). drm_mode_equal (Some m) (Some m') \<longrightarrow> m = m') \<and>
    (\<forall>m\<in>set (conn_modes c) \<union> set (probed_modes c). \<exists>m'\<in>set (conn_modes c'). drm_mode_equal (Some m) (Some m')) \<and>
    mset (map mode_id (conn_modes c')) + mset destroyed =
      mset (map mode_id (conn_modes c)) + mset (map mode_id (probed_modes c)) \<and>
    {m \<in> set (conn_modes c'). mode_status m = MODE_STALE} =
      {m \<in> set (conn_modes c). mode_status m = MODE_STALE \<and>
         (\<forall>p\<in>set (probed_modes c). \<not> drm_mode_equal (Some p) (Some m))} \<and>
    (\<forall>m\<in>set (conn_modes c'). mode_status m \<noteq> MODE_STALE \<longrightarrow>
       mode_type m = live_type (mode_key m) (conn_modes c) OR live_type (mode_key m) (probed_modes c))"
proof -
  have u: "list_updated (conn_modes c) (probed_modes c) (conn_modes c') destroyed" and p: "probed_modes c' = []"
    using assms(3) list_update_loop_correct [OF assms(1,2)]
    by (auto simp: drm_mode_connector_list_update_def split: prod.splits)
  then have d: "distinct (map mode_key (conn_modes c'))" by (simp add: list_updated_def)
  have inj: "m = m'" if "m \<in> set (conn_modes c')" "m' \<in> set (conn_modes c')" "mode_key m = mode_key m'" for m m'
    using d that by (auto simp: distinct_map dest: inj_onD)
  have "\<exists>m'\<in>set (conn_modes c'). mode_key m = mode_key m'" if "m \<in> set (conn_modes c) \<union> set (probed_modes c)" for m
  proof -
    have "mode_key m \<in> mode_key ` set (conn_modes c')" using u that by (auto simp: list_updated_def)
    then show ?thesis by auto
  qed
  moreover have "mode_type m = live_type (mode_key m) (conn_modes c) OR live_type (mode_key m) (probed_modes c)"
    if "m \<in> set (conn_modes c')" "mode_status m \<noteq> MODE_STALE" for m
    using u live_type_single [OF d that] by (simp add: list_updated_def)
  ultimately show ?thesis
    using u p inj unfolding list_updated_def drm_mode_equal_key by (auto simp: image_iff distinct_map)
qed

definition list_update_example :: drm_connector_modes where
  "list_update_example =
     \<lparr>conn_modes = [(drm_mode_zero 1)\<lparr>mode_status := MODE_STALE\<rparr>],
      probed_modes = [drm_mode_zero 2, (drm_mode_zero 3)\<lparr>hdisplay := 640\<rparr>]\<rparr>"

theorem connector_list_update_correct_witness:
  "\<exists>c' destroyed. drm_mode_connector_list_update list_update_example = (c', destroyed) \<and> probed_modes c' = [] \<and>
     mset (map mode_id (conn_modes c')) + mset destroyed = {#1, 2, 3#} \<and>
     {m \<in> set (conn_modes c'). mode_status m = MODE_STALE} = {}"
proof -
  obtain c' destroyed where r: "drm_mode_connector_list_update list_update_example = (c', destroyed)"
    by (cases "drm_mode_connector_list_update list_update_example")
  have "distinct (map mode_key (conn_modes list_update_example))"
    and "\<forall>p\<in>set (probed_modes list_update_example). mode_status p \<noteq> MODE_STALE"
    by (simp_all add: list_update_example_def drm_mode_zero_def)
  note t = connector_list_update_correct [OF this r]
  have "drm_mode_equal (Some (drm_mode_zero 2)) (Some ((drm_mode_zero 1)\<lparr>mode_status := MODE_STALE\<rparr>))"
    by (simp add: drm_mode_equal_key mode_key_def mode_timings_def drm_mode_zero_def)
  with t have "{m \<in> set (conn_modes c'). mode_status m = MODE_STALE} = {}"
    by (auto simp: list_update_example_def)
  with t r show ?thesis by (auto simp: list_update_example_def drm_mode_zero_def)
qed

section \<open>The order of modes\<close>

text \<open>
  The contract of the sorting function of the kernel: if the comparison is a total preorder on the
  elements then the result is a permutation in which no element comes before a smaller one.
\<close>

definition cmp_preorder :: "('a \<Rightarrow> 'a \<Rightarrow> s32) \<Rightarrow> 'a set \<Rightarrow> bool" where
  "cmp_preorder cmp A \<longleftrightarrow>
     (\<forall>a\<in>A. \<forall>b\<in>A. sint (cmp a b) > 0 \<longleftrightarrow> sint (cmp b a) < 0) \<and>
     (\<forall>a\<in>A. \<forall>b\<in>A. \<forall>c\<in>A. sint (cmp a b) \<le> 0 \<longrightarrow> sint (cmp b c) \<le> 0 \<longrightarrow> sint (cmp a c) \<le> 0)"

definition sorts_by_cmp :: "(('a \<Rightarrow> 'a \<Rightarrow> s32) \<Rightarrow> 'a list \<Rightarrow> 'a list) \<Rightarrow> bool" where
  "sorts_by_cmp list_sort \<longleftrightarrow>
     (\<forall>cmp xs. cmp_preorder cmp (set xs) \<longrightarrow>
        mset (list_sort cmp xs) = mset xs \<and> sorted_wrt (\<lambda>a b. sint (cmp a b) \<le> 0) (list_sort cmp xs))"

text \<open>How good a mode is: preferred modes first, then size, refresh rate and clock.\<close>

definition mode_rank :: "drm_display_mode \<Rightarrow> bool \<times> int \<times> int \<times> int" where
  "mode_rank m = (mode_type m AND DRM_MODE_TYPE_PREFERRED \<noteq> 0, sint (hdisplay m) * sint (vdisplay m),
     sint (mode_vrefresh m), sint (mode_clock m))"

definition mode_comparable :: "drm_display_mode \<Rightarrow> bool" where
  "mode_comparable m \<longleftrightarrow> 0 \<le> sint (hdisplay m) \<and> sint (hdisplay m) \<le> 32767 \<and> 0 \<le> sint (vdisplay m) \<and>
     sint (vdisplay m) \<le> 32767 \<and> 0 \<le> sint (mode_vrefresh m) \<and> 0 \<le> sint (mode_clock m)"

lemma sint_times: "- (2 ^ 31) \<le> sint a * sint b \<Longrightarrow> sint a * sint b < 2 ^ 31 \<Longrightarrow> sint (a * b) = sint a * sint b"
  for a b :: s32
  by (simp add: sint_word_ariths signed_take_bit_int_eq_self)

lemma mode_area:
  assumes "mode_comparable m"
  shows "sint (hdisplay m * vdisplay m) = sint (hdisplay m) * sint (vdisplay m)"
    and "0 \<le> sint (hdisplay m) * sint (vdisplay m)"
proof -
  have "sint (hdisplay m) * sint (vdisplay m) \<le> 32767 * 32767"
    using assms by (intro mult_mono) (simp_all add: mode_comparable_def)
  moreover show p: "0 \<le> sint (hdisplay m) * sint (vdisplay m)"
    using assms by (simp add: mode_comparable_def)
  ultimately show "sint (hdisplay m * vdisplay m) = sint (hdisplay m) * sint (vdisplay m)"
    by (intro sint_times) simp_all
qed

lemma sint_diff_nonneg: "0 \<le> sint a \<Longrightarrow> 0 \<le> sint b \<Longrightarrow> sint (a - b) = sint a - sint b" for a b :: s32
  using sint_range [of a] sint_range [of b] by (intro sint_diff) simp_all

lemma sint_preferred: "sint (mode_preferred m) = (if mode_type m AND DRM_MODE_TYPE_PREFERRED \<noteq> 0 then 1 else 0)"
  by (simp add: mode_preferred_def)

lemma compare_rank:
  assumes a: "mode_comparable a" and b: "mode_comparable b"
  shows "sint (drm_mode_compare a b) \<le> 0 \<longleftrightarrow> mode_rank b \<le> mode_rank a"
    and "sint (drm_mode_compare a b) < 0 \<longleftrightarrow> mode_rank b < mode_rank a"
proof -
  have "sint (mode_preferred b - mode_preferred a) = sint (mode_preferred b) - sint (mode_preferred a)"
    by (rule sint_diff_nonneg) (simp_all add: sint_preferred)
  moreover have "sint (hdisplay b * vdisplay b - hdisplay a * vdisplay a) =
      sint (hdisplay b) * sint (vdisplay b) - sint (hdisplay a) * sint (vdisplay a)"
    using mode_area [OF a] mode_area [OF b] by (subst sint_diff_nonneg) simp_all
  moreover have "sint (mode_vrefresh b - mode_vrefresh a) = sint (mode_vrefresh b) - sint (mode_vrefresh a)"
    "sint (mode_clock b - mode_clock a) = sint (mode_clock b) - sint (mode_clock a)"
    using a b by (simp_all add: sint_diff_nonneg mode_comparable_def)
  moreover have zero: "x \<noteq> 0 \<longleftrightarrow> sint x \<noteq> 0" for x :: s32 by (auto dest: signed_word_eqI [of x 0, simplified])
  ultimately show "sint (drm_mode_compare a b) \<le> 0 \<longleftrightarrow> mode_rank b \<le> mode_rank a"
    "sint (drm_mode_compare a b) < 0 \<longleftrightarrow> mode_rank b < mode_rank a"
    unfolding drm_mode_compare_def Let_def zero unfolding mode_rank_def by (auto simp: sint_preferred)
qed

lemma compare_preorder:
  assumes "\<forall>m\<in>A. mode_comparable m"
  shows "cmp_preorder drm_mode_compare A"
proof -
  have "sint (drm_mode_compare a b) > 0 \<longleftrightarrow> sint (drm_mode_compare b a) < 0" if "a \<in> A" "b \<in> A" for a b
    using assms that compare_rank(1) [of a b] compare_rank(2) [of b a] by (auto simp: not_le [symmetric])
  then show ?thesis
    using assms unfolding cmp_preorder_def by (auto simp: compare_rank)
qed

text \<open>
  Sorting the modes of a connector gives a permutation in which better modes come first: preferred
  modes before others, then larger, faster and higher-clocked ones. The sizes are below 32768, so that
  the product of width and height is no overflow.
\<close>

theorem mode_sort_by_rank:
  assumes "sorts_by_cmp list_sort" and "\<forall>m\<in>set ms. mode_comparable m"
  shows "mset (drm_mode_sort list_sort ms) = mset ms \<and>
    sorted_wrt (\<lambda>a b. mode_rank b \<le> mode_rank a) (drm_mode_sort list_sort ms)"
proof -
  have r: "mset (drm_mode_sort list_sort ms) = mset ms"
    "sorted_wrt (\<lambda>a b. sint (drm_mode_compare a b) \<le> 0) (drm_mode_sort list_sort ms)"
    using assms(1) compare_preorder [OF assms(2)] unfolding sorts_by_cmp_def drm_mode_sort_def by auto
  have "set (drm_mode_sort list_sort ms) = set ms" using r(1) by (rule mset_eq_setD)
  with r(2) assms(2) have "sorted_wrt (\<lambda>a b. mode_rank b \<le> mode_rank a) (drm_mode_sort list_sort ms)"
    by (auto intro: sorted_wrt_mono_rel [rotated] simp: compare_rank)
  with r(1) show ?thesis by simp
qed

text \<open>The contract holds for insertion sort.\<close>

fun insert_by :: "('a \<Rightarrow> 'a \<Rightarrow> s32) \<Rightarrow> 'a \<Rightarrow> 'a list \<Rightarrow> 'a list" where
  "insert_by cmp x [] = [x]"
| "insert_by cmp x (y # ys) = (if sint (cmp x y) \<le> 0 then x # y # ys else y # insert_by cmp x ys)"

definition insertion_sort :: "('a \<Rightarrow> 'a \<Rightarrow> s32) \<Rightarrow> 'a list \<Rightarrow> 'a list" where
  "insertion_sort cmp xs = foldr (insert_by cmp) xs []"

lemma mset_insert_by: "mset (insert_by cmp x ys) = add_mset x (mset ys)"
  by (induction ys) auto

lemma set_insert_by: "set (insert_by cmp x ys) = insert x (set ys)"
  using mset_insert_by [of cmp x ys] by (metis list.simps(15) mset.simps(2) mset_eq_setD)

lemma cmp_preorder_trans:
  "cmp_preorder cmp A \<Longrightarrow> a \<in> A \<Longrightarrow> b \<in> A \<Longrightarrow> c \<in> A \<Longrightarrow> sint (cmp a b) \<le> 0 \<Longrightarrow> sint (cmp b c) \<le> 0 \<Longrightarrow>
   sint (cmp a c) \<le> 0"
  unfolding cmp_preorder_def by blast

lemma cmp_preorder_flip: "cmp_preorder cmp A \<Longrightarrow> a \<in> A \<Longrightarrow> b \<in> A \<Longrightarrow> \<not> sint (cmp a b) \<le> 0 \<Longrightarrow> sint (cmp b a) \<le> 0"
  unfolding cmp_preorder_def by (meson linorder_not_le order_less_imp_le)

lemma cmp_preorder_mono: "cmp_preorder cmp A \<Longrightarrow> B \<subseteq> A \<Longrightarrow> cmp_preorder cmp B"
  unfolding cmp_preorder_def by (meson subsetD)

lemma sorted_insert_by:
  "cmp_preorder cmp (insert x (set ys)) \<Longrightarrow> sorted_wrt (\<lambda>a b. sint (cmp a b) \<le> 0) ys \<Longrightarrow>
   sorted_wrt (\<lambda>a b. sint (cmp a b) \<le> 0) (insert_by cmp x ys)"
proof (induction ys)
  case (Cons y ys)
  have p: "cmp_preorder cmp (insert x (set ys))"
    using Cons.prems(1) by (rule cmp_preorder_mono) auto
  show ?case
  proof (cases "sint (cmp x y) \<le> 0")
    case True
    have "sint (cmp x z) \<le> 0" if "z \<in> set ys" for z
      by (rule cmp_preorder_trans [OF Cons.prems(1), of x y z]) (use True Cons.prems(2) that in simp_all)
    with True Cons.prems(2) show ?thesis by simp
  next
    case False
    have "sint (cmp y x) \<le> 0" by (rule cmp_preorder_flip [OF Cons.prems(1) _ _ False]) simp_all
    with False Cons.IH [OF p] Cons.prems(2) show ?thesis by (simp add: set_insert_by)
  qed
qed simp

lemma insertion_sort_sorts: "sorts_by_cmp insertion_sort"
proof -
  have "mset (insertion_sort cmp xs) = mset xs" for cmp :: "'a \<Rightarrow> 'a \<Rightarrow> s32" and xs
    by (induction xs) (simp_all add: insertion_sort_def mset_insert_by)
  moreover have "sorted_wrt (\<lambda>a b. sint (cmp a b) \<le> 0) (insertion_sort cmp xs)"
    if "cmp_preorder cmp (set xs)" for cmp :: "'a \<Rightarrow> 'a \<Rightarrow> s32" and xs
    using that
  proof (induction xs)
    case (Cons x xs)
    have "set (insertion_sort cmp xs) = set xs" by (metis calculation mset_eq_setD)
    moreover have "cmp_preorder cmp (set xs)" by (rule cmp_preorder_mono [OF Cons.prems]) auto
    ultimately show ?case
      using Cons sorted_insert_by [of cmp x "insertion_sort cmp xs"] by (simp add: insertion_sort_def)
  qed (simp add: insertion_sort_def)
  ultimately show ?thesis by (simp add: sorts_by_cmp_def)
qed

theorem mode_sort_by_rank_witness:
  "sorted_wrt (\<lambda>a b. mode_rank b \<le> mode_rank a)
     (drm_mode_sort insertion_sort [drm_mode_zero 1, (drm_mode_zero 2)\<lparr>mode_type := DRM_MODE_TYPE_PREFERRED\<rparr>])"
  using mode_sort_by_rank [OF insertion_sort_sorts, of "[drm_mode_zero 1, (drm_mode_zero 2)\<lparr>mode_type := DRM_MODE_TYPE_PREFERRED\<rparr>]"]
  by (simp add: mode_comparable_def drm_mode_zero_def)

text \<open>
  Larger sizes, which user space can ask for, overflow: a mode of 65535 times 40000 pixels is sorted
  behind one of 640 times 480.
\<close>

lemma mode_compare_overflow:
  "sint (drm_mode_compare ((drm_mode_zero 1)\<lparr>hdisplay := 640, vdisplay := 480\<rparr>)
     ((drm_mode_zero 2)\<lparr>hdisplay := 65535, vdisplay := 40000\<rparr>)) < 0"
  by (simp add: drm_mode_compare_def mode_preferred_def drm_mode_zero_def)

end
