(* ===== verification/Modes_User.thy ===== *)
theory Modes_User
  imports Modes
begin

text \<open>
  The exchange of modes with user space, the timings for the hardware that are computed from a mode, and
  the form of the name of a mode.
\<close>

unbundle bit_operations_syntax

section \<open>Names\<close>

text \<open>A C string ends at its first zero byte.\<close>

definition c_string :: "string \<Rightarrow> string" where
  "c_string s = takeWhile (\<lambda>c. c \<noteq> NUL) s"

definition name_wf :: "string \<Rightarrow> bool" where
  "name_wf s \<longleftrightarrow> length s = DRM_DISPLAY_MODE_LEN \<and> s ! (DRM_DISPLAY_MODE_LEN - 1) = NUL"

lemma takeWhile_take: "takeWhile P (take k xs) = take k (takeWhile P xs)"
  by (induction xs arbitrary: k) (auto simp: take_Cons split: nat.splits)

lemma strncpy_terminated:
  "(strncpy s (Suc k))[k := NUL] = take k (c_string s) @ replicate (Suc k - length (take k (c_string s))) NUL"
proof (cases "length (c_string s) \<le> k")
  case True
  then have "(replicate (Suc k - length (c_string s)) NUL)[k - length (c_string s) := NUL] =
      replicate (Suc k - length (c_string s)) NUL"
    by (simp add: list_update_same_conv)
  with True show ?thesis
    by (simp add: strncpy_def Let_def takeWhile_take c_string_def list_update_append)
next
  case False
  then show ?thesis
    by (simp add: strncpy_def Let_def takeWhile_take c_string_def list_update_append take_Suc_conv_app_nth Suc_diff_le)
qed

lemma umode_name: "umode_name s = take 31 (c_string s) @ replicate (32 - length (take 31 (c_string s))) NUL"
  using strncpy_terminated [of s 31] by (simp add: umode_name_def DRM_DISPLAY_MODE_LEN_def del: take_all_iff length_take)

lemma set_c_string: "c \<in> set (c_string s) \<Longrightarrow> c \<noteq> NUL"
  unfolding c_string_def by (auto dest: set_takeWhileD)

lemma c_string_padded: "c_string (take k (c_string s) @ replicate (Suc n) NUL) = take k (c_string s)"
proof -
  have "c_string (xs @ NUL # ys) = xs" if "\<forall>c\<in>set xs. c \<noteq> NUL" for xs ys
    using that by (simp add: c_string_def takeWhile_append)
  moreover have "\<forall>c\<in>set (take k (c_string s)). c \<noteq> NUL"
    by (auto dest: in_set_takeD set_c_string)
  ultimately show ?thesis by simp
qed

lemma umode_name_string: "c_string (umode_name s) = take 31 (c_string s)"
proof -
  have "length (take 31 (c_string s)) \<le> 31" by simp
  then have "32 - length (take 31 (c_string s)) = Suc (31 - length (take 31 (c_string s)))" by linarith
  then show ?thesis
    using c_string_padded [of 31 s] unfolding umode_name by simp
qed

lemma umode_name_idem: "umode_name (umode_name s) = umode_name s"
  by (simp add: umode_name [of "umode_name s"] umode_name_string del: length_take) (simp add: umode_name)

lemma umode_name_wf: "name_wf (umode_name s)"
  by (auto simp: umode_name name_wf_def DRM_DISPLAY_MODE_LEN_def nth_append)

lemma snprintf_wf: "name_wf buf \<Longrightarrow> name_wf (snprintf buf s)"
  by (auto simp: snprintf_def name_wf_def DRM_DISPLAY_MODE_LEN_def Let_def nth_append nth_Cons' min_def)

lemma snprintf_string:
  assumes "length s < length buf" and "NUL \<notin> set s"
  shows "c_string (snprintf buf s) = s"
  using assms by (auto simp: snprintf_def Let_def c_string_def takeWhile_append)

lemma of_char_digit: "d < 10 \<Longrightarrow> of_char (digit_char d) = (48 + d :: nat)"
  by (simp add: digit_char_def)

lemma digit_char_not_NUL: "d < 10 \<Longrightarrow> digit_char d \<noteq> NUL"
  using of_char_digit [of d] by (auto simp: NUL_def)

lemma length_dec_nat: "n < 10 ^ Suc k \<Longrightarrow> length (dec_nat n) \<le> Suc k"
proof (induction k arbitrary: n)
  case (Suc k)
  then have "n div 10 < 10 ^ Suc k" by (simp add: div_less_iff_less_mult)
  with Suc.IH [of "n div 10"] show ?case by (simp add: dec_nat.simps [of n])
qed (simp add: dec_nat.simps)

lemma dec_nat_digits: "c \<in> set (dec_nat n) \<Longrightarrow> \<exists>d<10. c = digit_char d"
proof (induction n rule: dec_nat.induct)
  case (1 n)
  then show ?case by (subst (asm) (2) dec_nat.simps) (auto split: if_splits intro: exI [of _ "n mod 10"])
qed

lemma dec_int_props:
  assumes "- (2 ^ 31) \<le> k" and "k < 2 ^ 31"
  shows "length (dec_int k) \<le> 11" "NUL \<notin> set (dec_int k)"
proof -
  have "nat (- k) < 10 ^ Suc 9" "nat k < 10 ^ Suc 9" using assms by simp_all
  then show "length (dec_int k) \<le> 11"
    using length_dec_nat [of "nat (- k)" 9] length_dec_nat [of "nat k" 9] by (simp add: dec_int_def)
  show "NUL \<notin> set (dec_int k)"
  proof -
    have "NUL \<notin> set (dec_nat n)" for n by (metis dec_nat_digits digit_char_not_NUL)
    moreover have "NUL \<noteq> CHR ''-''" by (simp add: NUL_def)
    ultimately show ?thesis by (simp add: dec_int_def)
  qed
qed

lemma set_name_wf: "name_wf (mode_name m) \<Longrightarrow> name_wf (mode_name (drm_mode_set_name m))"
  by (simp add: drm_mode_set_name_def Let_def snprintf_wf)

text \<open>The name always fits into the array.\<close>

lemma set_name_string:
  assumes "name_wf (mode_name m)"
  shows "c_string (mode_name (drm_mode_set_name m)) =
    dec_int (sint (hdisplay m)) @ ''x'' @ dec_int (sint (vdisplay m)) @
      (if mode_flags m AND DRM_MODE_FLAG_INTERLACE \<noteq> 0 then ''i'' else [])"
proof -
  define s where "s = dec_int (sint (hdisplay m)) @ ''x'' @ dec_int (sint (vdisplay m)) @
      (if mode_flags m AND DRM_MODE_FLAG_INTERLACE \<noteq> 0 then ''i'' else [])"
  have "length s \<le> 24" "NUL \<notin> set s"
    using dec_int_props [OF sint_range [of "hdisplay m"]] dec_int_props [OF sint_range [of "vdisplay m"]]
    by (simp_all add: s_def) (simp_all add: NUL_def)
  then have "c_string (snprintf (mode_name m) s) = s"
    using assms by (intro snprintf_string) (simp_all add: name_wf_def DRM_DISPLAY_MODE_LEN_def)
  then show ?thesis by (simp add: drm_mode_set_name_def Let_def s_def)
qed

section \<open>Timings for the hardware\<close>

text \<open>The vertical timings of the hardware are in order and at most \<open>N\<close>.\<close>

definition crtc_v_ordered :: "int \<Rightarrow> drm_crtc_timing \<Rightarrow> bool" where
  "crtc_v_ordered N c \<longleftrightarrow> 0 \<le> sint (crtc_vdisplay c) \<and> sint (crtc_vdisplay c) \<le> sint (crtc_vsync_start c) \<and>
     sint (crtc_vsync_start c) \<le> sint (crtc_vsync_end c) \<and> sint (crtc_vsync_end c) \<le> sint (crtc_vtotal c) \<and>
     sint (crtc_vtotal c) \<le> N"

lemma crtc_map_v_ordered:
  assumes "crtc_v_ordered N c" and "\<And>x. 0 \<le> sint x \<Longrightarrow> sint x \<le> N \<Longrightarrow> sint (f x) = g (sint x)"
    and "\<And>x y. 0 \<le> x \<Longrightarrow> x \<le> y \<Longrightarrow> y \<le> N \<Longrightarrow> 0 \<le> g x \<and> g x \<le> g y \<and> g y \<le> M"
  shows "crtc_v_ordered M (crtc_map_v f c)"
proof -
  note o = assms(1) [unfolded crtc_v_ordered_def]
  show ?thesis
    using o assms(3) [of "sint (crtc_vdisplay c)" "sint (crtc_vsync_start c)"]
      assms(3) [of "sint (crtc_vsync_start c)" "sint (crtc_vsync_end c)"]
      assms(3) [of "sint (crtc_vsync_end c)" "sint (crtc_vtotal c)"]
    by (simp add: crtc_v_ordered_def crtc_map_v_def assms(2))
qed

lemma crtc_v_ordered_mono: "crtc_v_ordered N c \<Longrightarrow> N \<le> M \<Longrightarrow> crtc_v_ordered M c"
  by (simp add: crtc_v_ordered_def)

lemma crtc_v_halve: "crtc_v_ordered N c \<Longrightarrow> crtc_v_ordered N (crtc_map_v (\<lambda>x. s32_div x 2) c)"
proof (rule crtc_map_v_ordered [where g = "\<lambda>k. k div 2"])
  show "sint (s32_div x 2) = sint x div 2" if "0 \<le> sint x" for x :: s32
    using s32_div_pos [of x 2] that by simp
qed (auto simp: zdiv_mono1)

lemma crtc_v_scale:
  assumes "crtc_v_ordered N c" and "1 \<le> sint w" and "N * sint w < 2 ^ 31"
  shows "crtc_v_ordered (N * sint w) (crtc_map_v (\<lambda>x. x * w) c)"
proof (rule crtc_map_v_ordered [OF assms(1), where g = "\<lambda>k. k * sint w"])
  fix x :: s32
  assume "0 \<le> sint x" "sint x \<le> N"
  then have "0 \<le> sint x * sint w" "sint x * sint w \<le> N * sint w"
    using assms(2) by (simp_all add: mult_right_mono)
  then show "sint (x * w) = sint x * sint w"
    using assms(3) by (simp add: sint_word_ariths signed_take_bit_int_eq_self)
qed (use assms(2) in \<open>auto intro: mult_right_mono\<close>)

lemma crtc_v_shift:
  assumes "crtc_v_ordered N c" and "2 * N < 2 ^ 31"
  shows "crtc_v_ordered (2 * N) (crtc_map_v (\<lambda>x. x + crtc_vtotal c) c)"
proof (rule crtc_map_v_ordered [OF assms(1), where g = "\<lambda>k. k + sint (crtc_vtotal c)"])
  have t: "0 \<le> sint (crtc_vtotal c)" "sint (crtc_vtotal c) \<le> N" using assms(1) by (simp_all add: crtc_v_ordered_def)
  then show "sint (x + crtc_vtotal c) = sint x + sint (crtc_vtotal c)" if "0 \<le> sint x" "sint x \<le> N" for x :: s32
    using that assms(2) by (intro sint_plus) simp_all
  show "0 \<le> x + sint (crtc_vtotal c) \<and> x + sint (crtc_vtotal c) \<le> y + sint (crtc_vtotal c) \<and> y + sint (crtc_vtotal c) \<le> 2 * N"
    if "0 \<le> x" "x \<le> y" "y \<le> N" for x y using that t by simp
qed

lemma validate_ok:
  assumes "drm_mode_validate_basic m = MODE_OK"
  shows "sint (hdisplay m) \<le> sint (hsync_start m) \<and> sint (hsync_start m) \<le> sint (hsync_end m) \<and>
    sint (hsync_end m) \<le> sint (htotal m) \<and> sint (vdisplay m) \<le> sint (vsync_start m) \<and>
    sint (vsync_start m) \<le> sint (vsync_end m) \<and> sint (vsync_end m) \<le> sint (vtotal m) \<and>
    mode_clock m \<noteq> 0 \<and> hdisplay m \<noteq> 0 \<and> vdisplay m \<noteq> 0"
  using assms by (auto simp: drm_mode_validate_basic_def split: if_splits)

lemma mode_crtc_updated: "mode_crtc (m\<lparr>mode_crtc := c\<rparr>) = c"
  by simp

lemma s32_min_le: "sint a \<le> sint b \<Longrightarrow> s32_min b a = a"
  and s32_max_le: "sint a \<le> sint b \<Longrightarrow> s32_max a b = b"
  by (auto simp: s32_min_def s32_max_def intro: signed_word_eqI)

text \<open>
  C36. The timings for the hardware of a valid mode are ordered for every combination of interlacing,
  double scanning, multiple scans and stereo: active area, start and end of the sync pulse, total. The
  blanking interval starts right after the active area and ends with the line or frame. The total
  height times the number of scans must be below an eighth of the range of the type.
\<close>

theorem crtcinfo_ordered:
  assumes "drm_mode_validate_basic m = MODE_OK" and "0 \<le> sint (hdisplay m)" and "0 \<le> sint (vdisplay m)"
    and "4 * (sint (vtotal m) * max 1 (sint (vscan m))) < 2 ^ 31"
    and "mode_type m AND DRM_MODE_TYPE_CRTC_C \<noteq> DRM_MODE_TYPE_BUILTIN"
    and "c = mode_crtc (drm_mode_set_crtcinfo m adjust_flags)"
  shows "crtc_hdisplay c = hdisplay m \<and> crtc_htotal c = htotal m \<and> crtc_hblank_start c = crtc_hdisplay c \<and>
    crtc_hblank_end c = crtc_htotal c \<and> sint (crtc_hdisplay c) \<le> sint (crtc_hsync_start c) \<and>
    sint (crtc_hsync_start c) \<le> sint (crtc_hsync_end c) \<and> sint (crtc_hsync_end c) \<le> sint (crtc_htotal c) \<and>
    0 \<le> sint (crtc_vdisplay c) \<and> crtc_vblank_start c = crtc_vdisplay c \<and> crtc_vblank_end c = crtc_vtotal c \<and>
    sint (crtc_vdisplay c) \<le> sint (crtc_vsync_start c) \<and> sint (crtc_vsync_start c) \<le> sint (crtc_vsync_end c) \<and>
    sint (crtc_vsync_end c) \<le> sint (crtc_vtotal c)"
proof -
  note v = validate_ok [OF assms(1)]
  define V where "V = sint (vtotal m)"
  define k where "k = max 1 (sint (vscan m))"
  have V: "0 \<le> V" and k: "1 \<le> k" and Vk: "4 * (V * k) < 2 ^ 31" "V \<le> V * k"
    using v assms(3,4) by (simp_all add: V_def k_def mult_le_cancel_left1)
  define c0 where "c0 = (mode_crtc m)\<lparr>crtc_clock := mode_clock m, crtc_hdisplay := hdisplay m,
    crtc_hsync_start := hsync_start m, crtc_hsync_end := hsync_end m, crtc_htotal := htotal m,
    crtc_hskew := hskew m, crtc_vdisplay := vdisplay m, crtc_vsync_start := vsync_start m,
    crtc_vsync_end := vsync_end m, crtc_vtotal := vtotal m\<rparr>"
  define c1 where "c1 = (if mode_flags m AND DRM_MODE_FLAG_INTERLACE \<noteq> 0 \<and> adjust_flags AND CRTC_INTERLACE_HALVE_V \<noteq> 0
    then crtc_map_v (\<lambda>x. s32_div x 2) c0 else c0)"
  define c2 where "c2 = (if adjust_flags AND CRTC_NO_DBLSCAN = 0 \<and> mode_flags m AND DRM_MODE_FLAG_DBLSCAN \<noteq> 0
    then crtc_map_v (\<lambda>x. x * 2) c1 else c1)"
  define c3 where "c3 = (if adjust_flags AND CRTC_NO_VSCAN = 0 \<and> sint (vscan m) > 1
    then crtc_map_v (\<lambda>x. x * vscan m) c2 else c2)"
  define c4 where "c4 = (if adjust_flags AND CRTC_STEREO_DOUBLE \<noteq> 0 \<and>
      mode_flags m AND DRM_MODE_FLAG_3D_MASK = DRM_MODE_FLAG_3D_FRAME_PACKING
    then crtc_map_v (\<lambda>x. x + crtc_vtotal c3) (c3\<lparr>crtc_clock := crtc_clock c3 * 2\<rparr>) else c3)"
  have "crtc_v_ordered V c0" using v assms(3) by (simp add: crtc_v_ordered_def c0_def V_def)
  then have "crtc_v_ordered V c1" by (simp add: c1_def crtc_v_halve)
  then have "crtc_v_ordered (2 * V) c2"
    using crtc_v_scale [of V c1 2] V Vk by (auto simp: c2_def mult.commute intro: crtc_v_ordered_mono)
  then have o3: "crtc_v_ordered (2 * (V * k)) c3"
    using crtc_v_scale [of "2 * V" c2 "vscan m"] V Vk
    by (auto simp: c3_def k_def mult.assoc intro: crtc_v_ordered_mono)
  then have "crtc_v_ordered (2 * (V * k)) (c3\<lparr>crtc_clock := x\<rparr>)" for x by (simp add: crtc_v_ordered_def)
  from crtc_v_shift [OF this] o3 V k Vk(1) have o4: "crtc_v_ordered (4 * (V * k)) c4"
    by (auto simp: c4_def intro: crtc_v_ordered_mono)
  have h: "crtc_hdisplay c4 = hdisplay m" "crtc_htotal c4 = htotal m" "crtc_hsync_start c4 = hsync_start m"
    "crtc_hsync_end c4 = hsync_end m"
    by (simp_all add: c4_def c3_def c2_def c1_def c0_def crtc_map_v_def)
  have "c = c4\<lparr>crtc_vblank_start := s32_min (crtc_vsync_start c4) (crtc_vdisplay c4),
      crtc_vblank_end := s32_max (crtc_vsync_end c4) (crtc_vtotal c4),
      crtc_hblank_start := s32_min (crtc_hsync_start c4) (crtc_hdisplay c4),
      crtc_hblank_end := s32_max (crtc_hsync_end c4) (crtc_htotal c4)\<rparr>"
    unfolding assms(6) drm_mode_set_crtcinfo_def Let_def if_not_P [OF assms(5)] c4_def c3_def c2_def c1_def c0_def
    by (rule mode_crtc_updated)
  with o4 v h show ?thesis by (simp add: crtc_v_ordered_def s32_min_le s32_max_le)
qed

definition mode_1080i :: drm_display_mode where
  "mode_1080i = (drm_mode_zero 1)\<lparr>mode_clock := 74250, hdisplay := 1920, hsync_start := 2008, hsync_end := 2052,
     htotal := 2200, vdisplay := 1080, vsync_start := 1084, vsync_end := 1094, vtotal := 1125,
     mode_flags := DRM_MODE_FLAG_INTERLACE\<rparr>"

theorem crtcinfo_ordered_witness:
  "crtc_vblank_start (mode_crtc (drm_mode_set_crtcinfo mode_1080i CRTC_INTERLACE_HALVE_V)) =
     crtc_vdisplay (mode_crtc (drm_mode_set_crtcinfo mode_1080i CRTC_INTERLACE_HALVE_V))"
proof -
  have "drm_mode_validate_basic mode_1080i = MODE_OK" "0 \<le> sint (hdisplay mode_1080i)" "0 \<le> sint (vdisplay mode_1080i)"
    "4 * (sint (vtotal mode_1080i) * max 1 (sint (vscan mode_1080i))) < 2 ^ 31"
    "mode_type mode_1080i AND DRM_MODE_TYPE_CRTC_C \<noteq> DRM_MODE_TYPE_BUILTIN"
    by (simp_all add: mode_1080i_def drm_mode_zero_def drm_mode_validate_basic_def mode_consts)
  from crtcinfo_ordered [OF this refl] show ?thesis by simp
qed

section \<open>Exchange with user space\<close>

lemma sint_ucast_u16: "sint (ucast x :: s32) = uint x" for x :: u16
proof -
  have "uint x < 2 ^ 16" using uint_lt2p [of x] by simp
  moreover have "- (2 ^ 31) \<le> uint x" by (rule order_trans [OF _ uint_ge_0]) simp
  ultimately have "signed_take_bit 31 (uint x) = uint x" by (intro signed_take_bit_int_eq_self) simp_all
  then show ?thesis by (simp add: signed_ucast_eq)
qed

lemma ucast_u16: "(ucast (ucast x :: s32) :: u16) = x"
  by (rule bit_word_eqI) (simp add: bit_simps)

lemma ucast_u16_zero: "(ucast x :: s32) = 0 \<longleftrightarrow> x = 0" for x :: u16
  by (metis ucast_0 ucast_u16)

text \<open>The modes that user space may set.\<close>

definition umode_valid :: "drm_mode_modeinfo \<Rightarrow> bool" where
  "umode_valid u \<longleftrightarrow> 0 < u_clock u \<and> u_clock u \<le> 0x7fffffff \<and> u_vrefresh u \<le> 0x7fffffff \<and>
     u_flags u AND DRM_MODE_FLAG_3D_MASK \<le> DRM_MODE_FLAG_3D_MAX \<and>
     0 < u_hdisplay u \<and> u_hdisplay u \<le> u_hsync_start u \<and> u_hsync_start u \<le> u_hsync_end u \<and> u_hsync_end u \<le> u_htotal u \<and>
     0 < u_vdisplay u \<and> u_vdisplay u \<le> u_vsync_start u \<and> u_vsync_start u \<le> u_vsync_end u \<and> u_vsync_end u \<le> u_vtotal u"

lemma set_crtcinfo_fields:
  obtains c where "drm_mode_set_crtcinfo m adjust_flags = m\<lparr>mode_crtc := c\<rparr>"
proof (cases "mode_type m AND DRM_MODE_TYPE_CRTC_C = DRM_MODE_TYPE_BUILTIN")
  case True
  then have "drm_mode_set_crtcinfo m adjust_flags = m\<lparr>mode_crtc := mode_crtc m\<rparr>" by (simp add: drm_mode_set_crtcinfo_def)
  then show thesis by (rule that)
next
  case False
  show thesis by (rule that) (unfold drm_mode_set_crtcinfo_def Let_def if_not_P [OF False], rule refl)
qed

text \<open>The mode after all members have been copied from \<open>u\<close>.\<close>

definition umode_fields :: "drm_display_mode \<Rightarrow> drm_mode_modeinfo \<Rightarrow> bool" where
  "umode_fields m u \<longleftrightarrow> drm_mode_convert_to_umode m = u\<lparr>u_name := umode_name (u_name u)\<rparr> \<and>
     mode_name m = umode_name (u_name u) \<and> mode_status m = MODE_OK \<and> drm_mode_validate_basic m = MODE_OK"

lemma convert_umode_cases:
  "fst (drm_mode_convert_umode out u) = None \<longleftrightarrow> umode_valid u"
  "fst (drm_mode_convert_umode out u) = Some ERANGE \<longleftrightarrow> u_clock u > 0x7fffffff \<or> u_vrefresh u > 0x7fffffff"
proof -
  have pos: "0 < x \<longleftrightarrow> x \<noteq> 0" for x :: "'a::len word" by (simp add: word_neq_0_conv)
  show "fst (drm_mode_convert_umode out u) = None \<longleftrightarrow> umode_valid u"
    by (auto simp: drm_mode_convert_umode_def Let_def drm_mode_validate_basic_def umode_valid_def sint_ucast_u16
        ucast_u16_zero word_le_def [where 'a = 16] not_less pos)
  show "fst (drm_mode_convert_umode out u) = Some ERANGE \<longleftrightarrow> u_clock u > 0x7fffffff \<or> u_vrefresh u > 0x7fffffff"
    by (auto simp: drm_mode_convert_umode_def Let_def)
qed

lemma convert_umode_accepted:
  assumes "drm_mode_convert_umode out u = (None, m)"
  shows "umode_fields m u"
proof -
  define out2 where "out2 = out\<lparr>mode_clock := u_clock u, hdisplay := ucast (u_hdisplay u),
    hsync_start := ucast (u_hsync_start u), hsync_end := ucast (u_hsync_end u),
    htotal := ucast (u_htotal u), hskew := ucast (u_hskew u), vdisplay := ucast (u_vdisplay u),
    vsync_start := ucast (u_vsync_start u), vsync_end := ucast (u_vsync_end u),
    vtotal := ucast (u_vtotal u), vscan := ucast (u_vscan u), mode_vrefresh := u_vrefresh u,
    mode_flags := u_flags u, mode_type := u_type u, mode_name := umode_name (u_name u)\<rparr>"
  have ok: "drm_mode_validate_basic out2 = MODE_OK"
    and m: "m = drm_mode_set_crtcinfo (out2\<lparr>mode_status := drm_mode_validate_basic out2\<rparr>) CRTC_INTERLACE_HALVE_V"
    using assms unfolding drm_mode_convert_umode_def Let_def out2_def [symmetric] by (auto split: if_splits)
  from set_crtcinfo_fields obtain c where "m = out2\<lparr>mode_status := MODE_OK, mode_crtc := c\<rparr>"
    unfolding m ok by metis
  moreover from this have "drm_mode_validate_basic m = drm_mode_validate_basic out2"
    by (simp add: drm_mode_validate_basic_def)
  ultimately show ?thesis
    by (simp add: umode_fields_def ok) (simp add: out2_def drm_mode_convert_to_umode_def ucast_u16 umode_name_idem)
qed

text \<open>
  C37. A mode of user space is accepted iff its timings are ordered and not empty, the clock and refresh
  rate fit into a positive number and the stereo layout exists; too large numbers are \<open>ERANGE\<close>,
  everything else is \<open>EINVAL\<close>. An accepted mode is valid, and converting it back gives the same mode,
  with a name that is cut after 31 characters.
\<close>

theorem umode_exchange:
  "(fst (drm_mode_convert_umode out u) = None \<longleftrightarrow> umode_valid u) \<and>
   (fst (drm_mode_convert_umode out u) = Some ERANGE \<longleftrightarrow> u_clock u > 0x7fffffff \<or> u_vrefresh u > 0x7fffffff) \<and>
   fst (drm_mode_convert_umode out u) \<in> {None, Some ERANGE, Some EINVAL} \<and>
   (\<forall>m. drm_mode_convert_umode out u = (None, m) \<longrightarrow>
      drm_mode_validate_basic m = MODE_OK \<and> mode_status m = MODE_OK \<and>
      drm_mode_convert_to_umode m = u\<lparr>u_name := umode_name (u_name u)\<rparr> \<and>
      c_string (u_name (drm_mode_convert_to_umode m)) = take 31 (c_string (u_name u)))"
proof -
  have "fst (drm_mode_convert_umode out u) \<in> {None, Some ERANGE, Some EINVAL}"
    by (simp add: drm_mode_convert_umode_def Let_def)
  then show ?thesis
    using convert_umode_accepted [of out u] by (auto simp: convert_umode_cases umode_fields_def umode_name_string)
qed

definition umode_640 :: drm_mode_modeinfo where
  "umode_640 = \<lparr>u_clock = 25175, u_hdisplay = 640, u_hsync_start = 656, u_hsync_end = 752, u_htotal = 800, u_hskew = 0,
     u_vdisplay = 480, u_vsync_start = 490, u_vsync_end = 492, u_vtotal = 525, u_vscan = 0, u_vrefresh = 60,
     u_flags = 10, u_type = 64, u_name = ''640x480'' @ replicate 25 NUL\<rparr>"

theorem umode_exchange_witness:
  "umode_valid umode_640 \<and>
   drm_mode_convert_to_umode (snd (drm_mode_convert_umode (drm_mode_zero 1) umode_640)) =
     umode_640\<lparr>u_name := umode_name (u_name umode_640)\<rparr>"
proof -
  have v: "umode_valid umode_640" by (simp add: umode_valid_def umode_640_def mode_consts)
  then have "fst (drm_mode_convert_umode (drm_mode_zero 1) umode_640) = None" using umode_exchange by blast
  then have "drm_mode_convert_umode (drm_mode_zero 1) umode_640 =
      (None, snd (drm_mode_convert_umode (drm_mode_zero 1) umode_640))"
    by (simp add: prod_eq_iff)
  then show ?thesis using umode_exchange v by blast
qed

text \<open>
  The number of scans is not checked: an accepted mode may have a negative total height for the hardware.
\<close>

lemma umode_vscan_overflow:
  "fst (drm_mode_convert_umode (drm_mode_zero 1) (umode_640\<lparr>u_vtotal := 60000, u_vscan := 60000\<rparr>)) = None \<and>
   sint (crtc_vtotal (mode_crtc (snd (drm_mode_convert_umode (drm_mode_zero 1)
     (umode_640\<lparr>u_vtotal := 60000, u_vscan := 60000\<rparr>))))) < 0"
  by (simp add: drm_mode_convert_umode_def umode_640_def drm_mode_validate_basic_def drm_mode_set_crtcinfo_def
      drm_mode_zero_def crtc_map_v_def mode_consts Let_def)

section \<open>Well-formed modes\<close>

text \<open>The name is an array of 32 bytes that contains a terminated string.\<close>

lemma cvt_blanking_name:
  assumes "cvt_blanking m lines rate interlace vsync = Some (m', hperiod)"
  shows "mode_name m' = mode_name m"
  using assms by (auto simp: cvt_blanking_def Let_def bind_eq_Some_conv)

lemma cvt_reduced_name:
  assumes "cvt_reduced_blanking m lines rate vsync = Some (m', hperiod)"
  shows "mode_name m' = mode_name m"
  using assms by (auto simp: cvt_reduced_blanking_def Let_def bind_eq_Some_conv)

lemma set_name_fields:
  obtains s where "drm_mode_set_name m = m\<lparr>mode_name := s\<rparr>"
  unfolding drm_mode_set_name_def Let_def by blast

lemma name_wf_zero: "name_wf (mode_name (drm_mode_zero n))"
  by (simp add: drm_mode_zero_def name_wf_def DRM_DISPLAY_MODE_LEN_def)

lemma cvt_finish_name: "name_wf (mode_name m) \<Longrightarrow> name_wf (mode_name (cvt_finish m hperiod reduced interlaced))"
  by (auto simp: cvt_finish_def Let_def set_name_wf)

lemma cvt_name_wf: "drm_cvt_mode alloc h v r reduced interlaced margins = Some (Some m) \<Longrightarrow> name_wf (mode_name m)"
  unfolding drm_cvt_mode_def Let_def
  by (auto simp: drm_mode_create_def bind_eq_Some_conv name_wf_zero split: option.splits if_splits
      dest!: cvt_blanking_name cvt_reduced_name intro!: cvt_finish_name)

lemma gtf_pack_name: "name_wf (mode_name m) \<Longrightarrow> name_wf (mode_name (gtf_pack m hr hf hs tp vd vt pf interlaced standard))"
  by (auto simp: gtf_pack_def Let_def set_name_wf)

lemma gtf_result:
  assumes "drm_gtf_mode_complex alloc h v r interlaced margins GTF_M GTF_2C GTF_K GTF_2J = Some (Some m)"
  obtains new_id hr hf hs tp vd vt pf standard
  where "alloc = Some new_id" "m = gtf_pack (drm_mode_zero new_id) hr hf hs tp vd vt pf interlaced standard"
  using assms unfolding drm_gtf_mode_complex_def drm_mode_create_def
  by (cases alloc) (simp_all only: option.map option.case bind_eq_Some_conv Let_def option.inject option.distinct, blast+)

lemma gtf_name_wf:
  "drm_gtf_mode_complex alloc h v r interlaced margins GTF_M GTF_2C GTF_K GTF_2J = Some (Some m) \<Longrightarrow> name_wf (mode_name m)"
  by (elim gtf_result) (simp add: gtf_pack_name name_wf_zero)

text \<open>
  An interlaced mode of the generalized timing formula does not have the interlace flag, because the
  flags are overwritten at the end.
\<close>

lemma gtf_never_interlaced:
  assumes "drm_gtf_mode_complex alloc h v r interlaced margins GTF_M GTF_2C GTF_K GTF_2J = Some (Some m)"
  shows "mode_flags m AND DRM_MODE_FLAG_INTERLACE = 0"
  using assms by (elim gtf_result) (simp add: gtf_pack_def Let_def mode_consts)

lemma set_crtcinfo_name: "mode_name (drm_mode_set_crtcinfo m adjust_flags) = mode_name m"
  by (rule set_crtcinfo_fields [of m adjust_flags]) simp

lemma fixup_name_wf: "name_wf (mode_name m) \<Longrightarrow> name_wf (mode_name (drm_mode_fixup_1366x768 m))"
  by (simp add: drm_mode_fixup_1366x768_def set_name_wf)

lemma cmdline_mode_name_wf:
  assumes "drm_mode_create_from_cmdline_mode alloc cmd = Some (Some m)"
  shows "name_wf (mode_name m)"
proof -
  define refr where "refr = (if cmd_refresh_specified cmd then cmd_refresh cmd else 60)"
  obtain z where z: "(if cmd_cvt cmd
      then drm_cvt_mode alloc (cmd_xres cmd) (cmd_yres cmd) refr (cmd_rb cmd) (cmd_interlace cmd) (cmd_margins cmd)
      else drm_gtf_mode alloc (cmd_xres cmd) (cmd_yres cmd) refr (cmd_interlace cmd) (cmd_margins cmd)) = Some (Some z)"
    and m: "m = drm_mode_set_crtcinfo (if cmd_xres cmd = 1366
      then drm_mode_fixup_1366x768 (z\<lparr>mode_type := mode_type z OR DRM_MODE_TYPE_USERDEF\<rparr>)
      else z\<lparr>mode_type := mode_type z OR DRM_MODE_TYPE_USERDEF\<rparr>) CRTC_INTERLACE_HALVE_V"
    using assms unfolding drm_mode_create_from_cmdline_mode_def Let_def refr_def [symmetric]
    by (auto simp: bind_eq_Some_conv)
  have "name_wf (mode_name z)"
    using z by (cases "cmd_cvt cmd") (auto simp: drm_gtf_mode_def intro: cvt_name_wf gtf_name_wf)
  then show ?thesis by (simp add: m set_crtcinfo_name fixup_name_wf)
qed

lemma convert_umode_name_wf: "name_wf (mode_name m) \<Longrightarrow> name_wf (mode_name (snd (drm_mode_convert_umode m u)))"
  by (simp add: drm_mode_convert_umode_def Let_def set_crtcinfo_name umode_name_wf)

lemma from_videomode_name_wf: "name_wf (mode_name m) \<Longrightarrow> name_wf (mode_name (drm_display_mode_from_videomode vm m))"
  unfolding drm_display_mode_from_videomode_def Let_def by (intro set_name_wf) simp

text \<open>
  C38. Every function that creates or changes a mode keeps its name an array of 32 bytes that ends with a
  zero, and the generated names are never cut: they are the width, an x, the height and an i for
  interlaced modes.
\<close>

theorem mode_names_wf:
  "(\<forall>m. drm_mode_create alloc = Some m \<longrightarrow> name_wf (mode_name m)) \<and>
   (\<forall>m. drm_cvt_mode alloc h v r reduced interlaced margins = Some (Some m) \<longrightarrow> name_wf (mode_name m)) \<and>
   (\<forall>m. drm_gtf_mode_complex alloc h v r interlaced margins GTF_M GTF_2C GTF_K GTF_2J = Some (Some m) \<longrightarrow>
      name_wf (mode_name m)) \<and>
   (\<forall>m. drm_mode_create_from_cmdline_mode alloc cmd = Some (Some m) \<longrightarrow> name_wf (mode_name m)) \<and>
   (name_wf (mode_name a) \<longrightarrow>
      name_wf (mode_name (drm_mode_copy b a)) \<and>
      name_wf (mode_name (drm_mode_fixup_1366x768 a)) \<and>
      name_wf (mode_name (drm_mode_set_crtcinfo a adjust_flags)) \<and>
      name_wf (mode_name (drm_display_mode_from_videomode vm a)) \<and>
      name_wf (mode_name (snd (drm_mode_convert_umode a u))) \<and>
      name_wf (mode_name (drm_mode_set_name a)) \<and>
      c_string (mode_name (drm_mode_set_name a)) =
        dec_int (sint (hdisplay a)) @ ''x'' @ dec_int (sint (vdisplay a)) @
          (if mode_flags a AND DRM_MODE_FLAG_INTERLACE \<noteq> 0 then ''i'' else []))"
proof -
  have "name_wf (mode_name m)" if "drm_mode_create alloc = Some m" for m
    using that name_wf_zero by (auto simp: drm_mode_create_def)
  moreover have "mode_name (drm_mode_copy b a) = mode_name a" by (simp add: drm_mode_copy_def)
  ultimately show ?thesis
    by (intro conjI allI impI)
      (simp_all only: cvt_name_wf gtf_name_wf cmdline_mode_name_wf fixup_name_wf set_crtcinfo_name from_videomode_name_wf
        convert_umode_name_wf set_name_wf set_name_string)
qed

theorem mode_names_wf_witness:
  "c_string (mode_name (drm_mode_set_name mode_1080i)) = ''1920x1080i''"
proof -
  have "name_wf (mode_name mode_1080i)"
    by (simp add: mode_1080i_def drm_mode_zero_def name_wf_def DRM_DISPLAY_MODE_LEN_def)
  then have "c_string (mode_name (drm_mode_set_name mode_1080i)) =
        dec_int (sint (hdisplay mode_1080i)) @ ''x'' @ dec_int (sint (vdisplay mode_1080i)) @
          (if mode_flags mode_1080i AND DRM_MODE_FLAG_INTERLACE \<noteq> 0 then ''i'' else [])"
    using mode_names_wf by blast
  moreover have "dec_int 1920 = ''1920''" "dec_int 1080 = ''1080''" by code_simp+
  ultimately show ?thesis by (simp add: mode_1080i_def mode_consts)
qed

end
