(* ===== verification/Modes_Cmdline.thy ===== *)
theory Modes_Cmdline
  imports Modes
begin

text \<open>
  The parser of mode options understands every option of the documented form. The text is built from
  right to left by the lemmas below, as the parser reads it.
\<close>

section \<open>Numbers\<close>

lemma of_char_digit_char: "d < 10 \<Longrightarrow> (of_char (digit_char d) :: nat) = 48 + d"
  by (simp add: digit_char_def)

lemma is_digit_digit_char: "d < 10 \<Longrightarrow> is_digit (digit_char d)"
  by (simp add: is_digit_def of_char_digit_char)

lemma is_digit_dec_nat: "c \<in> set (dec_nat n) \<Longrightarrow> is_digit c"
proof (induction n rule: dec_nat.induct)
  case (1 n)
  then show ?case by (subst (asm) (2) dec_nat.simps) (auto split: if_splits intro: is_digit_digit_char)
qed

lemma dec_nat_not_Nil: "dec_nat n \<noteq> []"
  by (subst dec_nat.simps) simp

lemma dec_value_append: "dec_value (s @ [c]) = 10 * dec_value s + (of_char c - 48)"
  by (simp add: dec_value_def)

lemma dec_value_dec_nat: "dec_value (dec_nat n) = n"
proof (induction n rule: dec_nat.induct)
  case (1 n)
  show ?case
  proof (cases "n < 10")
    case True
    then show ?thesis by (subst dec_nat.simps) (simp add: dec_value_def of_char_digit_char)
  next
    case False
    with 1 show ?thesis by (subst dec_nat.simps) (simp add: dec_value_append of_char_digit_char)
  qed
qed

definition no_digit :: "string \<Rightarrow> bool" where
  "no_digit s \<longleftrightarrow> s = [] \<or> \<not> is_digit (hd s)"

lemma strtol_dec_nat:
  assumes "no_digit rest" and "n < 2 ^ 31"
  shows "simple_strtol (dec_nat n @ rest) = (int n, length (dec_nat n))"
proof -
  obtain c s where cs: "dec_nat n = c # s" using dec_nat_not_Nil by (cases "dec_nat n") auto
  then have c: "is_digit c" using is_digit_dec_nat [of c n] by simp
  then have "\<not> is_space c" "c \<noteq> CHR ''-''" "c \<noteq> CHR ''+''" by (auto simp: is_digit_def is_space_def)
  moreover have "takeWhile is_digit (dec_nat n @ rest) = dec_nat n"
    using assms(1) is_digit_dec_nat by (cases rest) (auto simp: no_digit_def takeWhile_append)
  moreover have "max (- (2 ^ 63)) (min (int n) (2 ^ 63 - 1)) = int n" using assms(2) by simp
  ultimately show ?thesis
    unfolding simple_strtol_def Let_def using dec_value_dec_nat [of n] dec_nat_not_Nil [of n] by (simp add: cs)
qed

section \<open>The scan\<close>

text \<open>The loop as a function on the reversed text; \<open>suf\<close> is what has been read.\<close>

fun scan :: "bool \<Rightarrow> string \<Rightarrow> string \<Rightarrow> cmdline_scan \<Rightarrow> cmdline_scan option" where
  "scan digital [] suf s = Some s"
| "scan digital (c # cs) suf s = cmdline_step digital c suf s \<bind> scan digital cs (c # suf)"

lemma scan_loop: "scan digital cs suf s = Some s' \<Longrightarrow> cmdline_loop digital (rev cs @ suf) (length cs) s = (- 1, s')"
  by (induction cs arbitrary: suf s) (auto simp: bind_eq_Some_conv nth_append)

lemma scan_append: "scan digital (xs @ ys) suf s = scan digital xs suf s \<bind> scan digital ys (rev xs @ suf)"
  by (induction xs arbitrary: suf s) (auto split: bind_splits)

lemma scan_rev_append:
  "scan digital (rev (a @ b)) [] s = scan digital (rev b) [] s \<bind> scan digital (rev a) b"
  using scan_append [of digital "rev b" "rev a" "[]" s] by simp

lemma step_digit: "is_digit c \<Longrightarrow> cmdline_step digital c suf s = Some (s\<lparr>was_digit := True\<rparr>)"
proof -
  assume "is_digit c"
  moreover from this have "c \<noteq> CHR ''@''" "c \<noteq> CHR ''-''" "c \<noteq> CHR ''x''" by (auto simp: is_digit_def)
  ultimately show ?thesis by (simp add: cmdline_step_def Let_def)
qed

lemma scan_digits:
  "\<forall>c\<in>set ds. is_digit c \<Longrightarrow> scan digital ds suf s = Some (if ds = [] then s else s\<lparr>was_digit := True\<rparr>)"
  by (induction ds arbitrary: suf s) (auto simp: step_digit)

lemma scan_number: "scan digital (rev (dec_nat n)) suf s = Some (s\<lparr>was_digit := True\<rparr>)"
  using scan_digits [of "rev (dec_nat n)" digital suf s] is_digit_dec_nat dec_nat_not_Nil by auto

lemma no_digit_letters [simp]:
  "no_digit []" "\<not> is_digit CHR ''M''" "\<not> is_digit CHR ''R''" "\<not> is_digit CHR ''m''" "\<not> is_digit CHR ''i''"
  "\<not> is_digit CHR ''e''" "\<not> is_digit CHR ''D''" "\<not> is_digit CHR ''d''" "\<not> is_digit CHR ''x''"
  "\<not> is_digit CHR ''@''" "\<not> is_digit CHR ''-''" "no_digit (c # s) \<longleftrightarrow> \<not> is_digit c"
  by (simp_all add: is_digit_def no_digit_def)

text \<open>The parts of an option, from left to right.\<close>

definition force_text :: "drm_connector_force \<Rightarrow> string" where
  "force_text f = (case f of DRM_FORCE_UNSPECIFIED \<Rightarrow> [] | DRM_FORCE_OFF \<Rightarrow> ''d'' | DRM_FORCE_ON \<Rightarrow> ''e''
     | DRM_FORCE_ON_DIGITAL \<Rightarrow> ''D'')"

definition flag_text :: "char \<Rightarrow> bool \<Rightarrow> string" where
  "flag_text c b = (if b then [c] else [])"

definition number_text :: "char \<Rightarrow> nat option \<Rightarrow> string" where
  "number_text c k = (case k of None \<Rightarrow> [] | Some n \<Rightarrow> c # dec_nat n)"

lemma scan_force:
  "f = DRM_FORCE_ON_DIGITAL \<longrightarrow> digital \<Longrightarrow>
   scan digital (rev (force_text f)) [] cmdline_scan_init = Some (cmdline_scan_init\<lparr>scan_force := f\<rparr>)"
  by (cases f) (simp_all add: force_text_def cmdline_step_def cmdline_scan_init_def Let_def)

lemma scan_m: "\<not> yres_specified s \<Longrightarrow> \<not> scan_cvt s \<Longrightarrow> \<not> was_digit s \<Longrightarrow>
    scan digital (rev (flag_text CHR ''m'' b)) suf s = Some (if b then s\<lparr>scan_margins := True\<rparr> else s)"
  and scan_i: "\<not> yres_specified s \<Longrightarrow> \<not> scan_cvt s \<Longrightarrow> \<not> was_digit s \<Longrightarrow>
    scan digital (rev (flag_text CHR ''i'' b)) suf s = Some (if b then s\<lparr>scan_interlace := True\<rparr> else s)"
  and scan_R: "\<not> yres_specified s \<Longrightarrow> \<not> scan_cvt s \<Longrightarrow> \<not> scan_rb s \<Longrightarrow> \<not> was_digit s \<Longrightarrow>
    scan digital (rev (flag_text CHR ''R'' b)) suf s = Some (if b then s\<lparr>scan_rb := True\<rparr> else s)"
  and scan_M: "\<not> yres_specified s \<Longrightarrow> \<not> scan_cvt s \<Longrightarrow> \<not> was_digit s \<Longrightarrow>
    scan digital (rev (flag_text CHR ''M'' b)) suf s = Some (if b then s\<lparr>scan_cvt := True\<rparr> else s)"
  by (simp_all add: flag_text_def cmdline_step_def Let_def)

lemma scan_refresh_text:
  assumes "\<not> refresh_specified s" "\<not> bpp_specified s" "\<not> yres_specified s" "\<not> scan_cvt s" "\<not> scan_rb s" "\<not> was_digit s"
    and "no_digit suf" and "\<forall>n. r = Some n \<longrightarrow> n < 2 ^ 31"
  shows "scan digital (rev (number_text CHR ''@'' r)) suf s =
    Some (case r of None \<Rightarrow> s | Some n \<Rightarrow> s\<lparr>scan_refresh := of_nat n, refresh_specified := True\<rparr>)"
  using assms by (cases r) (simp_all add: number_text_def scan_append scan_number cmdline_step_def strtol_dec_nat)

lemma scan_bpp_text:
  assumes "\<not> bpp_specified s" "\<not> yres_specified s" "\<not> scan_cvt s" "\<not> scan_rb s" "\<not> was_digit s"
    and "no_digit suf" and "\<forall>n. r = Some n \<longrightarrow> n < 2 ^ 31"
  shows "scan digital (rev (number_text CHR ''-'' r)) suf s =
    Some (case r of None \<Rightarrow> s | Some n \<Rightarrow> s\<lparr>scan_bpp := of_nat n, bpp_specified := True\<rparr>)"
  using assms by (cases r) (simp_all add: number_text_def scan_append scan_number cmdline_step_def strtol_dec_nat)

lemma scan_res:
  assumes "\<not> yres_specified s" "\<not> was_digit s" and "no_digit suf" and "y < 2 ^ 31"
  shows "scan digital (rev (dec_nat x @ ''x'' @ dec_nat y)) suf s =
    Some (s\<lparr>scan_yres := of_nat y, yres_specified := True, was_digit := True\<rparr>)"
  using assms by (simp add: scan_append scan_number cmdline_step_def strtol_dec_nat)

section \<open>The documented options\<close>

text \<open>\<^verbatim>\<open><xres>x<yres>[M][R][-<bpp>][@<refresh>][i][m][eDd]\<close>\<close>

definition cmdline_suffix ::
  "bool \<Rightarrow> bool \<Rightarrow> nat option \<Rightarrow> nat option \<Rightarrow> bool \<Rightarrow> bool \<Rightarrow> drm_connector_force \<Rightarrow> string" where
  "cmdline_suffix cvt rb bpp refresh interlace margins force =
     flag_text CHR ''M'' cvt @ flag_text CHR ''R'' rb @ number_text CHR ''-'' bpp @ number_text CHR ''@'' refresh @
     flag_text CHR ''i'' interlace @ flag_text CHR ''m'' margins @ force_text force"

definition cmdline_text ::
  "nat \<Rightarrow> nat \<Rightarrow> bool \<Rightarrow> bool \<Rightarrow> nat option \<Rightarrow> nat option \<Rightarrow> bool \<Rightarrow> bool \<Rightarrow> drm_connector_force \<Rightarrow> string" where
  "cmdline_text xres yres cvt rb bpp refresh interlace margins force =
     (dec_nat xres @ ''x'' @ dec_nat yres) @ cmdline_suffix cvt rb bpp refresh interlace margins force"

definition suffix_state ::
  "bool \<Rightarrow> bool \<Rightarrow> nat option \<Rightarrow> nat option \<Rightarrow> bool \<Rightarrow> bool \<Rightarrow> drm_connector_force \<Rightarrow> cmdline_scan" where
  "suffix_state cvt rb bpp refresh interlace margins force =
     \<lparr>bpp_specified = (bpp \<noteq> None), refresh_specified = (refresh \<noteq> None), yres_specified = False, scan_yres = 0,
      scan_bpp = (case bpp of None \<Rightarrow> 32 | Some n \<Rightarrow> of_nat n),
      scan_refresh = (case refresh of None \<Rightarrow> 0 | Some n \<Rightarrow> of_nat n), scan_cvt = cvt, scan_rb = rb,
      scan_interlace = interlace, scan_margins = margins, was_digit = False, scan_force = force\<rparr>"

lemma no_digit_texts:
  "no_digit (force_text f)" "no_digit s \<Longrightarrow> \<not> is_digit c \<Longrightarrow> no_digit (flag_text c b @ s)"
  "no_digit s \<Longrightarrow> \<not> is_digit c \<Longrightarrow> no_digit (number_text c k @ s)"
  by (simp_all add: force_text_def flag_text_def number_text_def split: drm_connector_force.split option.split)

lemma scan_suffix:
  assumes "force = DRM_FORCE_ON_DIGITAL \<longrightarrow> digital" and "\<forall>n. bpp = Some n \<longrightarrow> n < 2 ^ 31"
    and "\<forall>n. refresh = Some n \<longrightarrow> n < 2 ^ 31"
  shows "scan digital (rev (cmdline_suffix cvt rb bpp refresh interlace margins force)) [] cmdline_scan_init =
    Some (suffix_state cvt rb bpp refresh interlace margins force)"
proof -
  let ?f = "force_text force"
  let ?m = "flag_text CHR ''m'' margins @ ?f"
  let ?i = "flag_text CHR ''i'' interlace @ ?m"
  let ?r = "number_text CHR ''@'' refresh @ ?i"
  let ?b = "number_text CHR ''-'' bpp @ ?r"
  let ?R = "flag_text CHR ''R'' rb @ ?b"
  have nd: "no_digit ?i" "no_digit ?r" by (intro no_digit_texts; simp)+
  have "scan digital (rev ?f) [] cmdline_scan_init = Some (suffix_state False False None None False False force)"
    using scan_force [OF assms(1)] by (simp add: suffix_state_def cmdline_scan_init_def)
  then have "scan digital (rev ?m) [] cmdline_scan_init = Some (suffix_state False False None None False margins force)"
    unfolding scan_rev_append by (simp add: scan_m suffix_state_def)
  then have "scan digital (rev ?i) [] cmdline_scan_init = Some (suffix_state False False None None interlace margins force)"
    unfolding scan_rev_append [of _ "flag_text CHR ''i'' interlace"] by (simp add: scan_i suffix_state_def del: rev_append)
  then have "scan digital (rev ?r) [] cmdline_scan_init = Some (suffix_state False False None refresh interlace margins force)"
    unfolding scan_rev_append [of _ "number_text CHR ''@'' refresh"]
    using nd(1) assms(3) by (simp add: scan_refresh_text suffix_state_def split: option.split del: rev_append)
  then have "scan digital (rev ?b) [] cmdline_scan_init = Some (suffix_state False False bpp refresh interlace margins force)"
    unfolding scan_rev_append [of _ "number_text CHR ''-'' bpp"]
    using nd(2) assms(2) by (simp add: scan_bpp_text suffix_state_def split: option.split del: rev_append)
  then have "scan digital (rev ?R) [] cmdline_scan_init = Some (suffix_state False rb bpp refresh interlace margins force)"
    unfolding scan_rev_append [of _ "flag_text CHR ''R'' rb"] by (simp add: scan_R suffix_state_def del: rev_append)
  then show ?thesis
    unfolding cmdline_suffix_def scan_rev_append [of _ "flag_text CHR ''M'' cvt"]
    by (simp add: scan_M suffix_state_def del: rev_append)
qed

text \<open>
  C21. Every mode option of the documented form is parsed, and the result has exactly the values that were
  written, for all numbers below 2 to the 31 and all combinations of the optional parts, with the digital output
  forced on only for a digital connector.
\<close>

theorem cmdline_roundtrip:
  assumes "xres < 2 ^ 31" and "yres < 2 ^ 31" and "\<forall>n. bpp = Some n \<longrightarrow> n < 2 ^ 31"
    and "\<forall>n. refresh = Some n \<longrightarrow> n < 2 ^ 31" and "force = DRM_FORCE_ON_DIGITAL \<longrightarrow> digital"
  shows "drm_mode_parse_command_line_for_connector
      (Some (cmdline_text xres yres cvt rb bpp refresh interlace margins force)) digital mode =
    (True, mode\<lparr>cmd_specified := True, cmd_xres := of_nat xres, cmd_yres := of_nat yres,
       cmd_refresh_specified := (cmd_refresh_specified mode \<or> refresh \<noteq> None),
       cmd_refresh := (case refresh of None \<Rightarrow> cmd_refresh mode | Some n \<Rightarrow> of_nat n),
       cmd_bpp_specified := (cmd_bpp_specified mode \<or> bpp \<noteq> None),
       cmd_bpp := (case bpp of None \<Rightarrow> cmd_bpp mode | Some n \<Rightarrow> of_nat n),
       cmd_rb := rb, cmd_cvt := cvt, cmd_interlace := interlace, cmd_margins := margins, cmd_force := force\<rparr>)"
proof -
  define suf where "suf = cmdline_suffix cvt rb bpp refresh interlace margins force"
  define name where "name = cmdline_text xres yres cvt rb bpp refresh interlace margins force"
  define s where "s = (suffix_state cvt rb bpp refresh interlace margins force)
    \<lparr>scan_yres := of_nat yres, yres_specified := True, was_digit := True\<rparr>"
  have nd: "no_digit suf"
    unfolding suf_def cmdline_suffix_def by (intro no_digit_texts) simp_all
  have name: "name = (dec_nat xres @ ''x'' @ dec_nat yres) @ suf" by (simp add: name_def cmdline_text_def suf_def)
  have "scan digital (rev name) [] cmdline_scan_init = Some s"
    unfolding name scan_rev_append
    using scan_suffix [OF assms(5,3,4)] scan_res [OF _ _ nd assms(2)] by (simp add: suf_def s_def suffix_state_def)
  from scan_loop [OF this] have loop: "cmdline_loop digital name (length name) cmdline_scan_init = (- 1, s)" by simp
  have st: "simple_strtol name = (int xres, length (dec_nat xres))"
    unfolding name using strtol_dec_nat [OF _ assms(1), of "''x'' @ dec_nat yres @ suf"] by simp
  have x: "length (dec_nat xres) < length name" "name ! length (dec_nat xres) = CHR ''x''"
    unfolding name by (simp_all add: nth_append)
  show ?thesis
    unfolding drm_mode_parse_command_line_for_connector_def name_def [symmetric]
    by (cases bpp; cases refresh) (simp_all add: loop st x s_def suffix_state_def Let_def)
qed

definition cmdline_mode_init :: drm_cmdline_mode where
  "cmdline_mode_init = \<lparr>cmd_specified = False, cmd_refresh_specified = False, cmd_bpp_specified = False, cmd_xres = 0,
     cmd_yres = 0, cmd_bpp = 0, cmd_refresh = 0, cmd_rb = False, cmd_interlace = False, cmd_cvt = False,
     cmd_margins = False, cmd_force = DRM_FORCE_UNSPECIFIED\<rparr>"

theorem cmdline_roundtrip_witness:
  "drm_mode_parse_command_line_for_connector (Some ''1024x768MR-24@60ie'') False cmdline_mode_init =
     (True, \<lparr>cmd_specified = True, cmd_refresh_specified = True, cmd_bpp_specified = True, cmd_xres = 1024,
       cmd_yres = 768, cmd_bpp = 24, cmd_refresh = 60, cmd_rb = True, cmd_interlace = True, cmd_cvt = True,
       cmd_margins = False, cmd_force = DRM_FORCE_ON\<rparr>)"
proof -
  have "cmdline_text 1024 768 True True (Some 24) (Some 60) True False DRM_FORCE_ON = ''1024x768MR-24@60ie''"
    by code_simp
  then show ?thesis
    using cmdline_roundtrip [of 1024 768 "Some 24" "Some 60" DRM_FORCE_ON False True True True False cmdline_mode_init]
    by (simp add: cmdline_mode_init_def)
qed

text \<open>An option without a width is accepted, with width zero.\<close>

lemma cmdline_no_width:
  "drm_mode_parse_command_line_for_connector (Some ''x768'') False cmdline_mode_init =
     (True, cmdline_mode_init\<lparr>cmd_specified := True, cmd_yres := 768\<rparr>)"
  by code_simp

end
