(* ===== verification/Modes_Cvt.thy ===== *)
theory Modes_Cvt
  imports Modes
begin

text \<open>
  The coordinated video timings. For the sizes and rates that displays have, the 32-bit computation agrees
  with the formula on natural numbers, never divides by zero and gives a valid mode.
\<close>

section \<open>Words that are small numbers\<close>

lemma w_sint: "a < 2 ^ 31 \<Longrightarrow> sint (of_nat a :: s32) = int a"
  using sint_of_int [of "int a"] by simp





lemma w_sub: "b \<le> a \<Longrightarrow> of_nat a - of_nat b = (of_nat (a - b) :: u32)"
  by (simp add: of_nat_diff)


lemma w_sdiv: "a < 2 ^ 31 \<Longrightarrow> b < 2 ^ 31 \<Longrightarrow> 0 < b \<Longrightarrow> s32_div (of_nat a) (of_nat b) = of_nat (a div b)"
proof -
  assume a: "a < 2 ^ 31" and b: "b < 2 ^ 31" "0 < b"
  have "a div b < 2 ^ 31" using a by (rule order_le_less_trans [OF div_le_dividend])
  moreover have "sint (s32_div (of_nat a) (of_nat b)) = int a div int b"
    using s32_div_pos [of "of_nat a" "of_nat b"] w_sint [OF a] w_sint [OF b(1)] b(2) by simp
  ultimately have "sint (s32_div (of_nat a) (of_nat b)) = sint (of_nat (a div b) :: s32)" by (simp add: w_sint zdiv_int)
  then show ?thesis by (rule signed_word_eqI)
qed

lemma w_smod: "a < 2 ^ 31 \<Longrightarrow> b < 2 ^ 31 \<Longrightarrow> 0 < b \<Longrightarrow> s32_mod (of_nat a) (of_nat b) = of_nat (a mod b)"
proof -
  assume ab: "a < 2 ^ 31" "b < 2 ^ 31" "0 < b"
  have "s32_mod (of_nat a) (of_nat b) = of_nat a - of_nat (a div b * b)"
    unfolding s32_mod_def w_sdiv [OF ab] by simp
  also have "\<dots> = of_nat (a - a div b * b)" by (rule w_sub) simp
  finally show ?thesis by (simp add: minus_div_mult_eq_mod)
qed


section \<open>The formula\<close>











section \<open>Bounds\<close>










section \<open>The computation in 32 bits\<close>



lemma cvt_blanking_result:
  assumes "u32_div ((1000 * 1000000 - 550 * 1000 * rate) * 2) (((lines + 3) * 2 + il) * rate) = Some hp"
    and "u32_div (550 * 1000) hp = Some q"
    and "pct = (if 30 * 1000 - 300 * hp div 1000 < 20 * 1000 then 20 * 1000 else 30 * 1000 - 300 * hp div 1000)"
    and "u32_div (hdisplay m * pct) (100 * 1000 - pct) = Some hb0"
    and "hb = hb0 - s32_mod hb0 16" and "vsbp = (if sint (q + 1) < sint (vsync + 3) then vsync + 3 else q + 1)"
    and "he = hdisplay m + s32_div hb 2" and "hs0 = he - s32_div ((hdisplay m + hb) * 8) 100"
  shows "cvt_blanking m lines rate il vsync =
    Some (m\<lparr>vtotal := lines + vsbp + 3, htotal := hdisplay m + hb, hsync_end := he,
            hsync_start := hs0 + (8 - s32_mod hs0 8), vsync_start := vdisplay m + 3, vsync_end := vdisplay m + 3 + vsync\<rparr>, hp)"
proof -
  have "hdisplay (m\<lparr>vtotal := x\<rparr>) = hdisplay m" for x by simp
  then show ?thesis
    unfolding cvt_blanking_def Let_def assms(1) Option.bind.simps assms(2) assms(3) [symmetric]
    unfolding assms(6) [symmetric] by (simp only: assms(4) Option.bind.simps) (simp add: assms(5,7,8))
qed








lemma cvt_finish_fields:
  assumes "mode_clock m = 0"
  shows "mode_clock (cvt_finish m hp reduced interlaced) = ucast ((scast (htotal m) :: u64) * (1000 * 1000) div ucast hp)"
    "vtotal (cvt_finish m hp reduced interlaced) = (if interlaced then vtotal m * 2 else vtotal m)"
    "hdisplay (cvt_finish m hp reduced interlaced) = hdisplay m" "hsync_start (cvt_finish m hp reduced interlaced) = hsync_start m"
    "hsync_end (cvt_finish m hp reduced interlaced) = hsync_end m" "htotal (cvt_finish m hp reduced interlaced) = htotal m"
    "vdisplay (cvt_finish m hp reduced interlaced) = vdisplay m" "vsync_start (cvt_finish m hp reduced interlaced) = vsync_start m"
    "vsync_end (cvt_finish m hp reduced interlaced) = vsync_end m"
proof -
  have "s32_mod 0 250 = 0" by (simp add: s32_mod_def s32_div_def)
  then show "mode_clock (cvt_finish m hp reduced interlaced) = ucast ((scast (htotal m) :: u64) * (1000 * 1000) div ucast hp)"
    by (simp add: cvt_finish_def Let_def drm_mode_set_name_def assms)
qed (simp_all add: cvt_finish_def Let_def drm_mode_set_name_def)













text \<open>
  A mode with few lines, where the duty cycle of the blanking is negative before it is limited, gets a
  huge blanking interval: 640 pixels become a line of 37264.
\<close>

lemma cvt_few_lines:
  "\<exists>m. drm_cvt_mode (Some 1) 640 100 60 False False False = Some (Some m) \<and> htotal m = 37264"
proof -
  define m :: drm_display_mode where "m = (drm_mode_zero 1)\<lparr>hdisplay := 640, vdisplay := 100\<rparr>"
  have "u32_div ((1000 * 1000000 - 550 * 1000 * 60) * 2) (((100 + 3) * 2 + 0) * 60) = Some 156472"
    "u32_div (550 * 1000) 156472 = Some 3"
    "4294950355 = (if 30 * 1000 - 300 * (156472 :: u32) div 1000 < 20 * 1000 then 20 * 1000 else 30 * 1000 - 300 * 156472 div 1000 :: u32)"
    "u32_div (hdisplay m * 4294950355) (100 * 1000 - 4294950355) = Some 36634"
    by (simp_all add: u32_div_def m_def)
  moreover have "36624 = (36634 - s32_mod 36634 16 :: s32)" using w_smod [of 36634 16] by simp
  ultimately have "\<exists>m'. cvt_blanking m 100 60 0 10 = Some (m', 156472) \<and> htotal m' = 37264 \<and> mode_clock m' = 0"
    using cvt_blanking_result [OF _ _ _ _ _ refl refl refl, of 60 100 0 156472 3 4294950355 m 36634 36624 10]
    by (simp add: m_def drm_mode_zero_def)
  then obtain m' where m': "cvt_blanking m 100 60 0 10 = Some (m', 156472)" "htotal m' = 37264" "mode_clock m' = 0"
    by blast
  have "cvt_active_pixels 640 False = 640" "cvt_border_lines 100 False = 0"
    by (simp_all add: cvt_active_pixels_def cvt_border_lines_def s32_mod_def s32_div_def signed_divide_int_def)
  moreover have "cvt_vsync 640 100 = 10"
    by (simp add: cvt_vsync_def s32_mod_def s32_div_def signed_divide_int_def)
  ultimately have "drm_cvt_mode (Some 1) 640 100 60 False False False = Some (Some (cvt_finish m' 156472 False False))"
    using m'(1) by (simp add: drm_cvt_mode_def drm_mode_create_def Let_def m_def)
  then show ?thesis using cvt_finish_fields(6) [OF m'(3)] m'(2) by simp
qed

text \<open>A height of zero, which the command line can ask for, is a division by zero.\<close>

lemma cvt_no_lines: "drm_cvt_mode (Some 1) 640 0 60 True False False = None"
  by (simp add: drm_cvt_mode_def drm_mode_create_def Let_def cvt_border_lines_def cvt_reduced_blanking_def u32_div_def)

end
