(* ===== verification/Hashtab.thy ===== *)
theory Hashtab
  imports Prelude
begin

text \<open>
  The chained hash table of \<^verbatim>\<open>drm_hashtab.c\<close>, with the hash functions of \<^verbatim>\<open>linux/hash.h\<close>. Items are kept in chains
  that are ordered by key. \<^verbatim>\<open>hash32_buf\<close> of the FreeBSD kernel is a parameter: it maps the bytes of the value and a
  start value to 32 bits. A null pointer, a bucket outside of the table or a shift by a distance that C leaves
  undefined is \<open>None\<close>. The variants for readers that run concurrently differ from the others only in memory barriers.
\<close>

unbundle bit_operations_syntax

section \<open>Hash functions\<close>

text \<open>
  C defines a shift only by a distance from zero to one less than the width. \<open>bits\<close> is unsigned, and so is its
  difference from the width: the only numbers of bits for which the distance is in range are those from one
  to the width.
\<close>

definition shr64 :: "u64 \<Rightarrow> u32 \<Rightarrow> u64 option" where
  "shr64 x n = (if n < 64 then Some (drop_bit (unat n) x) else None)"

definition shr32 :: "u32 \<Rightarrow> u32 \<Rightarrow> u32 option" where
  "shr32 x n = (if n < 32 then Some (drop_bit (unat n) x) else None)"

definition hash_64 :: "(u64 \<Rightarrow> u32 \<Rightarrow> u32) \<Rightarrow> u64 \<Rightarrow> u32 \<Rightarrow> u64 option" where
  "hash_64 hash32_buf val bits = (let ret = ucast (hash32_buf val bits) in shr64 ret (64 - bits))"

definition hash_32 :: "(u32 \<Rightarrow> u32 \<Rightarrow> u32) \<Rightarrow> u32 \<Rightarrow> u32 \<Rightarrow> u32 option" where
  "hash_32 hash32_buf val bits = (let ret = hash32_buf val bits in shr32 ret (32 - bits))"

text \<open>On 64-bit machines \<^verbatim>\<open>hash_long\<close> is \<open>hash_64\<close>.\<close>

abbreviation hash_long :: "(u64 \<Rightarrow> u32 \<Rightarrow> u32) \<Rightarrow> u64 \<Rightarrow> u32 \<Rightarrow> u64 option" where
  "hash_long \<equiv> hash_64"

section \<open>The table\<close>

text \<open>\<open>hash_obj\<close> identifies the object that contains the item.\<close>

record drm_hash_item =
  hash_key :: u64
  hash_obj :: nat

record drm_open_hash =
  ht_table :: "drm_hash_item list list option"
  ht_order :: u8

text \<open>\<open>alloc\<close> tells whether the allocation of the table succeeds.\<close>

definition drm_ht_create :: "bool \<Rightarrow> u32 \<Rightarrow> (errno option \<times> drm_open_hash) option" where
  "drm_ht_create alloc order =
     (if order \<ge> 32 then None
      else let sz = unat (push_bit (unat order) 1 :: u32)
           in if alloc then Some (None, \<lparr>ht_table = Some (replicate sz []), ht_order = ucast order\<rparr>)
              else Some (Some ENOMEM, \<lparr>ht_table = None, ht_order = ucast order\<rparr>))"

text \<open>The bucket of a key: its index and its chain.\<close>

definition ht_bucket :: "(u64 \<Rightarrow> u32 \<Rightarrow> u32) \<Rightarrow> drm_open_hash \<Rightarrow> u64 \<Rightarrow> (nat \<times> drm_hash_item list) option" where
  "ht_bucket hash32_buf ht key =
     (case hash_long hash32_buf key (ucast (ht_order ht)) of
        None \<Rightarrow> None
      | Some h \<Rightarrow>
          let hashed_key = unat (ucast h :: u32)
          in case ht_table ht of
               None \<Rightarrow> None
             | Some t \<Rightarrow> if hashed_key < length t then Some (hashed_key, t ! hashed_key) else None)"

fun ht_scan :: "u64 \<Rightarrow> drm_hash_item list \<Rightarrow> drm_hash_item option" where
  "ht_scan key [] = None"
| "ht_scan key (entry # es) =
     (if hash_key entry = key then Some entry else if hash_key entry > key then None else ht_scan key es)"

definition drm_ht_find_key :: "(u64 \<Rightarrow> u32 \<Rightarrow> u32) \<Rightarrow> drm_open_hash \<Rightarrow> u64 \<Rightarrow> drm_hash_item option option" where
  "drm_ht_find_key hash32_buf ht key =
     (case ht_bucket hash32_buf ht key of None \<Rightarrow> None | Some (i, h_list) \<Rightarrow> Some (ht_scan key h_list))"

definition drm_ht_find_key_rcu :: "(u64 \<Rightarrow> u32 \<Rightarrow> u32) \<Rightarrow> drm_open_hash \<Rightarrow> u64 \<Rightarrow> drm_hash_item option option" where
  "drm_ht_find_key_rcu hash32_buf ht key =
     (case ht_bucket hash32_buf ht key of None \<Rightarrow> None | Some (i, h_list) \<Rightarrow> Some (ht_scan key h_list))"

definition drm_ht_find_item :: "(u64 \<Rightarrow> u32 \<Rightarrow> u32) \<Rightarrow> drm_open_hash \<Rightarrow> u64 \<Rightarrow> (errno + drm_hash_item) option" where
  "drm_ht_find_item hash32_buf ht key =
     (case drm_ht_find_key_rcu hash32_buf ht key of
        None \<Rightarrow> None
      | Some None \<Rightarrow> Some (Inl EINVAL)
      | Some (Some item) \<Rightarrow> Some (Inr item))"

text \<open>The walk to the place of a new item; \<open>None\<close> if its key is taken.\<close>

fun chain_insert :: "drm_hash_item \<Rightarrow> drm_hash_item list \<Rightarrow> drm_hash_item list option" where
  "chain_insert item [] = Some [item]"
| "chain_insert item (entry # es) =
     (if hash_key entry = hash_key item then None
      else if hash_key entry > hash_key item then Some (item # entry # es)
      else map_option (\<lambda>l. entry # l) (chain_insert item es))"

definition drm_ht_insert_item ::
  "(u64 \<Rightarrow> u32 \<Rightarrow> u32) \<Rightarrow> drm_open_hash \<Rightarrow> drm_hash_item \<Rightarrow> (errno + drm_open_hash) option" where
  "drm_ht_insert_item hash32_buf ht item =
     (case ht_bucket hash32_buf ht (hash_key item) of
        None \<Rightarrow> None
      | Some (i, h_list) \<Rightarrow>
          (case chain_insert item h_list of
             None \<Rightarrow> Some (Inl EINVAL)
           | Some l \<Rightarrow> Some (Inr (ht\<lparr>ht_table := map_option (\<lambda>t. t[i := l]) (ht_table ht)\<rparr>))))"

text \<open>A shift to the left, by an \<^verbatim>\<open>int\<close>.\<close>

definition shl64 :: "u64 \<Rightarrow> s32 \<Rightarrow> u64 option" where
  "shl64 x n = (if 0 \<le> sint n \<and> sint n < 64 then Some (push_bit (unat n) x) else None)"

text \<open>
  The loop of \<^verbatim>\<open>drm_ht_just_insert_please\<close>; \<open>fuel\<close> bounds the number of iterations. The result is the error, the item
  with the last key that was tried, and the table.
\<close>

fun just_insert_loop ::
  "(u64 \<Rightarrow> u32 \<Rightarrow> u32) \<Rightarrow> nat \<Rightarrow> drm_open_hash \<Rightarrow> drm_hash_item \<Rightarrow> u64 \<Rightarrow> u64 \<Rightarrow> u64 \<Rightarrow> s32 \<Rightarrow> u64 \<Rightarrow>
   (errno option \<times> drm_hash_item \<times> drm_open_hash) option" where
  "just_insert_loop hash32_buf 0 ht item kmask first unshifted_key shift add = None"
| "just_insert_loop hash32_buf (Suc fuel) ht item kmask first unshifted_key shift add =
     (case shl64 unshifted_key shift of
        None \<Rightarrow> None
      | Some k \<Rightarrow>
          let item = item\<lparr>hash_key := k + add\<rparr>
          in case drm_ht_insert_item hash32_buf ht item of
               None \<Rightarrow> None
             | Some (Inr ht') \<Rightarrow> Some (None, item, ht')
             | Some (Inl e) \<Rightarrow>
                 let unshifted_key = (unshifted_key + 1) AND kmask
                 in if unshifted_key \<noteq> first
                    then just_insert_loop hash32_buf fuel ht item kmask first unshifted_key shift add
                    else Some (Some EINVAL, item, ht))"

definition drm_ht_just_insert_please ::
  "(u64 \<Rightarrow> u32 \<Rightarrow> u32) \<Rightarrow> drm_open_hash \<Rightarrow> drm_hash_item \<Rightarrow> u64 \<Rightarrow> s32 \<Rightarrow> s32 \<Rightarrow> u64 \<Rightarrow>
   (errno option \<times> drm_hash_item \<times> drm_open_hash) option" where
  "drm_ht_just_insert_please hash32_buf ht item seed bits shift add =
     (case shl64 1 bits of
        None \<Rightarrow> None
      | Some m \<Rightarrow>
          let kmask = m - 1
          in case hash_long hash32_buf seed bits of
               None \<Rightarrow> None
             | Some unshifted_key \<Rightarrow>
                 let first = unshifted_key
                 in just_insert_loop hash32_buf (2 ^ unat bits) ht item kmask first unshifted_key shift add)"

definition drm_ht_remove_key :: "(u64 \<Rightarrow> u32 \<Rightarrow> u32) \<Rightarrow> drm_open_hash \<Rightarrow> u64 \<Rightarrow> (errno + drm_open_hash) option" where
  "drm_ht_remove_key hash32_buf ht key =
     (case drm_ht_find_key hash32_buf ht key of
        None \<Rightarrow> None
      | Some None \<Rightarrow> Some (Inl EINVAL)
      | Some (Some item) \<Rightarrow>
          Some (Inr (ht\<lparr>ht_table := map_option (map (filter (\<lambda>e. e \<noteq> item))) (ht_table ht)\<rparr>)))"

text \<open>An item is unlinked from the chain that it is in.\<close>

definition drm_ht_remove_item :: "drm_open_hash \<Rightarrow> drm_hash_item \<Rightarrow> drm_open_hash" where
  "drm_ht_remove_item ht item = ht\<lparr>ht_table := map_option (map (filter (\<lambda>e. e \<noteq> item))) (ht_table ht)\<rparr>"

definition drm_ht_remove :: "drm_open_hash \<Rightarrow> drm_open_hash" where
  "drm_ht_remove ht = (if ht_table ht \<noteq> None then ht\<lparr>ht_table := None\<rparr> else ht)"

end
