(* ===== verification/Hashtab_Correct.thy ===== *)
theory Hashtab_Correct
  imports Hashtab
begin

text \<open>
  The hash table implements a map from keys to items, and looking for a free key ends and finds one iff
  there is one.
\<close>

unbundle bit_operations_syntax

section \<open>The hash\<close>

text \<open>
  The 64-bit hash function shifts a 32-bit value: for all table sizes from 2 to 2 to the 32 its result is zero,
  so all items are in the first chain. For a table of one chain the distance of the shift is not defined.
\<close>

lemma hash_64_zero:
  assumes "0 < unat bits" and "unat bits \<le> 32"
  shows "hash_64 hash32_buf val bits = Some 0"
proof -
  have "bits \<le> 64" using assms(2) by (simp add: word_le_nat_alt)
  then have n: "unat (64 - bits) = 64 - unat bits" by (simp add: unat_sub)
  then have "64 - bits < 64" using assms(1) by (simp add: word_less_nat_alt)
  moreover have "drop_bit (64 - unat bits) (ucast (hash32_buf val bits) :: u64) = 0"
    using assms(2) by (intro bit_word_eqI) (auto simp: bit_simps dest: bit_imp_le_length)
  ultimately show ?thesis by (simp add: hash_64_def shr64_def n)
qed

lemma hash_64_no_bits: "hash_64 hash32_buf val 0 = None"
  by (simp add: hash_64_def shr64_def)

lemma shl64_defined: "unat n < 64 \<Longrightarrow> shl64 x n = Some (push_bit (unat n) x)"
proof -
  assume n: "unat n < 64"
  then have "int (unat n) < 64" by (simp del: of_nat_unat)
  then have u: "uint n < 64" by simp
  have "- (2 ^ 31) \<le> uint n" by (rule order_trans [OF _ uint_ge_0]) simp
  with u have "sint n = uint n" by (simp add: sint_uint signed_take_bit_int_eq_self)
  with u show ?thesis by (simp add: shl64_def)
qed

section \<open>Well-formed tables\<close>

definition chain_sorted :: "drm_hash_item list \<Rightarrow> bool" where
  "chain_sorted c \<longleftrightarrow> sorted_wrt (\<lambda>a b. hash_key a < hash_key b) c"

definition ht_wf :: "(u64 \<Rightarrow> u32 \<Rightarrow> u32) \<Rightarrow> drm_open_hash \<Rightarrow> bool" where
  "ht_wf hash32_buf ht \<longleftrightarrow>
     (\<exists>t. ht_table ht = Some t \<and> length t = 2 ^ unat (ht_order ht) \<and> 0 < ht_order ht \<and> ht_order ht \<le> 31 \<and>
        (\<forall>i<length t. chain_sorted (t ! i) \<and> (\<forall>e\<in>set (t ! i). ht_bucket hash32_buf ht (hash_key e) = Some (i, t ! i))))"

definition ht_items :: "drm_open_hash \<Rightarrow> drm_hash_item set" where
  "ht_items ht = (case ht_table ht of None \<Rightarrow> {} | Some t \<Rightarrow> set (concat t))"

text \<open>The map that a table stands for.\<close>

definition ht_abs :: "drm_open_hash \<Rightarrow> u64 \<Rightarrow> drm_hash_item option" where
  "ht_abs ht k = (case ht_table ht of None \<Rightarrow> None | Some t \<Rightarrow> find (\<lambda>e. hash_key e = k) (concat t))"

lemma ht_hash_zero:
  assumes "0 < n" and "n \<le> 31"
  shows "hash_64 hash32_buf k (ucast (n :: u8)) = Some 0"
proof -
  have "unat (ucast n :: u32) = unat n" by (simp add: unsigned_ucast_eq take_bit_nat_eq_self less_trans [OF unsigned_less])
  then show ?thesis using assms by (intro hash_64_zero) (simp_all add: word_less_nat_alt word_le_nat_alt)
qed

lemma ht_bucket_zero:
  assumes "ht_wf hash32_buf ht"
  obtains t c cs where "ht_table ht = Some t" "t = c # cs" "\<And>k. ht_bucket hash32_buf ht k = Some (0, c)"
    "chain_sorted c" "\<forall>d\<in>set cs. d = []"
proof -
  obtain t where t: "ht_table ht = Some t" "length t = 2 ^ unat (ht_order ht)" "0 < ht_order ht" "ht_order ht \<le> 31"
    and ch: "\<And>i. i < length t \<Longrightarrow> chain_sorted (t ! i)"
    and bk: "\<And>i e. i < length t \<Longrightarrow> e \<in> set (t ! i) \<Longrightarrow> ht_bucket hash32_buf ht (hash_key e) = Some (i, t ! i)"
    using assms unfolding ht_wf_def by blast
  from t(2) obtain c cs where c: "t = c # cs" by (cases t) auto
  have b: "ht_bucket hash32_buf ht k = Some (0, c)" for k
    using ht_hash_zero [OF t(3,4)] by (simp add: ht_bucket_def t(1) c)
  have "d = []" if d: "d \<in> set cs" for d
  proof -
    obtain i where "i < length cs" "d = cs ! i" using d by (auto simp: in_set_conv_nth)
    then have "e \<notin> set d" for e using bk [of "Suc i" e] b c by auto
    then show ?thesis by (metis list.set_intros(1) neq_Nil_conv)
  qed
  then show thesis using that [OF t(1) c b] ch [of 0] c by simp
qed

lemma find_sorted_unique:
  "chain_sorted c \<Longrightarrow> find (\<lambda>e. hash_key e = k) c = Some e \<longleftrightarrow> e \<in> set c \<and> hash_key e = k"
  by (induction c) (auto simp: chain_sorted_def)

lemma chain_sorted_Cons: "chain_sorted (a # c) \<longleftrightarrow> (\<forall>e\<in>set c. hash_key a < hash_key e) \<and> chain_sorted c"
  by (simp add: chain_sorted_def)

lemma ht_abs_iff:
  assumes "ht_wf hash32_buf ht"
  shows "ht_abs ht k = Some e \<longleftrightarrow> e \<in> ht_items ht \<and> hash_key e = k"
proof -
  obtain t c cs where *: "ht_table ht = Some t" "t = c # cs" "chain_sorted c" "\<forall>d\<in>set cs. d = []"
    by (rule ht_bucket_zero [OF assms])
  then have "concat t = c" by simp
  with * show ?thesis
    unfolding ht_abs_def ht_items_def *(1) option.case by (simp only: find_sorted_unique)
qed

text \<open>Two tables with the same items are the same map.\<close>

lemma ht_abs_eqI:
  assumes "ht_wf hash32_buf ht" and "\<And>k e. m k = Some e \<longleftrightarrow> e \<in> ht_items ht \<and> hash_key e = k"
  shows "ht_abs ht = m"
proof
  fix k
  show "ht_abs ht k = m k"
    using ht_abs_iff [OF assms(1), of k] assms(2) [of k] by (metis not_None_eq)
qed

section \<open>Chains\<close>

lemma ht_scan_find: "chain_sorted c \<Longrightarrow> ht_scan k c = find (\<lambda>e. hash_key e = k) c"
proof (induction c)
  case (Cons a c)
  have "find (\<lambda>e. hash_key e = k) c = None" if "hash_key a > k"
    using that Cons.prems by (auto simp: chain_sorted_def find_None_iff)
  then show ?case using Cons by (auto simp: chain_sorted_def)
qed simp

lemma chain_insert_None: "chain_sorted c \<Longrightarrow> chain_insert item c = None \<longleftrightarrow> hash_key item \<in> hash_key ` set c"
  by (induction c) (auto simp: chain_sorted_def image_iff)

lemma chain_insert_set: "chain_insert item c = Some c' \<Longrightarrow> set c' = insert item (set c)"
  by (induction c arbitrary: c') (auto split: if_splits)

lemma chain_insert_sorted: "chain_insert item c = Some c' \<Longrightarrow> chain_sorted c \<Longrightarrow> chain_sorted c'"
proof (induction c arbitrary: c')
  case (Cons a c)
  consider "hash_key a > hash_key item" "c' = item # a # c"
    | c2 where "hash_key a < hash_key item" "chain_insert item c = Some c2" "c' = a # c2"
    using Cons.prems(1) by (auto split: if_splits)
  then show ?case
  proof cases
    case 1
    have "hash_key item < hash_key e" if "e \<in> set c" for e
      using 1(1) by (rule less_trans) (use Cons.prems(2) that in \<open>simp add: chain_sorted_Cons\<close>)
    with 1 Cons.prems(2) show ?thesis by (simp add: chain_sorted_Cons)
  next
    case 2
    then show ?thesis
      using Cons.IH [OF 2(2)] Cons.prems(2) chain_insert_set [OF 2(2)] by (simp add: chain_sorted_Cons)
  qed
qed (simp add: chain_sorted_def)

lemma chain_sorted_filter: "chain_sorted c \<Longrightarrow> chain_sorted (filter P c)"
  by (simp add: chain_sorted_def sorted_wrt_filter)

section \<open>The operations\<close>

definition ht_created :: "u32 \<Rightarrow> drm_open_hash" where
  "ht_created order = \<lparr>ht_table = Some (replicate (2 ^ unat order) []), ht_order = ucast order\<rparr>"

lemma ht_create_abs:
  assumes "0 < order" and "order \<le> 31"
  shows "drm_ht_create True order = Some (None, ht_created order)"
    and "ht_wf hash32_buf (ht_created order)" and "ht_abs (ht_created order) = Map.empty"
proof -
  have o: "unat order \<le> 31" "0 < unat order" using assms by (simp_all add: word_le_nat_alt word_less_nat_alt)
  then have "(2 :: nat) ^ unat order < 2 ^ 32" by (intro power_strict_increasing) simp_all
  then have "unat (of_nat (2 ^ unat order) :: u32) = 2 ^ unat order" using o by (simp only: unsigned_of_nat take_bit_nat_eq_self) simp
  then have "unat (push_bit (unat order) 1 :: u32) = 2 ^ unat order" by (simp add: push_bit_eq_mult)
  moreover have "\<not> order \<ge> 32" using o by (simp add: word_le_nat_alt)
  ultimately show "drm_ht_create True order = Some (None, ht_created order)"
    by (simp add: drm_ht_create_def Let_def ht_created_def)
  have u8: "unat (ucast order :: u8) = unat order"
    using o by (simp add: unsigned_ucast_eq take_bit_nat_eq_self)
  then have "0 < (ucast order :: u8)" "(ucast order :: u8) \<le> 31" using o by (simp_all add: word_le_nat_alt word_less_nat_alt)
  then show "ht_wf hash32_buf (ht_created order)"
    by (simp add: ht_created_def ht_wf_def u8 chain_sorted_def)
  show "ht_abs (ht_created order) = Map.empty"
    by (rule ext) (simp add: ht_created_def ht_abs_def find_None_iff)
qed

text \<open>All operations work on the first chain.\<close>

lemma ht_wf_first:
  assumes "ht_wf hash32_buf ht" and "ht_table ht = Some (c # cs)" and "chain_sorted c'"
  shows "ht_wf hash32_buf (ht\<lparr>ht_table := Some (c' # cs)\<rparr>)" "ht_items (ht\<lparr>ht_table := Some (c' # cs)\<rparr>) = set c'"
proof -
  obtain t d ds where *: "ht_table ht = Some t" "t = d # ds" "\<forall>d\<in>set ds. d = []"
    by (rule ht_bucket_zero [OF assms(1)])
  then have e: "\<forall>d\<in>set cs. d = []" using assms(2) by simp
  have w: "Suc (length cs) = 2 ^ unat (ht_order ht)" "0 < ht_order ht" "ht_order ht \<le> 31"
    using assms(1,2) by (auto simp: ht_wf_def)
  have b: "ht_bucket hash32_buf (ht\<lparr>ht_table := Some (c' # cs)\<rparr>) k = Some (0, c')" for k
    using ht_hash_zero [OF w(2,3)] by (simp add: ht_bucket_def)
  have "chain_sorted ((c' # cs) ! i) \<and> (\<forall>x\<in>set ((c' # cs) ! i). ht_bucket hash32_buf (ht\<lparr>ht_table := Some (c' # cs)\<rparr>) (hash_key x) = Some (i, (c' # cs) ! i))"
    if "i < length (c' # cs)" for i
  proof (cases i)
    case (Suc j)
    with that have "cs ! j = []" using e nth_mem [of j cs] by simp
    with Suc show ?thesis by (simp add: chain_sorted_def)
  qed (use assms(3) b in simp)
  then show "ht_wf hash32_buf (ht\<lparr>ht_table := Some (c' # cs)\<rparr>)" using w unfolding ht_wf_def by simp
  show "ht_items (ht\<lparr>ht_table := Some (c' # cs)\<rparr>) = set c'" using e by (auto simp: ht_items_def)
qed

lemma find_item_abs:
  assumes "ht_wf hash32_buf ht"
  shows "drm_ht_find_item hash32_buf ht k = Some (case ht_abs ht k of None \<Rightarrow> Inl EINVAL | Some item \<Rightarrow> Inr item)"
    and "drm_ht_find_key hash32_buf ht k = Some (ht_abs ht k)"
proof -
  obtain t c cs where *: "ht_table ht = Some t" "t = c # cs" "\<And>k. ht_bucket hash32_buf ht k = Some (0, c)"
      "chain_sorted c" "\<forall>d\<in>set cs. d = []"
    by (rule ht_bucket_zero [OF assms]) blast
  then have "concat t = c" by simp
  then have "ht_abs ht k = ht_scan k c" by (simp add: ht_abs_def *(1) ht_scan_find [OF *(4)])
  then show "drm_ht_find_item hash32_buf ht k = Some (case ht_abs ht k of None \<Rightarrow> Inl EINVAL | Some item \<Rightarrow> Inr item)"
    "drm_ht_find_key hash32_buf ht k = Some (ht_abs ht k)"
    by (simp_all add: drm_ht_find_item_def drm_ht_find_key_rcu_def drm_ht_find_key_def *(3) split: option.split)
qed

lemma insert_item_abs:
  assumes "ht_wf hash32_buf ht"
  shows "ht_abs ht (hash_key item) \<noteq> None \<Longrightarrow> drm_ht_insert_item hash32_buf ht item = Some (Inl EINVAL)"
    and "ht_abs ht (hash_key item) = None \<Longrightarrow> \<exists>ht'. drm_ht_insert_item hash32_buf ht item = Some (Inr ht') \<and>
      ht_wf hash32_buf ht' \<and> ht_abs ht' = (ht_abs ht)(hash_key item \<mapsto> item)"
proof -
  obtain t c cs where *: "ht_table ht = Some t" "t = c # cs" "\<And>k. ht_bucket hash32_buf ht k = Some (0, c)"
      "chain_sorted c" "\<forall>d\<in>set cs. d = []"
    by (rule ht_bucket_zero [OF assms]) blast
  have items: "ht_items ht = set c" using * by (auto simp: ht_items_def)
  note abs = ht_abs_iff [OF assms, unfolded items]
  have free: "ht_abs ht (hash_key item) = None \<longleftrightarrow> hash_key item \<notin> hash_key ` set c"
    using abs [of "hash_key item"] by (metis image_iff not_None_eq)
  show "drm_ht_insert_item hash32_buf ht item = Some (Inl EINVAL)" if "ht_abs ht (hash_key item) \<noteq> None"
    using that free chain_insert_None [OF *(4), of item] by (simp add: drm_ht_insert_item_def *(3))
  show "\<exists>ht'. drm_ht_insert_item hash32_buf ht item = Some (Inr ht') \<and>
      ht_wf hash32_buf ht' \<and> ht_abs ht' = (ht_abs ht)(hash_key item \<mapsto> item)" if n: "ht_abs ht (hash_key item) = None"
  proof -
    obtain c' where c': "chain_insert item c = Some c'"
      using n free chain_insert_None [OF *(4), of item] by auto
    define ht' where "ht' = ht\<lparr>ht_table := Some (c' # cs)\<rparr>"
    note w = ht_wf_first [OF assms *(1) [unfolded *(2)] chain_insert_sorted [OF c' *(4)], folded ht'_def]
    have "ht_abs ht' = (ht_abs ht)(hash_key item \<mapsto> item)"
      by (rule ht_abs_eqI [OF w(1)])
        (use w(2) chain_insert_set [OF c'] abs n free in \<open>auto simp: image_iff\<close>)
    moreover have "drm_ht_insert_item hash32_buf ht item = Some (Inr ht')"
      by (simp add: drm_ht_insert_item_def *(1,2,3) c' ht'_def)
    ultimately show ?thesis using w(1) by blast
  qed
qed

lemma remove_abs:
  assumes "ht_wf hash32_buf ht" and "item \<in> ht_items ht"
  shows "ht_wf hash32_buf (drm_ht_remove_item ht item) \<and>
    ht_abs (drm_ht_remove_item ht item) = (ht_abs ht)(hash_key item := None)"
proof -
  obtain t c cs where *: "ht_table ht = Some t" "t = c # cs" "chain_sorted c" "\<forall>d\<in>set cs. d = []"
    by (rule ht_bucket_zero [OF assms(1)])
  have items: "ht_items ht = set c" using * by (auto simp: ht_items_def)
  note abs = ht_abs_iff [OF assms(1), unfolded items]
  have "map (filter (\<lambda>e. e \<noteq> item)) cs = cs" by (rule map_idI) (use *(4) in force)
  then have r: "drm_ht_remove_item ht item = ht\<lparr>ht_table := Some (filter (\<lambda>e. e \<noteq> item) c # cs)\<rparr>"
    by (simp add: drm_ht_remove_item_def *(1,2))
  note w = ht_wf_first [OF assms(1) *(1) [unfolded *(2)] chain_sorted_filter [OF *(3), of "\<lambda>e. e \<noteq> item"], folded r]
  have one: "e = item" if "e \<in> set c" "hash_key e = hash_key item" for e
    using that abs [of "hash_key item"] assms(2) items by (metis option.inject)
  have "ht_abs (drm_ht_remove_item ht item) = (ht_abs ht)(hash_key item := None)"
    by (rule ht_abs_eqI [OF w(1)]) (use w(2) abs one in auto)
  with w(1) show ?thesis by blast
qed

section \<open>Trying keys\<close>

text \<open>A store of items by key, as far as the search for a free key needs it.\<close>

locale key_store =
  fixes invar :: "'s \<Rightarrow> bool"
    and lookup :: "'s \<Rightarrow> u64 \<Rightarrow> drm_hash_item option"
    and try_insert :: "'s \<Rightarrow> drm_hash_item \<Rightarrow> 's option"
  assumes insert_taken: "invar s \<Longrightarrow> lookup s (hash_key item) \<noteq> None \<Longrightarrow> try_insert s item = None"
    and insert_free: "invar s \<Longrightarrow> lookup s (hash_key item) = None \<Longrightarrow>
      \<exists>s'. try_insert s item = Some s' \<and> invar s' \<and> lookup s' = (lookup s)(hash_key item \<mapsto> item)"

text \<open>The first free key of a list is used.\<close>

fun try_keys :: "('s \<Rightarrow> drm_hash_item \<Rightarrow> 's option) \<Rightarrow> 's \<Rightarrow> drm_hash_item \<Rightarrow> u64 list \<Rightarrow> ('s \<times> drm_hash_item) option" where
  "try_keys try_insert s item [] = None"
| "try_keys try_insert s item (k # ks) =
     (case try_insert s (item\<lparr>hash_key := k\<rparr>) of
        Some s' \<Rightarrow> Some (s', item\<lparr>hash_key := k\<rparr>)
      | None \<Rightarrow> try_keys try_insert s (item\<lparr>hash_key := k\<rparr>) ks)"

context key_store
begin

lemma try_keys_none:
  "invar s \<Longrightarrow> try_keys try_insert s item ks = None \<longleftrightarrow> (\<forall>k\<in>set ks. lookup s k \<noteq> None)"
proof (induction ks arbitrary: item)
  case (Cons k ks)
  show ?case
  proof (cases "lookup s k = None")
    case True
    then show ?thesis using insert_free [OF Cons.prems, of "item\<lparr>hash_key := k\<rparr>"] by auto
  next
    case False
    then show ?thesis using insert_taken [OF Cons.prems, of "item\<lparr>hash_key := k\<rparr>"] Cons by simp
  qed
qed simp

lemma try_keys_some:
  "invar s \<Longrightarrow> try_keys try_insert s item ks = Some (s', item') \<Longrightarrow>
   \<exists>k\<in>set ks. lookup s k = None \<and> item' = item\<lparr>hash_key := k\<rparr> \<and> invar s' \<and> lookup s' = (lookup s)(k \<mapsto> item')"
proof (induction ks arbitrary: item)
  case (Cons k ks)
  show ?case
  proof (cases "lookup s k = None")
    case True
    then show ?thesis
      using insert_free [OF Cons.prems(1), of "item\<lparr>hash_key := k\<rparr>"] Cons.prems(2) by auto
  next
    case False
    then have "try_keys try_insert s (item\<lparr>hash_key := k\<rparr>) ks = Some (s', item')"
      using insert_taken [OF Cons.prems(1), of "item\<lparr>hash_key := k\<rparr>"] Cons.prems(2) by simp
    from Cons.IH [OF Cons.prems(1) this] show ?thesis by auto
  qed
qed simp

end

definition ht_try_insert :: "(u64 \<Rightarrow> u32 \<Rightarrow> u32) \<Rightarrow> drm_open_hash \<Rightarrow> drm_hash_item \<Rightarrow> drm_open_hash option" where
  "ht_try_insert hash32_buf ht item =
     (case drm_ht_insert_item hash32_buf ht item of Some (Inr ht') \<Rightarrow> Some ht' | _ \<Rightarrow> None)"

interpretation hts: key_store "ht_wf hash32_buf" ht_abs "ht_try_insert hash32_buf" for hash32_buf
  by unfold_locales (auto simp: ht_try_insert_def dest: insert_item_abs)

lemma mask_step:
  assumes "bits \<le> 32" and "i < 2 ^ bits"
  shows "((of_nat i :: u64) + 1) AND (push_bit bits 1 - 1) = (if Suc i = 2 ^ bits then 0 else of_nat (Suc i))"
    and "Suc i \<noteq> 2 ^ bits \<Longrightarrow> (of_nat (Suc i) :: u64) \<noteq> 0"
proof -
  have "push_bit bits 1 - 1 = (mask bits :: u64)" by (simp add: mask_eq_exp_minus_1 push_bit_eq_mult)
  then have "((of_nat i :: u64) + 1) AND (push_bit bits 1 - 1) = take_bit bits (of_nat (Suc i))"
    by (simp add: take_bit_eq_mask add.commute)
  also have "\<dots> = of_nat (take_bit bits (Suc i))" by (simp only: take_bit_of_nat)
  also have "take_bit bits (Suc i) = (if Suc i = 2 ^ bits then 0 else Suc i)"
    using assms(2) by (auto simp: take_bit_eq_mod mod_less)
  finally show "((of_nat i :: u64) + 1) AND (push_bit bits 1 - 1) = (if Suc i = 2 ^ bits then 0 else of_nat (Suc i))"
    by simp
  have "(2 :: nat) ^ bits \<le> 2 ^ 32" using assms(1) by (intro power_increasing) simp_all
  then have "Suc i < 2 ^ 64" using assms(2) by simp
  then show "(of_nat (Suc i) :: u64) \<noteq> 0"
    by (auto simp: word_of_nat_eq_0_iff simp del: of_nat_Suc dest: dvd_imp_le)
qed

lemma just_insert_loop_keys:
  assumes "ht_wf hash32_buf ht" and "bits \<le> 32" and "i < 2 ^ bits" and "unat shift < 64"
  shows "\<exists>item2. just_insert_loop hash32_buf (2 ^ bits - i) ht item (push_bit bits 1 - 1) 0 (of_nat i) shift add =
    (case try_keys (ht_try_insert hash32_buf) ht item (map (\<lambda>j. push_bit (unat shift) (of_nat j) + add) [i..<2 ^ bits]) of
       Some (ht', item') \<Rightarrow> Some (None, item', ht')
     | None \<Rightarrow> Some (Some EINVAL, item2, ht))"
  using assms(3)
proof (induction "2 ^ bits - i" arbitrary: i item)
  case (Suc n)
  define it where "it = item\<lparr>hash_key := push_bit (unat shift) (of_nat i) + add\<rparr>"
  note sh = shl64_defined [OF assms(4)]
  have n: "2 ^ bits - i = Suc (2 ^ bits - Suc i)" using Suc.prems by simp
  have upt: "[i..<2 ^ bits] = i # [Suc i..<2 ^ bits]" using Suc.prems by (rule upt_conv_Cons)
  note m = mask_step [OF assms(2) Suc.prems]
  show ?case
  proof (cases "ht_abs ht (hash_key it) = None")
    case True
    then obtain ht' where "drm_ht_insert_item hash32_buf ht it = Some (Inr ht')"
      using insert_item_abs(2) [OF assms(1)] by blast
    then show ?thesis unfolding n upt by (simp add: Let_def sh it_def ht_try_insert_def)
  next
    case False
    then have f: "drm_ht_insert_item hash32_buf ht it = Some (Inl EINVAL)" by (rule insert_item_abs(1) [OF assms(1)])
    show ?thesis
    proof (cases "Suc i = 2 ^ bits")
      case True
      then show ?thesis unfolding n upt using f m by (simp add: Let_def sh it_def ht_try_insert_def)
    next
      case False
      with Suc.prems have "Suc i < 2 ^ bits" "n = 2 ^ bits - Suc i" using Suc.hyps(2) by simp_all
      from Suc.hyps(1) [OF this(2,1), of it] show ?thesis
        unfolding n upt using f m False by (simp add: Let_def sh it_def ht_try_insert_def del: of_nat_Suc)
    qed
  qed
qed simp

text \<open>
  A table of one chain can be created, but the hash of every key is a shift by 64, which is not defined; and so
  is the start of the search for a free key of no bits.
\<close>

lemma hashtab_one_chain:
  "drm_ht_create True 0 = Some (None, ht_created 0)"
  "drm_ht_find_item hash32_buf (ht_created 0) k = None"
  "drm_ht_insert_item hash32_buf (ht_created 0) item = None"
  "drm_ht_just_insert_please hash32_buf ht item seed 0 shift add = None"
  by (simp_all add: drm_ht_create_def ht_created_def drm_ht_find_item_def drm_ht_find_key_rcu_def
      drm_ht_insert_item_def drm_ht_just_insert_please_def ht_bucket_def hash_64_no_bits shl64_def)

text \<open>
  C13. A table that was created for 2 to 2 to the 31 chains, that is with an order from 1 to 31, implements a map
  from keys to items. Creating gives the empty map; looking up a key returns its item or \<open>EINVAL\<close>; inserting
  adds the item, or returns \<open>EINVAL\<close> and changes nothing if the key is in use; removing by key or by item removes
  exactly that entry.
\<close>

theorem hashtab_refines_map:
  "(0 < order \<and> order \<le> 31 \<longrightarrow>
      (\<exists>ht0. drm_ht_create True order = Some (None, ht0) \<and> ht_wf hash32_buf ht0 \<and> ht_abs ht0 = Map.empty)) \<and>
   (ht_wf hash32_buf ht \<longrightarrow>
      drm_ht_find_item hash32_buf ht k = Some (case ht_abs ht k of None \<Rightarrow> Inl EINVAL | Some item \<Rightarrow> Inr item) \<and>
      (if ht_abs ht (hash_key item) = None
       then \<exists>ht'. drm_ht_insert_item hash32_buf ht item = Some (Inr ht') \<and> ht_wf hash32_buf ht' \<and>
              ht_abs ht' = (ht_abs ht)(hash_key item \<mapsto> item)
       else drm_ht_insert_item hash32_buf ht item = Some (Inl EINVAL)) \<and>
      (if ht_abs ht k = None then drm_ht_remove_key hash32_buf ht k = Some (Inl EINVAL)
       else \<exists>ht'. drm_ht_remove_key hash32_buf ht k = Some (Inr ht') \<and> ht_wf hash32_buf ht' \<and>
              ht_abs ht' = (ht_abs ht)(k := None)) \<and>
      (ht_abs ht (hash_key item) = Some item \<longrightarrow>
         ht_wf hash32_buf (drm_ht_remove_item ht item) \<and>
         ht_abs (drm_ht_remove_item ht item) = (ht_abs ht)(hash_key item := None)))"
proof (intro conjI impI)
  assume "0 < order \<and> order \<le> 31"
  then show "\<exists>ht0. drm_ht_create True order = Some (None, ht0) \<and> ht_wf hash32_buf ht0 \<and> ht_abs ht0 = Map.empty"
    using ht_create_abs [of order] by blast
next
  assume w: "ht_wf hash32_buf ht"
  show "drm_ht_find_item hash32_buf ht k = Some (case ht_abs ht k of None \<Rightarrow> Inl EINVAL | Some item \<Rightarrow> Inr item)"
    by (rule find_item_abs [OF w])
  show "if ht_abs ht (hash_key item) = None
       then \<exists>ht'. drm_ht_insert_item hash32_buf ht item = Some (Inr ht') \<and> ht_wf hash32_buf ht' \<and>
              ht_abs ht' = (ht_abs ht)(hash_key item \<mapsto> item)
       else drm_ht_insert_item hash32_buf ht item = Some (Inl EINVAL)"
    using insert_item_abs [OF w, of item] by simp
  show "if ht_abs ht k = None then drm_ht_remove_key hash32_buf ht k = Some (Inl EINVAL)
       else \<exists>ht'. drm_ht_remove_key hash32_buf ht k = Some (Inr ht') \<and> ht_wf hash32_buf ht' \<and>
              ht_abs ht' = (ht_abs ht)(k := None)"
  proof (cases "ht_abs ht k")
    case (Some e)
    then have "e \<in> ht_items ht" "hash_key e = k" using ht_abs_iff [OF w] by auto
    with remove_abs [OF w this(1)] Some show ?thesis
      by (simp add: drm_ht_remove_key_def find_item_abs(2) [OF w] drm_ht_remove_item_def)
  qed (simp add: drm_ht_remove_key_def find_item_abs(2) [OF w])
  show "ht_wf hash32_buf (drm_ht_remove_item ht item)"
    "ht_abs (drm_ht_remove_item ht item) = (ht_abs ht)(hash_key item := None)" if "ht_abs ht (hash_key item) = Some item"
    using remove_abs [OF w, of item] that ht_abs_iff [OF w] by auto
qed

theorem hashtab_refines_map_witness:
  "\<exists>ht0. drm_ht_create True 4 = Some (None, ht0) \<and> ht_abs ht0 = Map.empty \<and>
     drm_ht_find_item (\<lambda>v b. ucast v) ht0 7 = Some (Inl EINVAL) \<and>
     (\<exists>ht'. drm_ht_insert_item (\<lambda>v b. ucast v) ht0 \<lparr>hash_key = 7, hash_obj = 1\<rparr> = Some (Inr ht') \<and>
        ht_abs ht' = [7 \<mapsto> \<lparr>hash_key = 7, hash_obj = 1\<rparr>])"
proof -
  obtain ht0 where c: "drm_ht_create True 4 = Some (None, ht0)" "ht_wf (\<lambda>v b. ucast v) ht0" "ht_abs ht0 = Map.empty"
    using hashtab_refines_map [of 4 "\<lambda>v b. ucast v" "ht_created 4" 0 "\<lparr>hash_key = 7, hash_obj = 1\<rparr>"] by auto
  then show ?thesis
    using hashtab_refines_map [of 4 "\<lambda>v b. ucast v" ht0 7 "\<lparr>hash_key = 7, hash_obj = 1\<rparr>"] by auto
qed

text \<open>
  C39. Looking for a free key of 1 to 32 bits, shifted by less than 64, always ends within as many iterations as
  there are such keys. If one of them is free then the item is inserted under a free one, otherwise the
  result is \<open>EINVAL\<close> and the table does not change.
\<close>

theorem just_insert_finds_free_key:
  assumes wf: "ht_wf hash32_buf ht" and bits: "0 < unat bits" "unat bits \<le> 32" and shift: "unat shift < 64"
  shows "if \<exists>j<2 ^ unat bits. ht_abs ht (push_bit (unat shift) (of_nat j) + add) = None
    then \<exists>j item' ht'. j < 2 ^ unat bits \<and> ht_abs ht (push_bit (unat shift) (of_nat j) + add) = None \<and>
      drm_ht_just_insert_please hash32_buf ht item seed bits shift add = Some (None, item', ht') \<and>
      item' = item\<lparr>hash_key := push_bit (unat shift) (of_nat j) + add\<rparr> \<and> ht_wf hash32_buf ht' \<and>
      ht_abs ht' = (ht_abs ht)(hash_key item' \<mapsto> item')
    else \<exists>item'. drm_ht_just_insert_please hash32_buf ht item seed bits shift add = Some (Some EINVAL, item', ht)"
proof -
  define ks where "ks = map (\<lambda>j. push_bit (unat shift) (of_nat j) + add) [0..<2 ^ unat bits]"
  have "(0 :: nat) < 2 ^ unat bits" by simp
  from just_insert_loop_keys [OF wf bits(2) this shift, of item add]
  obtain item2 where l: "drm_ht_just_insert_please hash32_buf ht item seed bits shift add =
      (case try_keys (ht_try_insert hash32_buf) ht item ks of
         Some (ht', item') \<Rightarrow> Some (None, item', ht') | None \<Rightarrow> Some (Some EINVAL, item2, ht))"
    using shl64_defined [of bits 1] bits(2)
    unfolding drm_ht_just_insert_please_def Let_def hash_64_zero [OF bits] ks_def by auto
  have set: "set ks = (\<lambda>j. push_bit (unat shift) (of_nat j) + add) ` {..<2 ^ unat bits}" by (auto simp: ks_def)
  show ?thesis
  proof (cases "try_keys (ht_try_insert hash32_buf) ht item ks")
    case None
    then have "\<forall>k\<in>set ks. ht_abs ht k \<noteq> None" using hts.try_keys_none [OF wf] by blast
    with None l show ?thesis unfolding set by auto
  next
    case (Some r)
    then obtain ht' item' where r: "r = (ht', item')" by (cases r)
    from hts.try_keys_some [OF wf Some [unfolded r]] Some l show ?thesis unfolding set r by auto
  qed
qed

theorem just_insert_finds_free_key_witness:
  "\<exists>j item' ht'. j < 2 ^ 3 \<and>
     drm_ht_just_insert_please (\<lambda>v b. ucast v) (ht_created 4) \<lparr>hash_key = 0, hash_obj = 9\<rparr> 5 3 12 4096 =
       Some (None, item', ht') \<and> item' = \<lparr>hash_key = push_bit 12 (of_nat j) + 4096, hash_obj = 9\<rparr>"
proof -
  have w: "ht_wf (\<lambda>v b. ucast v) (ht_created 4)" and e: "ht_abs (ht_created 4) = Map.empty"
    by (rule ht_create_abs; simp)+
  have u: "unat (3 :: u32) = 3" "unat (12 :: u32) = 12" by simp_all
  have "\<exists>j<2 ^ 3. ht_abs (ht_created 4) (push_bit 12 (of_nat j) + 4096) = None"
    unfolding e by (rule exI [of _ 0]) simp
  then show ?thesis
    using just_insert_finds_free_key [OF w, of 3 12 4096 "\<lparr>hash_key = 0, hash_obj = 9\<rparr>" 5, unfolded u] by (simp only: if_P) auto
qed

end
