(* ===== verification/Lock.thy ===== *)
theory Lock
  imports Prelude "HOL-Library.Monad_Syntax"
begin

text \<open>
  The lock on the hardware of \<^verbatim>\<open>drm_lock.c\<close>, which clients take with an ioctl and the kernel takes while the
  hardware must be idle. The lock is a word with the context of the holder and the bits \<^verbatim>\<open>_DRM_LOCK_HELD\<close>
  and \<^verbatim>\<open>_DRM_LOCK_CONT\<close>. A null pointer that is followed is \<open>None\<close>. A loop around \<^verbatim>\<open>cmpxchg\<close> is one atomic
  update of the word, because iterations that fail have no effect. A function with several critical
  sections is split into them, so that they can be interleaved with those of other threads.
\<close>

unbundle bit_operations_syntax

section \<open>The word\<close>

definition DRM_LOCK_HELD :: u32 where "DRM_LOCK_HELD = 0x80000000"
definition DRM_LOCK_CONT :: u32 where "DRM_LOCK_CONT = 0x40000000"

definition DRM_LOCK_IS_HELD :: "u32 \<Rightarrow> bool" where
  "DRM_LOCK_IS_HELD lock \<longleftrightarrow> lock AND DRM_LOCK_HELD \<noteq> 0"

definition DRM_LOCKING_CONTEXT :: "u32 \<Rightarrow> u32" where
  "DRM_LOCKING_CONTEXT lock = lock AND NOT (DRM_LOCK_HELD OR DRM_LOCK_CONT)"

definition DRM_KERNEL_CONTEXT :: u32 where "DRM_KERNEL_CONTEXT = 0"

definition DRM_LOCK_QUIESCENT :: u32 where "DRM_LOCK_QUIESCENT = 0x02"

text \<open>
  \<open>hw_lock\<close> is the word, if there is one; files are numbers. \<open>lock_queue\<close> has the contexts of the threads in the wait
  queue that sleep or are about to sleep, because their state is \<^verbatim>\<open>TASK_INTERRUPTIBLE\<close>.
\<close>

record drm_lock_data =
  hw_lock :: "u32 option"
  lock_file_priv :: "nat option"
  lock_queue :: "u32 set"
  kernel_waiters :: u32
  user_waiters :: u32
  idle_has_lock :: bool

section \<open>Waiting\<close>

text \<open>
  A thread marks itself as about to sleep before it tries to take the lock, and clears the mark when it has
  done waiting. No thread of the queue waits exclusively, so waking up clears the marks of all.
\<close>

definition set_current_state_interruptible :: "drm_lock_data \<Rightarrow> u32 \<Rightarrow> drm_lock_data" where
  "set_current_state_interruptible lock_data context = lock_data\<lparr>lock_queue := insert context (lock_queue lock_data)\<rparr>"

definition set_current_state_running :: "drm_lock_data \<Rightarrow> u32 \<Rightarrow> drm_lock_data" where
  "set_current_state_running lock_data context = lock_data\<lparr>lock_queue := lock_queue lock_data - {context}\<rparr>"

definition wake_up_interruptible :: "drm_lock_data \<Rightarrow> drm_lock_data" where
  "wake_up_interruptible lock_data = lock_data\<lparr>lock_queue := {}\<rparr>"

section \<open>Taking and freeing\<close>

definition drm_lock_take :: "drm_lock_data \<Rightarrow> u32 \<Rightarrow> (bool \<times> drm_lock_data) option" where
  "drm_lock_take lock_data context =
     do { old \<leftarrow> hw_lock lock_data;
          let new = (if DRM_LOCK_IS_HELD old then old OR DRM_LOCK_CONT
                     else context OR DRM_LOCK_HELD OR
                       (if user_waiters lock_data + kernel_waiters lock_data > 1 then DRM_LOCK_CONT else 0));
          let lock_data = lock_data\<lparr>hw_lock := Some new\<rparr>;
          if DRM_LOCKING_CONTEXT old = context \<and> DRM_LOCK_IS_HELD old then Some (False, lock_data)
          else if DRM_LOCKING_CONTEXT new = context \<and> DRM_LOCK_IS_HELD new then Some (True, lock_data)
          else Some (False, lock_data) }"

definition drm_lock_transfer :: "drm_lock_data \<Rightarrow> u32 \<Rightarrow> drm_lock_data option" where
  "drm_lock_transfer lock_data context =
     do { let lock_data = lock_data\<lparr>lock_file_priv := None\<rparr>;
          old \<leftarrow> hw_lock lock_data;
          Some (lock_data\<lparr>hw_lock := Some (context OR DRM_LOCK_HELD)\<rparr>) }"

text \<open>
  Freeing first checks under the spinlock whether the kernel waits. If it does it gets the lock. If not
  the word is changed later, without the spinlock, and then those who wait are woken up. The result tells
  about an error.
\<close>

definition lock_free_hand_over :: "drm_lock_data \<Rightarrow> (bool \<times> drm_lock_data) option" where
  "lock_free_hand_over lock_data =
     (if kernel_waiters lock_data \<noteq> 0
      then do { lock_data \<leftarrow> drm_lock_transfer lock_data 0; Some (True, lock_data\<lparr>idle_has_lock := True\<rparr>) }
      else Some (False, lock_data))"

definition lock_free_word :: "drm_lock_data \<Rightarrow> u32 \<Rightarrow> (bool \<times> drm_lock_data) option" where
  "lock_free_word lock_data context =
     do { old \<leftarrow> hw_lock lock_data;
          let lock_data = lock_data\<lparr>hw_lock := Some (DRM_LOCKING_CONTEXT old)\<rparr>;
          if DRM_LOCK_IS_HELD old \<and> DRM_LOCKING_CONTEXT old \<noteq> context then Some (True, lock_data)
          else Some (False, lock_data) }"

definition drm_legacy_lock_free :: "drm_lock_data \<Rightarrow> u32 \<Rightarrow> (bool \<times> drm_lock_data) option" where
  "drm_legacy_lock_free lock_data context =
     do { (handed_over, lock_data) \<leftarrow> lock_free_hand_over lock_data;
          if handed_over then Some (True, lock_data)
          else do { (err, lock_data) \<leftarrow> lock_free_word lock_data context;
                    if err then Some (True, lock_data) else Some (False, wake_up_interruptible lock_data) } }"

section \<open>The ioctls\<close>

datatype lock_attempt_result = Lock_Done "errno option" | Lock_Again

text \<open>One attempt to get the lock. The null pointer is tested before it is followed.\<close>

definition lock_attempt :: "drm_lock_data \<Rightarrow> u32 \<Rightarrow> nat \<Rightarrow> lock_attempt_result \<times> drm_lock_data" where
  "lock_attempt lock_data context file_priv =
     (let lock_data = set_current_state_interruptible lock_data context
      in case drm_lock_take lock_data context of
           None \<Rightarrow> (Lock_Done (Some EINTR), lock_data)
         | Some (taken, lock_data) \<Rightarrow>
             if taken then (Lock_Done None, lock_data\<lparr>lock_file_priv := Some file_priv\<rparr>) else (Lock_Again, lock_data))"

text \<open>
  The waiting loop. The list says what other threads do to the lock during each \<^verbatim>\<open>schedule\<close> and
  whether a signal is pending afterwards; \<open>None\<close> means that the thread still waits at its end.
\<close>

fun drm_legacy_lock_loop ::
  "(drm_lock_data \<Rightarrow> drm_lock_data \<times> bool) list \<Rightarrow> drm_lock_data \<Rightarrow> u32 \<Rightarrow> nat \<Rightarrow> (errno option \<times> drm_lock_data) option" where
  "drm_legacy_lock_loop schedules lock_data context file_priv =
     (case lock_attempt lock_data context file_priv of
        (Lock_Done ret, lock_data) \<Rightarrow> Some (ret, lock_data)
      | (Lock_Again, lock_data) \<Rightarrow>
          (case schedules of
             [] \<Rightarrow> None
           | schedule # schedules' \<Rightarrow>
               (case schedule lock_data of
                  (lock_data, signal_pending) \<Rightarrow>
                    if signal_pending then Some (Some EINTR, lock_data)
                    else drm_legacy_lock_loop schedules' lock_data context file_priv)))"

declare drm_legacy_lock_loop.simps [simp del]

text \<open>The part of a file that the ioctls use, and the data for signals of the device.\<close>

record drm_lock_file =
  lock_file_id :: nat
  lock_count :: u64
  lock_is_master :: bool

record drm_sigdata =
  sig_context :: u32
  sig_lock :: bool

text \<open>
  \<open>legacy\<close> is the feature flag of the driver, and \<open>dma_quiescent\<close> the result of its callback, if it has
  one. The result is the error, the lock, the file and the data for signals.
\<close>

definition drm_legacy_lock ::
  "(drm_lock_data \<Rightarrow> drm_lock_data \<times> bool) list \<Rightarrow> bool \<Rightarrow> bool option \<Rightarrow> drm_lock_data \<Rightarrow> u32 \<Rightarrow> u32 \<Rightarrow> drm_lock_file \<Rightarrow>
   drm_sigdata \<Rightarrow> (errno option \<times> drm_lock_data \<times> drm_lock_file \<times> drm_sigdata) option" where
  "drm_legacy_lock schedules legacy dma_quiescent lock_data context flags file sigdata =
     (if \<not> legacy then Some (Some EINVAL, lock_data, file, sigdata)
      else let file = file\<lparr>lock_count := lock_count file + 1\<rparr>
      in if context = DRM_KERNEL_CONTEXT then Some (Some EINVAL, lock_data, file, sigdata)
      else do {
        let lock_data = lock_data\<lparr>user_waiters := user_waiters lock_data + 1\<rparr>;
        (ret, lock_data) \<leftarrow> drm_legacy_lock_loop schedules lock_data context (lock_file_id file);
        let lock_data = lock_data\<lparr>user_waiters := user_waiters lock_data - 1\<rparr>;
        let lock_data = set_current_state_running lock_data context;
        if ret \<noteq> None then Some (ret, lock_data, file, sigdata)
        else let sigdata = (if \<not> lock_is_master file
                            then \<lparr>sig_context = context, sig_lock = (hw_lock lock_data \<noteq> None)\<rparr> else sigdata)
        in if dma_quiescent = Some True \<and> flags AND DRM_LOCK_QUIESCENT \<noteq> 0
           then Some (Some EBUSY, lock_data, file, sigdata)
           else Some (None, lock_data, file, sigdata) })"

definition drm_legacy_unlock :: "bool \<Rightarrow> drm_lock_data \<Rightarrow> u32 \<Rightarrow> (errno option \<times> drm_lock_data) option" where
  "drm_legacy_unlock legacy lock_data context =
     (if \<not> legacy then Some (Some EINVAL, lock_data)
      else if context = DRM_KERNEL_CONTEXT then Some (Some EINVAL, lock_data)
      else do { (err, lock_data) \<leftarrow> drm_legacy_lock_free lock_data context; Some (None, lock_data) })"

section \<open>The lock of the kernel\<close>

text \<open>The two critical sections around the attempt to take the lock; the first tells whether to try.\<close>

definition idlelock_enter :: "drm_lock_data \<Rightarrow> bool \<times> drm_lock_data" where
  "idlelock_enter lock_data =
     (\<not> idle_has_lock lock_data, lock_data\<lparr>kernel_waiters := kernel_waiters lock_data + 1\<rparr>)"

definition idlelock_set :: "drm_lock_data \<Rightarrow> bool \<Rightarrow> drm_lock_data" where
  "idlelock_set lock_data ret = (if ret then lock_data\<lparr>idle_has_lock := True\<rparr> else lock_data)"

definition drm_legacy_idlelock_take :: "drm_lock_data \<Rightarrow> drm_lock_data option" where
  "drm_legacy_idlelock_take lock_data =
     (case idlelock_enter lock_data of
        (try_take, lock_data) \<Rightarrow>
          if try_take
          then do { (ret, lock_data) \<leftarrow> drm_lock_take lock_data DRM_KERNEL_CONTEXT; Some (idlelock_set lock_data ret) }
          else Some lock_data)"

definition drm_legacy_idlelock_release :: "drm_lock_data \<Rightarrow> drm_lock_data option" where
  "drm_legacy_idlelock_release lock_data =
     (let lock_data = lock_data\<lparr>kernel_waiters := kernel_waiters lock_data - 1\<rparr>
      in if kernel_waiters lock_data = 0
         then if idle_has_lock lock_data
              then do { old \<leftarrow> hw_lock lock_data;
                        let lock_data = lock_data\<lparr>hw_lock := Some DRM_KERNEL_CONTEXT\<rparr>;
                        let lock_data = wake_up_interruptible lock_data;
                        Some (lock_data\<lparr>idle_has_lock := False\<rparr>) }
              else Some lock_data
         else Some lock_data)"

section \<open>Closing a file\<close>

definition drm_legacy_i_have_hw_lock :: "drm_lock_data \<Rightarrow> drm_lock_file \<Rightarrow> bool" where
  "drm_legacy_i_have_hw_lock lock_data file \<longleftrightarrow>
     lock_count file \<noteq> 0 \<and>
     (case hw_lock lock_data of None \<Rightarrow> False | Some lock \<Rightarrow> DRM_LOCK_IS_HELD lock) \<and>
     lock_file_priv lock_data = Some (lock_file_id file)"

text \<open>\<open>has_master\<close> tells whether the device still has a master.\<close>

definition drm_legacy_lock_release :: "bool \<Rightarrow> drm_lock_data \<Rightarrow> drm_lock_file \<Rightarrow> drm_lock_data option" where
  "drm_legacy_lock_release has_master lock_data file =
     (if \<not> has_master then Some lock_data
      else if drm_legacy_i_have_hw_lock lock_data file
      then do { lock \<leftarrow> hw_lock lock_data;
                (err, lock_data) \<leftarrow> drm_legacy_lock_free lock_data (DRM_LOCKING_CONTEXT lock);
                Some lock_data }
      else Some lock_data)"

end
