(* ===== verification/Lock_Correct.thy ===== *)
theory Lock_Correct
  imports Lock
begin

text \<open>
  Correctness of the hardware lock. The threads of clients and of the kernel are interleaved at their
  critical sections. Invariants of all reachable states show that the lock has at most one holder, that its
  word tells who that is, and that no wake-up is lost; a ranking of the states shows that every waiting
  client gets the lock.
\<close>

unbundle bit_operations_syntax

section \<open>The word\<close>

lemma lock_word_bits [lock_simps]:
  "DRM_LOCK_HELD = push_bit 31 1" "DRM_LOCK_CONT = push_bit 30 1" "DRM_LOCKING_CONTEXT w = take_bit 30 w"
  "DRM_LOCK_IS_HELD w \<longleftrightarrow> bit w 31"
proof -
  show held: "DRM_LOCK_HELD = push_bit 31 1" by (simp add: DRM_LOCK_HELD_def)
  show cont: "DRM_LOCK_CONT = push_bit 30 1" by (simp add: DRM_LOCK_CONT_def)
  have "NOT (DRM_LOCK_HELD OR DRM_LOCK_CONT) = mask 30"
    by (simp add: DRM_LOCK_HELD_def DRM_LOCK_CONT_def mask_eq_exp_minus_1)
  then show "DRM_LOCKING_CONTEXT w = take_bit 30 w"
    by (simp add: DRM_LOCKING_CONTEXT_def take_bit_eq_mask)
  show "DRM_LOCK_IS_HELD w \<longleftrightarrow> bit w 31"
    unfolding DRM_LOCK_IS_HELD_def held by (simp add: bit_iff_and_push_bit_not_eq_0)
qed

lemma held_or [simp]:
  "DRM_LOCK_IS_HELD (v OR w) \<longleftrightarrow> DRM_LOCK_IS_HELD v \<or> DRM_LOCK_IS_HELD w"
  "DRM_LOCK_IS_HELD DRM_LOCK_HELD" "\<not> DRM_LOCK_IS_HELD DRM_LOCK_CONT" "\<not> DRM_LOCK_IS_HELD 0"
  "\<not> DRM_LOCK_IS_HELD (DRM_LOCKING_CONTEXT w)"
  by (simp_all add: lock_simps bit_simps)

lemma context_or [simp]:
  "DRM_LOCKING_CONTEXT (v OR w) = DRM_LOCKING_CONTEXT v OR DRM_LOCKING_CONTEXT w"
  "DRM_LOCKING_CONTEXT DRM_LOCK_HELD = 0" "DRM_LOCKING_CONTEXT DRM_LOCK_CONT = 0" "DRM_LOCKING_CONTEXT 0 = 0"
  "DRM_LOCKING_CONTEXT (DRM_LOCKING_CONTEXT w) = DRM_LOCKING_CONTEXT w"
  by (simp_all add: lock_simps take_bit_push_bit)

text \<open>The word says that \<open>c\<close> holds the lock. A client uses a number that leaves the two bits free.\<close>

definition word_held :: "u32 \<Rightarrow> u32 \<Rightarrow> bool" where
  "word_held w c \<longleftrightarrow> DRM_LOCK_IS_HELD w \<and> DRM_LOCKING_CONTEXT w = c"

definition client_context :: "u32 \<Rightarrow> bool" where
  "client_context c \<longleftrightarrow> c \<noteq> DRM_KERNEL_CONTEXT \<and> DRM_LOCKING_CONTEXT c = c"

lemma word_held_unique: "word_held w c \<Longrightarrow> word_held w c' \<Longrightarrow> c = c'"
  by (simp add: word_held_def)

lemma drm_lock_take_cases:
  assumes "hw_lock d = Some w" and "DRM_LOCKING_CONTEXT c = c"
  obtains w' where "drm_lock_take d c = Some (\<not> DRM_LOCK_IS_HELD w, d\<lparr>hw_lock := Some w'\<rparr>)"
    and "DRM_LOCK_IS_HELD w'"
    and "DRM_LOCKING_CONTEXT w' = (if DRM_LOCK_IS_HELD w then DRM_LOCKING_CONTEXT w else c)"
  using assms by (cases "DRM_LOCK_IS_HELD w"; cases "1 < user_waiters d + kernel_waiters d")
    (auto simp: drm_lock_take_def Let_def)

lemma lock_free_word_eq:
  "hw_lock d = Some w \<Longrightarrow> lock_free_word d c =
     Some (DRM_LOCK_IS_HELD w \<and> DRM_LOCKING_CONTEXT w \<noteq> c, d\<lparr>hw_lock := Some (DRM_LOCKING_CONTEXT w)\<rparr>)"
  by (simp add: lock_free_word_def Let_def)

section \<open>Interleaving\<close>

text \<open>
  A client that wants the lock is at the start of the waiting loop, has marked itself as about to sleep, or is
  in \<^verbatim>\<open>schedule\<close>. Then it took the lock but did not yet record its file, is about to leave the queue, holds the lock,
  found no waiting kernel thread when it unlocked but did not yet change the word, or changed it but did not
  yet wake up the others. A kernel thread is about to try, knows whether it took the lock, or is in its
  section.
\<close>

datatype client_pc = Client_Idle | Client_Waiting | Client_Ready | Client_Sleeping | Client_Took | Client_Leaving
  | Client_Holding | Client_Freeing | Client_Waking

datatype kernel_pc = Kernel_Idle | Kernel_Trying | Kernel_Tried bool | Kernel_Active

record lock_system =
  sys_lock :: drm_lock_data
  sys_clients :: "u32 \<Rightarrow> client_pc"
  sys_kernel :: "kernel_pc list"

text \<open>
  The steps of the threads. Contexts are given out to one thread each, and a client only unlocks what it
  holds. A thread returns from \<^verbatim>\<open>schedule\<close> if it was woken up, also before it called it, or if it gets a signal.
\<close>

inductive lock_step :: "lock_system \<Rightarrow> lock_system \<Rightarrow> bool" where
  wait: "sys_clients s c = Client_Idle \<Longrightarrow> client_context c \<Longrightarrow>
    lock_step s (s\<lparr>sys_lock := (sys_lock s)\<lparr>user_waiters := user_waiters (sys_lock s) + 1\<rparr>,
      sys_clients := (sys_clients s)(c := Client_Waiting)\<rparr>)"
| ready: "sys_clients s c = Client_Waiting \<Longrightarrow>
    lock_step s (s\<lparr>sys_lock := set_current_state_interruptible (sys_lock s) c,
      sys_clients := (sys_clients s)(c := Client_Ready)\<rparr>)"
| take: "sys_clients s c = Client_Ready \<Longrightarrow> drm_lock_take (sys_lock s) c = Some (taken, d) \<Longrightarrow>
    lock_step s (s\<lparr>sys_lock := d,
      sys_clients := (sys_clients s)(c := if taken then Client_Took else Client_Sleeping)\<rparr>)"
| resume: "sys_clients s c = Client_Sleeping \<Longrightarrow> c \<notin> lock_queue (sys_lock s) \<Longrightarrow>
    lock_step s (s\<lparr>sys_lock := sys_lock s, sys_clients := (sys_clients s)(c := Client_Waiting)\<rparr>)"
| signal: "sys_clients s c = Client_Sleeping \<Longrightarrow>
    lock_step s (s\<lparr>sys_lock := set_current_state_running ((sys_lock s)\<lparr>user_waiters := user_waiters (sys_lock s) - 1\<rparr>) c,
      sys_clients := (sys_clients s)(c := Client_Idle)\<rparr>)"
| record_file: "sys_clients s c = Client_Took \<Longrightarrow>
    lock_step s (s\<lparr>sys_lock := (sys_lock s)\<lparr>lock_file_priv := Some f\<rparr>,
      sys_clients := (sys_clients s)(c := Client_Leaving)\<rparr>)"
| leave: "sys_clients s c = Client_Leaving \<Longrightarrow>
    lock_step s (s\<lparr>sys_lock := set_current_state_running ((sys_lock s)\<lparr>user_waiters := user_waiters (sys_lock s) - 1\<rparr>) c,
      sys_clients := (sys_clients s)(c := Client_Holding)\<rparr>)"
| unlock: "sys_clients s c = Client_Holding \<Longrightarrow> lock_free_hand_over (sys_lock s) = Some (handed_over, d) \<Longrightarrow>
    lock_step s (s\<lparr>sys_lock := d,
      sys_clients := (sys_clients s)(c := if handed_over then Client_Idle else Client_Freeing)\<rparr>)"
| free: "sys_clients s c = Client_Freeing \<Longrightarrow> lock_free_word (sys_lock s) c = Some (err, d) \<Longrightarrow>
    lock_step s (s\<lparr>sys_lock := d, sys_clients := (sys_clients s)(c := if err then Client_Idle else Client_Waking)\<rparr>)"
| wake: "sys_clients s c = Client_Waking \<Longrightarrow>
    lock_step s (s\<lparr>sys_lock := wake_up_interruptible (sys_lock s), sys_clients := (sys_clients s)(c := Client_Idle)\<rparr>)"
| kernel_enter: "i < length (sys_kernel s) \<Longrightarrow> sys_kernel s ! i = Kernel_Idle \<Longrightarrow>
    idlelock_enter (sys_lock s) = (try_take, d) \<Longrightarrow>
    lock_step s (s\<lparr>sys_lock := d, sys_kernel := (sys_kernel s)[i := if try_take then Kernel_Trying else Kernel_Active]\<rparr>)"
| kernel_take: "i < length (sys_kernel s) \<Longrightarrow> sys_kernel s ! i = Kernel_Trying \<Longrightarrow>
    drm_lock_take (sys_lock s) DRM_KERNEL_CONTEXT = Some (taken, d) \<Longrightarrow>
    lock_step s (s\<lparr>sys_lock := d, sys_kernel := (sys_kernel s)[i := Kernel_Tried taken]\<rparr>)"
| kernel_set: "i < length (sys_kernel s) \<Longrightarrow> sys_kernel s ! i = Kernel_Tried taken \<Longrightarrow>
    lock_step s (s\<lparr>sys_lock := idlelock_set (sys_lock s) taken, sys_kernel := (sys_kernel s)[i := Kernel_Active]\<rparr>)"
| kernel_release: "i < length (sys_kernel s) \<Longrightarrow> sys_kernel s ! i = Kernel_Active \<Longrightarrow>
    drm_legacy_idlelock_release (sys_lock s) = Some d \<Longrightarrow>
    lock_step s (s\<lparr>sys_lock := d, sys_kernel := (sys_kernel s)[i := Kernel_Idle]\<rparr>)"

lemmas wait_queue_simps [simp] =
  set_current_state_interruptible_def set_current_state_running_def wake_up_interruptible_def

text \<open>The system with a free lock, without clients and with \<open>n\<close> threads of the kernel.\<close>

definition lock_init :: "nat \<Rightarrow> lock_system" where
  "lock_init n = \<lparr>sys_lock = \<lparr>hw_lock = Some 0, lock_file_priv = None, lock_queue = {}, kernel_waiters = 0, user_waiters = 0,
     idle_has_lock = False\<rparr>, sys_clients = (\<lambda>c. Client_Idle), sys_kernel = replicate n Kernel_Idle\<rparr>"

definition pc_owns :: "client_pc \<Rightarrow> bool" where
  "pc_owns p \<longleftrightarrow> p \<in> {Client_Took, Client_Leaving, Client_Holding, Client_Freeing}"

definition client_owns :: "lock_system \<Rightarrow> u32 \<Rightarrow> bool" where
  "client_owns s c \<longleftrightarrow> pc_owns (sys_clients s c)"

definition kernel_owns :: "lock_system \<Rightarrow> bool" where
  "kernel_owns s \<longleftrightarrow> idle_has_lock (sys_lock s) \<or> Kernel_Tried True \<in> set (sys_kernel s)"

section \<open>The invariant\<close>

definition kernel_busy :: "kernel_pc list \<Rightarrow> nat" where
  "kernel_busy ks = length (filter (\<lambda>k. k \<noteq> Kernel_Idle) ks)"

definition lock_inv :: "lock_system \<Rightarrow> bool" where
  "lock_inv s \<longleftrightarrow>
     (\<exists>w. hw_lock (sys_lock s) = Some w \<and>
        (\<forall>c. client_owns s c \<longrightarrow> word_held w c) \<and> (kernel_owns s \<longrightarrow> word_held w DRM_KERNEL_CONTEXT) \<and>
        (DRM_LOCK_IS_HELD w \<longrightarrow> (\<exists>c. client_owns s c) \<or> kernel_owns s)) \<and>
     (\<forall>c. sys_clients s c \<noteq> Client_Idle \<longrightarrow> client_context c) \<and>
     length (sys_kernel s) < 2 ^ 32 \<and> unat (kernel_waiters (sys_lock s)) = kernel_busy (sys_kernel s) \<and>
     (idle_has_lock (sys_lock s) \<longrightarrow> kernel_waiters (sys_lock s) \<noteq> 0)"

lemma kernel_busy_update:
  assumes "i < length ks"
  shows "kernel_busy (ks[i := k]) + (if ks ! i = Kernel_Idle then 0 else 1) =
    kernel_busy ks + (if k = Kernel_Idle then 0 else 1)"
  unfolding kernel_busy_def using assms
  by (subst (2) id_take_nth_drop [OF assms]) (simp add: upd_conv_take_nth_drop)

lemma kernel_busy_le: "kernel_busy ks \<le> length ks"
  by (simp add: kernel_busy_def)

lemma kernel_busy_zero: "kernel_busy ks = 0 \<longleftrightarrow> (\<forall>k\<in>set ks. k = Kernel_Idle)"
  by (simp add: kernel_busy_def filter_empty_conv)

lemma lock_inv_init: "n < 2 ^ 32 \<Longrightarrow> lock_inv (lock_init n)"
  by (simp add: lock_inv_def lock_init_def client_owns_def pc_owns_def kernel_owns_def kernel_busy_def)

lemma pc_owns_simps [simp]:
  "\<not> pc_owns Client_Idle" "\<not> pc_owns Client_Waiting" "\<not> pc_owns Client_Ready" "\<not> pc_owns Client_Sleeping"
  "pc_owns Client_Took" "pc_owns Client_Leaving" "pc_owns Client_Holding" "pc_owns Client_Freeing" "\<not> pc_owns Client_Waking"
  by (simp_all add: pc_owns_def)

lemma client_owns_update [simp]:
  "client_owns (s\<lparr>sys_lock := d, sys_clients := (sys_clients s)(c := p)\<rparr>) c' \<longleftrightarrow>
     (if c' = c then pc_owns p else client_owns s c')"
  by (simp add: client_owns_def)

lemma lock_inv_lock: "lock_inv s \<Longrightarrow> \<exists>w. hw_lock (sys_lock s) = Some w"
  by (auto simp: lock_inv_def)

lemma lock_inv_client: "lock_inv s \<Longrightarrow> sys_clients s c \<noteq> Client_Idle \<Longrightarrow> client_context c"
  by (simp add: lock_inv_def)

lemma lock_inv_word:
  assumes "lock_inv s" and "hw_lock (sys_lock s) = Some w"
  shows "client_owns s c \<Longrightarrow> word_held w c" "kernel_owns s \<Longrightarrow> word_held w DRM_KERNEL_CONTEXT"
    "DRM_LOCK_IS_HELD w \<Longrightarrow> (\<exists>c. client_owns s c) \<or> kernel_owns s"
  using assms by (auto simp: lock_inv_def)

lemma lock_inv_kernel:
  assumes "lock_inv s"
  shows "length (sys_kernel s) < 2 ^ 32" "unat (kernel_waiters (sys_lock s)) = kernel_busy (sys_kernel s)"
    "idle_has_lock (sys_lock s) \<Longrightarrow> kernel_waiters (sys_lock s) \<noteq> 0"
  using assms by (simp_all add: lock_inv_def)

lemma lock_invI:
  assumes "hw_lock (sys_lock s) = Some w" and "\<And>c. client_owns s c \<Longrightarrow> word_held w c"
    and "kernel_owns s \<Longrightarrow> word_held w DRM_KERNEL_CONTEXT"
    and "DRM_LOCK_IS_HELD w \<Longrightarrow> (\<exists>c. client_owns s c) \<or> kernel_owns s"
    and "\<And>c. sys_clients s c \<noteq> Client_Idle \<Longrightarrow> client_context c"
    and "length (sys_kernel s) < 2 ^ 32" and "unat (kernel_waiters (sys_lock s)) = kernel_busy (sys_kernel s)"
    and "idle_has_lock (sys_lock s) \<Longrightarrow> kernel_waiters (sys_lock s) \<noteq> 0"
  shows "lock_inv s"
  unfolding lock_inv_def using assms by (intro conjI exI [of _ w] allI impI) simp_all

lemma owner_not_idle: "client_owns s c \<Longrightarrow> sys_clients s c \<noteq> Client_Idle"
  by (auto simp: client_owns_def)

lemma owner_exclusive:
  assumes "lock_inv s" and "client_owns s c"
  shows "\<not> kernel_owns s" and "client_owns s c' \<longleftrightarrow> c' = c"
proof -
  obtain w where "hw_lock (sys_lock s) = Some w" using lock_inv_lock [OF assms(1)] by blast
  note i = lock_inv_word [OF assms(1) this]
  have "client_context c" by (rule lock_inv_client [OF assms(1) owner_not_idle [OF assms(2)]])
  then show "\<not> kernel_owns s"
    using word_held_unique [OF i(1) [OF assms(2)]] i(2) by (auto simp: client_context_def)
  show "client_owns s c' \<longleftrightarrow> c' = c"
    using word_held_unique [OF i(1) [OF assms(2)] i(1)] assms(2) by blast
qed

section \<open>Every step keeps the invariant\<close>

text \<open>A step of a client that changes neither the holder nor the state of the kernel.\<close>

lemma client_step_same:
  assumes "lock_inv s" and "hw_lock (sys_lock s) = Some w" and "hw_lock d = Some w'"
    and "DRM_LOCK_IS_HELD w' = DRM_LOCK_IS_HELD w"
    and "DRM_LOCK_IS_HELD w \<Longrightarrow> DRM_LOCKING_CONTEXT w' = DRM_LOCKING_CONTEXT w"
    and "kernel_waiters d = kernel_waiters (sys_lock s)" and "idle_has_lock d = idle_has_lock (sys_lock s)"
    and "pc_owns p = pc_owns (sys_clients s c)" and "p = Client_Idle \<or> client_context c"
  shows "lock_inv (s\<lparr>sys_lock := d, sys_clients := (sys_clients s)(c := p)\<rparr>)"
proof -
  have o: "client_owns (s\<lparr>sys_lock := d, sys_clients := (sys_clients s)(c := p)\<rparr>) c' \<longleftrightarrow> client_owns s c'" for c'
    using assms(8) by (simp add: client_owns_def)
  have k: "kernel_owns (s\<lparr>sys_lock := d, sys_clients := (sys_clients s)(c := p)\<rparr>) \<longleftrightarrow> kernel_owns s"
    using assms(7) by (simp add: kernel_owns_def)
  have h: "word_held w' c' \<longleftrightarrow> word_held w c'" for c' using assms(4,5) by (auto simp: word_held_def)
  note i = lock_inv_word [OF assms(1,2)] lock_inv_client [OF assms(1)]
  show ?thesis
    using assms(2-7,9) lock_inv_kernel [OF assms(1)]
    by (intro lock_invI [of _ w']) (simp_all add: o k h i del: client_owns_update split: if_splits)
qed

lemma client_take_step:
  assumes "lock_inv s" and "sys_clients s c = Client_Ready" and "drm_lock_take (sys_lock s) c = Some (taken, d)"
  shows "lock_inv (s\<lparr>sys_lock := d, sys_clients := (sys_clients s)(c := if taken then Client_Took else Client_Sleeping)\<rparr>)"
proof -
  obtain w where w: "hw_lock (sys_lock s) = Some w" using lock_inv_lock [OF assms(1)] by blast
  note i = lock_inv_word [OF assms(1) w]
  have c: "client_context c" using lock_inv_client [OF assms(1)] assms(2) by simp
  then have "DRM_LOCKING_CONTEXT c = c" by (simp add: client_context_def)
  from drm_lock_take_cases [OF w this] obtain w' where
    t: "drm_lock_take (sys_lock s) c = Some (\<not> DRM_LOCK_IS_HELD w, (sys_lock s)\<lparr>hw_lock := Some w'\<rparr>)"
    and w': "DRM_LOCK_IS_HELD w'"
      "DRM_LOCKING_CONTEXT w' = (if DRM_LOCK_IS_HELD w then DRM_LOCKING_CONTEXT w else c)" .
  from t assms(3) have d: "taken = (\<not> DRM_LOCK_IS_HELD w)" "d = (sys_lock s)\<lparr>hw_lock := Some w'\<rparr>" by auto
  show ?thesis
  proof (cases "DRM_LOCK_IS_HELD w")
    case True
    then show ?thesis
      using assms(1,2) w w' c d by (intro client_step_same [of s w d w']) simp_all
  next
    case False
    then have "\<not> kernel_owns s" and "\<not> client_owns s c'" for c' using i(1,2) by (auto simp: word_held_def)
    moreover have "kernel_owns (s\<lparr>sys_lock := d, sys_clients := (sys_clients s)(c := Client_Took)\<rparr>) = kernel_owns s"
      by (simp add: d kernel_owns_def)
    ultimately show ?thesis
      using c w' lock_inv_client [OF assms(1)] False lock_inv_kernel [OF assms(1)]
      by (intro lock_invI [of _ w']) (auto simp: d word_held_def split: if_splits)
  qed
qed

lemma unlock_step:
  assumes "lock_inv s" and "sys_clients s c = Client_Holding" and "lock_free_hand_over (sys_lock s) = Some (handed_over, d)"
  shows "lock_inv (s\<lparr>sys_lock := d, sys_clients := (sys_clients s)(c := if handed_over then Client_Idle else Client_Freeing)\<rparr>)"
proof -
  obtain w where w: "hw_lock (sys_lock s) = Some w" using lock_inv_lock [OF assms(1)] by blast
  have o: "client_owns s c" using assms(2) by (simp add: client_owns_def)
  note ex = owner_exclusive [OF assms(1) o]
  show ?thesis
  proof (cases "kernel_waiters (sys_lock s) = 0")
    case True
    then show ?thesis
      using assms w lock_inv_client [OF assms(1)] by (intro client_step_same [of s w d w]) (simp_all add: lock_free_hand_over_def)
  next
    case False
    then have d: "handed_over" "d = (sys_lock s)\<lparr>lock_file_priv := None, hw_lock := Some DRM_LOCK_HELD, idle_has_lock := True\<rparr>"
      using assms(3) w by (auto simp: lock_free_hand_over_def drm_lock_transfer_def)
    then show ?thesis
      using lock_inv_client [OF assms(1)] False ex(2) lock_inv_kernel [OF assms(1)]
      by (intro lock_invI [of _ DRM_LOCK_HELD])
        (auto simp: word_held_def kernel_owns_def DRM_KERNEL_CONTEXT_def split: if_splits)
  qed
qed

lemma free_step:
  assumes "lock_inv s" and "sys_clients s c = Client_Freeing" and "lock_free_word (sys_lock s) c = Some (err, d)"
  shows "lock_inv (s\<lparr>sys_lock := d, sys_clients := (sys_clients s)(c := if err then Client_Idle else Client_Waking)\<rparr>)" and "\<not> err"
proof -
  obtain w where w: "hw_lock (sys_lock s) = Some w" using lock_inv_lock [OF assms(1)] by blast
  have o: "client_owns s c" using assms(2) by (simp add: client_owns_def)
  note ex = owner_exclusive [OF assms(1) o]
  have "word_held w c" by (rule lock_inv_word(1) [OF assms(1) w o])
  then show err: "\<not> err" using assms(3) by (simp add: lock_free_word_eq [OF w] word_held_def)
  have c: "client_context c" using lock_inv_client [OF assms(1), of c] assms(2) by simp
  have d: "d = (sys_lock s)\<lparr>hw_lock := Some (DRM_LOCKING_CONTEXT w)\<rparr>"
    using assms(3) by (simp add: lock_free_word_eq [OF w])
  then have "\<not> kernel_owns (s\<lparr>sys_lock := d, sys_clients := (sys_clients s)(c := Client_Waking)\<rparr>)"
    using ex(1) by (simp add: kernel_owns_def)
  with d err show "lock_inv (s\<lparr>sys_lock := d, sys_clients := (sys_clients s)(c := if err then Client_Idle else Client_Waking)\<rparr>)"
    using ex(2) c lock_inv_client [OF assms(1)] lock_inv_kernel [OF assms(1)]
    by (intro lock_invI [of _ "DRM_LOCKING_CONTEXT w"]) (auto split: if_splits)
qed

lemma client_owns_kernel_update [simp]:
  "client_owns (s\<lparr>sys_lock := d, sys_kernel := ks\<rparr>) c \<longleftrightarrow> client_owns s c"
  by (simp add: client_owns_def)

lemma in_list_update: "i < length xs \<Longrightarrow> x \<noteq> xs ! i \<Longrightarrow> x \<in> set (xs[i := y]) \<longleftrightarrow> x = y \<or> x \<in> set xs"
  by (metis in_set_conv_nth length_list_update nth_list_update_eq nth_list_update_neq set_update_memI)

lemma kernel_busy_pos: "i < length ks \<Longrightarrow> ks ! i \<noteq> Kernel_Idle \<Longrightarrow> 0 < kernel_busy ks"
  using kernel_busy_zero [of ks] nth_mem [of i ks] by fastforce

text \<open>A step of a kernel thread that changes neither the holder nor the number of waiting threads.\<close>

lemma kernel_step_same:
  assumes "lock_inv s" and "hw_lock (sys_lock s) = Some w" and "hw_lock d = Some w'"
    and "DRM_LOCK_IS_HELD w' = DRM_LOCK_IS_HELD w"
    and "DRM_LOCK_IS_HELD w \<Longrightarrow> DRM_LOCKING_CONTEXT w' = DRM_LOCKING_CONTEXT w"
    and "i < length (sys_kernel s)" and "unat (kernel_waiters d) = kernel_busy ((sys_kernel s)[i := p])"
    and "idle_has_lock d \<Longrightarrow> kernel_waiters d \<noteq> 0"
    and "kernel_owns (s\<lparr>sys_lock := d, sys_kernel := (sys_kernel s)[i := p]\<rparr>) \<longleftrightarrow> kernel_owns s"
  shows "lock_inv (s\<lparr>sys_lock := d, sys_kernel := (sys_kernel s)[i := p]\<rparr>)"
proof -
  have h: "word_held w' c \<longleftrightarrow> word_held w c" for c using assms(4,5) by (auto simp: word_held_def)
  note i = lock_inv_word [OF assms(1,2)] lock_inv_client [OF assms(1)] lock_inv_kernel [OF assms(1)]
  show ?thesis
    using assms(3-8) i by (intro lock_invI [of _ w']) (simp_all add: h assms(9))
qed

lemma kernel_enter_step:
  assumes "lock_inv s" and "i < length (sys_kernel s)" and "sys_kernel s ! i = Kernel_Idle"
    and "p = Kernel_Trying \<or> p = Kernel_Active"
  shows "lock_inv (s\<lparr>sys_lock := (sys_lock s)\<lparr>kernel_waiters := kernel_waiters (sys_lock s) + 1\<rparr>,
    sys_kernel := (sys_kernel s)[i := p]\<rparr>)"
proof -
  obtain w where w: "hw_lock (sys_lock s) = Some w" using lock_inv_lock [OF assms(1)] by blast
  note k = lock_inv_kernel [OF assms(1)]
  have b: "kernel_busy ((sys_kernel s)[i := p]) = kernel_busy (sys_kernel s) + 1"
    using kernel_busy_update [OF assms(2), of p] assms(3,4) by auto
  then have "kernel_busy (sys_kernel s) + 1 < 2 ^ 32"
    using kernel_busy_le [of "(sys_kernel s)[i := p]"] k(1) by simp
  then have u: "unat (kernel_waiters (sys_lock s) + 1) = kernel_busy (sys_kernel s) + 1"
    using k(2) by (subst unat_word_ariths) simp
  then have "kernel_waiters (sys_lock s) + 1 \<noteq> 0" by (metis Suc_eq_plus1 nat.distinct(1) unat_0)
  then show ?thesis
    using w u b assms(2-4)
    by (intro kernel_step_same [OF assms(1) w]) (auto simp: kernel_owns_def in_list_update)
qed

lemma kernel_take_step:
  assumes "lock_inv s" and "i < length (sys_kernel s)" and "sys_kernel s ! i = Kernel_Trying"
    and "drm_lock_take (sys_lock s) DRM_KERNEL_CONTEXT = Some (taken, d)"
  shows "lock_inv (s\<lparr>sys_lock := d, sys_kernel := (sys_kernel s)[i := Kernel_Tried taken]\<rparr>)"
proof -
  obtain w where w: "hw_lock (sys_lock s) = Some w" using lock_inv_lock [OF assms(1)] by blast
  note k = lock_inv_kernel [OF assms(1)] and i = lock_inv_word [OF assms(1) w]
  have "DRM_LOCKING_CONTEXT DRM_KERNEL_CONTEXT = DRM_KERNEL_CONTEXT" by (simp add: DRM_KERNEL_CONTEXT_def)
  from drm_lock_take_cases [OF w this] obtain w' where
    t: "drm_lock_take (sys_lock s) DRM_KERNEL_CONTEXT = Some (\<not> DRM_LOCK_IS_HELD w, (sys_lock s)\<lparr>hw_lock := Some w'\<rparr>)"
    and w': "DRM_LOCK_IS_HELD w'"
      "DRM_LOCKING_CONTEXT w' = (if DRM_LOCK_IS_HELD w then DRM_LOCKING_CONTEXT w else DRM_KERNEL_CONTEXT)" .
  from t assms(4) have d: "taken = (\<not> DRM_LOCK_IS_HELD w)" "d = (sys_lock s)\<lparr>hw_lock := Some w'\<rparr>" by auto
  have b: "kernel_busy ((sys_kernel s)[i := Kernel_Tried taken]) = kernel_busy (sys_kernel s)"
    using kernel_busy_update [OF assms(2), of "Kernel_Tried taken"] assms(3) by simp
  show ?thesis
  proof (cases "DRM_LOCK_IS_HELD w")
    case True
    then show ?thesis
      using w' d b k assms(2,3)
      by (intro kernel_step_same [OF assms(1) w, of d w']) (auto simp: kernel_owns_def in_list_update)
  next
    case False
    then have "\<not> client_owns s c" for c using i(1) by (auto simp: word_held_def)
    with False show ?thesis
      using d w' b k assms(2,3) lock_inv_client [OF assms(1)]
      by (intro lock_invI [of _ w']) (auto simp: word_held_def kernel_owns_def in_list_update)
  qed
qed

lemma kernel_set_step:
  assumes "lock_inv s" and "i < length (sys_kernel s)" and "sys_kernel s ! i = Kernel_Tried taken"
  shows "lock_inv (s\<lparr>sys_lock := idlelock_set (sys_lock s) taken, sys_kernel := (sys_kernel s)[i := Kernel_Active]\<rparr>)"
proof -
  obtain w where w: "hw_lock (sys_lock s) = Some w" using lock_inv_lock [OF assms(1)] by blast
  note k = lock_inv_kernel [OF assms(1)]
  have b: "kernel_busy ((sys_kernel s)[i := Kernel_Active]) = kernel_busy (sys_kernel s)"
    using kernel_busy_update [OF assms(2), of Kernel_Active] assms(3) by simp
  have "0 < kernel_busy (sys_kernel s)" using kernel_busy_pos [OF assms(2)] assms(3) by simp
  with k(2) have n: "kernel_waiters (sys_lock s) \<noteq> 0" by auto
  have "taken \<Longrightarrow> kernel_owns s" using assms(2,3) by (auto simp: kernel_owns_def dest: nth_mem)
  then show ?thesis
    using w n b k(2) assms(2,3)
    by (intro kernel_step_same [OF assms(1) w]) (auto simp: kernel_owns_def idlelock_set_def in_list_update)
qed

lemma kernel_release_step:
  assumes "lock_inv s" and "i < length (sys_kernel s)" and "sys_kernel s ! i = Kernel_Active"
    and "drm_legacy_idlelock_release (sys_lock s) = Some d"
  shows "lock_inv (s\<lparr>sys_lock := d, sys_kernel := (sys_kernel s)[i := Kernel_Idle]\<rparr>)"
proof -
  obtain w where w: "hw_lock (sys_lock s) = Some w" using lock_inv_lock [OF assms(1)] by blast
  note k = lock_inv_kernel [OF assms(1)] and i = lock_inv_word [OF assms(1) w]
  let ?kw = "kernel_waiters (sys_lock s)" and ?ks = "(sys_kernel s)[i := Kernel_Idle]"
  have b: "kernel_busy (sys_kernel s) = kernel_busy ?ks + 1"
    using kernel_busy_update [OF assms(2), of Kernel_Idle] assms(3) by simp
  then have "?kw \<noteq> 0" using k(2) by auto
  then have u: "unat (?kw - 1) = kernel_busy ?ks" using k(2) b by (simp add: unat_minus_one)
  show ?thesis
  proof (cases "?kw - 1 = 0 \<and> idle_has_lock (sys_lock s)")
    case True
    then have d: "d = (sys_lock s)\<lparr>kernel_waiters := 0, hw_lock := Some DRM_KERNEL_CONTEXT, lock_queue := {}, idle_has_lock := False\<rparr>"
      using assms(4) w by (simp add: drm_legacy_idlelock_release_def)
    have "kernel_busy ?ks = 0" using u True by simp
    then have "Kernel_Tried True \<notin> set ?ks" using kernel_busy_zero by fastforce
    moreover have "\<not> client_owns s c" for c
      using owner_exclusive(1) [OF assms(1)] True by (auto simp: kernel_owns_def)
    ultimately show ?thesis
      using d k u True lock_inv_client [OF assms(1)]
      by (intro lock_invI [of _ DRM_KERNEL_CONTEXT]) (simp_all add: kernel_owns_def DRM_KERNEL_CONTEXT_def)
  next
    case False
    then have "d = (sys_lock s)\<lparr>kernel_waiters := ?kw - 1\<rparr>"
      using assms(4) by (auto simp: drm_legacy_idlelock_release_def Let_def split: if_splits)
    with False show ?thesis
      using w u assms(2,3)
      by (intro kernel_step_same [OF assms(1) w]) (auto simp: kernel_owns_def in_list_update)
  qed
qed

lemma lock_inv_step:
  assumes "lock_step s s'" and "lock_inv s"
  shows "lock_inv s'"
proof -
  obtain w where w: "hw_lock (sys_lock s) = Some w" using lock_inv_lock [OF assms(2)] by blast
  note same = client_step_same [OF assms(2) w, of _ w]
  show ?thesis
    using assms(1)
  proof cases
    case (wait c)
    then show ?thesis using w by (auto intro!: same)
  next
    case (take c taken d)
    then show ?thesis using client_take_step [OF assms(2)] by simp
  next
    case (signal c)
    then show ?thesis using w by (auto intro!: same)
  next
    case (ready c)
    then show ?thesis using w lock_inv_client [OF assms(2), of c] by (auto intro!: same)
  next
    case (resume c)
    then show ?thesis using w lock_inv_client [OF assms(2), of c] same [of "sys_lock s" Client_Waiting c] by simp
  next
    case (wake c)
    then show ?thesis using w by (auto intro!: same)
  next
    case (record_file c f)
    then show ?thesis using w lock_inv_client [OF assms(2), of c] by (auto intro!: same)
  next
    case (leave c)
    then show ?thesis using w lock_inv_client [OF assms(2), of c] by (auto intro!: same)
  next
    case (kernel_enter i try_take d)
    then show ?thesis using kernel_enter_step [OF assms(2), of i] by (auto simp: idlelock_enter_def)
  qed (simp_all add: unlock_step [OF assms(2)] free_step(1) [OF assms(2)] kernel_take_step [OF assms(2)]
      kernel_set_step [OF assms(2)] kernel_release_step [OF assms(2)])
qed

lemma lock_inv_reachable: "lock_step\<^sup>*\<^sup>* s s' \<Longrightarrow> lock_inv s \<Longrightarrow> lock_inv s'"
  by (induction rule: rtranclp_induct) (auto intro: lock_inv_step)

section \<open>No wake-up is lost\<close>

definition lock_held :: "lock_system \<Rightarrow> bool" where
  "lock_held s \<longleftrightarrow> (\<exists>w. hw_lock (sys_lock s) = Some w \<and> DRM_LOCK_IS_HELD w)"

definition client_asleep :: "lock_system \<Rightarrow> u32 \<Rightarrow> bool" where
  "client_asleep s c \<longleftrightarrow> sys_clients s c = Client_Sleeping \<and> c \<in> lock_queue (sys_lock s)"

text \<open>While a client sleeps, somebody holds the lock or is about to wake it up.\<close>

definition wake_inv :: "lock_system \<Rightarrow> bool" where
  "wake_inv s \<longleftrightarrow> (\<forall>c. client_asleep s c \<longrightarrow> lock_held s \<or> (\<exists>c'. sys_clients s c' = Client_Waking))"

lemma wake_inv_held: "lock_held s \<Longrightarrow> wake_inv s"
  by (simp add: wake_inv_def)

lemma wake_inv_queue: "lock_queue (sys_lock s) = {} \<Longrightarrow> wake_inv s"
  by (simp add: wake_inv_def client_asleep_def)

lemma wake_inv_same:
  assumes "wake_inv s" and "hw_lock (sys_lock s') = hw_lock (sys_lock s)"
    and "\<And>c. client_asleep s' c \<Longrightarrow> client_asleep s c"
    and "\<And>c. sys_clients s c = Client_Waking \<Longrightarrow> sys_clients s' c = Client_Waking"
  shows "wake_inv s'"
  using assms unfolding wake_inv_def lock_held_def by metis

lemma take_held:
  assumes "lock_inv s" and "DRM_LOCKING_CONTEXT c = c" and "drm_lock_take (sys_lock s) c = Some (taken, d)"
  shows "\<exists>w. hw_lock d = Some w \<and> DRM_LOCK_IS_HELD w" and "lock_queue d = lock_queue (sys_lock s)"
proof -
  obtain w where w: "hw_lock (sys_lock s) = Some w" using lock_inv_lock [OF assms(1)] by blast
  from drm_lock_take_cases [OF w assms(2)] obtain w' where
    "drm_lock_take (sys_lock s) c = Some (\<not> DRM_LOCK_IS_HELD w, (sys_lock s)\<lparr>hw_lock := Some w'\<rparr>)" "DRM_LOCK_IS_HELD w'" .
  with assms(3) show "\<exists>w. hw_lock d = Some w \<and> DRM_LOCK_IS_HELD w" "lock_queue d = lock_queue (sys_lock s)" by auto
qed

lemma client_asleep_update:
  "client_asleep (s\<lparr>sys_lock := d, sys_clients := (sys_clients s)(c := p)\<rparr>) c' \<longleftrightarrow>
     (if c' = c then p = Client_Sleeping else sys_clients s c' = Client_Sleeping) \<and> c' \<in> lock_queue d"
  "client_asleep (s\<lparr>sys_lock := d, sys_kernel := ks\<rparr>) c' \<longleftrightarrow> sys_clients s c' = Client_Sleeping \<and> c' \<in> lock_queue d"
  by (simp_all add: client_asleep_def)

lemma release_wakes:
  assumes "drm_legacy_idlelock_release d = Some d'"
  shows "lock_queue d' = {} \<or> hw_lock d' = hw_lock d \<and> lock_queue d' = lock_queue d"
  using assms by (auto simp: drm_legacy_idlelock_release_def Let_def split: if_splits bind_splits)

lemma wake_inv_step:
  assumes "lock_step s s'" and "lock_inv s" and "wake_inv s"
  shows "wake_inv s'"
  using assms(1)
proof cases
  case (take c taken d)
  have "client_context c" using lock_inv_client [OF assms(2), of c] take by simp
  then show ?thesis
    using take_held(1) [OF assms(2) _ take(3)] take(1)
    by (intro wake_inv_held) (auto simp: lock_held_def client_context_def)
next
  case (unlock c handed_over d)
  show ?thesis
  proof (cases "kernel_waiters (sys_lock s) = 0")
    case True
    with unlock show ?thesis
      by (intro wake_inv_same [OF assms(3)])
        (auto simp: lock_free_hand_over_def client_asleep_update client_asleep_def split: if_splits)
  next
    case False
    with unlock show ?thesis
      by (intro wake_inv_held)
        (auto simp: lock_held_def lock_free_hand_over_def drm_lock_transfer_def split: bind_splits)
  qed
next
  case (free c err d)
  have "\<not> err" by (rule free_step(2) [OF assms(2) free(2,3)])
  with free(1) have "sys_clients s' c = Client_Waking" by simp
  then show ?thesis by (auto simp: wake_inv_def)
next
  case (kernel_take i taken d)
  then show ?thesis
    using take_held(1) [OF assms(2) _ kernel_take(4)]
    by (intro wake_inv_held) (auto simp: lock_held_def DRM_KERNEL_CONTEXT_def)
next
  case (kernel_release i d)
  from release_wakes [OF kernel_release(4)] show ?thesis
  proof
    assume "lock_queue d = {}"
    then show ?thesis by (intro wake_inv_queue) (simp add: kernel_release(1))
  next
    assume "hw_lock d = hw_lock (sys_lock s) \<and> lock_queue d = lock_queue (sys_lock s)"
    then show ?thesis
      by (intro wake_inv_same [OF assms(3)]) (auto simp: kernel_release(1) client_asleep_update client_asleep_def)
  qed
next
  case (wake c)
  then show ?thesis by (intro wake_inv_queue) simp
qed (auto intro!: wake_inv_same [OF assms(3)] simp: client_asleep_update client_asleep_def idlelock_enter_def
    idlelock_set_def split: if_splits)

lemma lock_invs_reachable:
  assumes "lock_step\<^sup>*\<^sup>* (lock_init n) s" and "n < 2 ^ 32"
  shows "lock_inv s \<and> wake_inv s"
  using assms(1)
proof (induction rule: rtranclp_induct)
  case base
  then show ?case using lock_inv_init [OF assms(2)] by (simp add: wake_inv_def client_asleep_def lock_init_def)
next
  case (step s s')
  then show ?case using lock_inv_step wake_inv_step by blast
qed

section \<open>Every waiting client is served\<close>

text \<open>
  The steps with which the threads complete what they have begun: no idle thread makes a new request, and no
  waiting client gets a signal.
\<close>

definition pc_waits :: "client_pc \<Rightarrow> bool" where
  "pc_waits p \<longleftrightarrow> p \<in> {Client_Waiting, Client_Ready, Client_Sleeping}"

lemma pc_waits_simps [simp]:
  "\<not> pc_waits Client_Idle" "pc_waits Client_Waiting" "pc_waits Client_Ready" "pc_waits Client_Sleeping"
  by (simp_all add: pc_waits_def)

definition drain_step :: "lock_system \<Rightarrow> lock_system \<Rightarrow> bool" where
  "drain_step s s' \<longleftrightarrow> lock_step s s' \<and>
     (\<forall>c. sys_clients s c = Client_Idle \<longrightarrow> sys_clients s' c = Client_Idle) \<and>
     (\<forall>c. pc_waits (sys_clients s c) \<longrightarrow> sys_clients s' c \<noteq> Client_Idle) \<and>
     (\<forall>i<length (sys_kernel s). sys_kernel s ! i = Kernel_Idle \<longrightarrow> sys_kernel s' ! i = Kernel_Idle)"

text \<open>Every run that does not stop while a step is possible comes to a state with a property.\<close>

inductive inevitable :: "('s \<Rightarrow> 's \<Rightarrow> bool) \<Rightarrow> ('s \<Rightarrow> bool) \<Rightarrow> 's \<Rightarrow> bool" for step P where
  now: "P s \<Longrightarrow> inevitable step P s"
| later: "step s t \<Longrightarrow> (\<And>t. step s t \<Longrightarrow> inevitable step P t) \<Longrightarrow> inevitable step P s"

text \<open>
  The states are ranked by the phases of all threads, and then by what the waiting clients still do until
  they sleep. Waking up increases the second number but decreases the first.
\<close>

fun kernel_rank :: "kernel_pc \<Rightarrow> nat" where
  "kernel_rank Kernel_Idle = 0"
| "kernel_rank Kernel_Active = 1"
| "kernel_rank (Kernel_Tried taken) = 2"
| "kernel_rank Kernel_Trying = 3"

fun client_rank :: "client_pc \<Rightarrow> nat" where
  "client_rank Client_Idle = 0"
| "client_rank Client_Waking = 1"
| "client_rank Client_Freeing = 2"
| "client_rank Client_Holding = 3"
| "client_rank Client_Leaving = 4"
| "client_rank Client_Took = 5"
| "client_rank p = 6"

fun wait_rank :: "client_pc \<Rightarrow> bool \<Rightarrow> nat" where
  "wait_rank Client_Ready queued = (if queued then 1 else 4)"
| "wait_rank Client_Sleeping queued = (if queued then 0 else 3)"
| "wait_rank Client_Waiting queued = 2"
| "wait_rank p queued = 0"

definition phase_rank :: "lock_system \<Rightarrow> nat" where
  "phase_rank s = (\<Sum>c\<in>UNIV. client_rank (sys_clients s c)) + sum_list (map kernel_rank (sys_kernel s))"

definition sleep_rank :: "lock_system \<Rightarrow> nat" where
  "sleep_rank s = (\<Sum>c\<in>UNIV. wait_rank (sys_clients s c) (c \<in> lock_queue (sys_lock s)))"

lemma sum_one_less:
  fixes f g :: "u32 \<Rightarrow> nat"
  assumes "\<And>x. x \<noteq> c \<Longrightarrow> f x = g x" and "f c < g c"
  shows "(\<Sum>x\<in>UNIV. f x) < (\<Sum>x\<in>UNIV. g x)"
proof (rule sum_strict_mono_ex1)
  show "\<forall>x\<in>UNIV. f x \<le> g x" using assms by (metis less_imp_le order_refl)
  show "\<exists>a\<in>UNIV. f a < g a" using assms(2) by blast
qed simp

lemma rank_update:
  assumes "i < length ks" and "kernel_rank k < kernel_rank (ks ! i)"
  shows "sum_list (map kernel_rank (ks[i := k])) < sum_list (map kernel_rank ks)"
  using assms by (subst (2) id_take_nth_drop [OF assms(1)]) (simp add: upd_conv_take_nth_drop)

text \<open>A client goes on to its next phase, or a kernel thread does, or a waiting client gets nearer to sleep.\<close>

lemma phase_rank_client:
  assumes "client_rank p < client_rank (sys_clients s c)"
  shows "phase_rank (s\<lparr>sys_lock := d, sys_clients := (sys_clients s)(c := p)\<rparr>) < phase_rank s"
  using assms unfolding phase_rank_def by (auto intro!: sum_one_less [of c])

lemma phase_rank_kernel:
  assumes "i < length (sys_kernel s)" and "kernel_rank k < kernel_rank (sys_kernel s ! i)"
  shows "phase_rank (s\<lparr>sys_lock := d, sys_kernel := (sys_kernel s)[i := k]\<rparr>) < phase_rank s"
  using rank_update [OF assms] unfolding phase_rank_def by simp

lemma sleep_rank_client:
  assumes "client_rank p = client_rank (sys_clients s c)"
    and "\<And>c'. c' \<noteq> c \<Longrightarrow> c' \<in> lock_queue d \<longleftrightarrow> c' \<in> lock_queue (sys_lock s)"
    and "wait_rank p (c \<in> lock_queue d) < wait_rank (sys_clients s c) (c \<in> lock_queue (sys_lock s))"
  shows "phase_rank (s\<lparr>sys_lock := d, sys_clients := (sys_clients s)(c := p)\<rparr>) = phase_rank s"
    and "sleep_rank (s\<lparr>sys_lock := d, sys_clients := (sys_clients s)(c := p)\<rparr>) < sleep_rank s"
proof -
  have "client_rank (((sys_clients s)(c := p)) x) = client_rank (sys_clients s x)" for x using assms(1) by simp
  then show "phase_rank (s\<lparr>sys_lock := d, sys_clients := (sys_clients s)(c := p)\<rparr>) = phase_rank s"
    by (simp add: phase_rank_def)
  show "sleep_rank (s\<lparr>sys_lock := d, sys_clients := (sys_clients s)(c := p)\<rparr>) < sleep_rank s"
    using assms(2,3) unfolding sleep_rank_def by (intro sum_one_less [of c]) simp_all
qed

lemma drain_step_rank:
  assumes "drain_step s s'" and "lock_inv s"
  shows "(s', s) \<in> measures [phase_rank, sleep_rank]"
proof -
  have st: "lock_step s s'" and idle: "\<And>c. sys_clients s c = Client_Idle \<Longrightarrow> sys_clients s' c = Client_Idle"
    and waits: "\<And>c. pc_waits (sys_clients s c) \<Longrightarrow> sys_clients s' c \<noteq> Client_Idle"
    and kidle: "\<And>i. i < length (sys_kernel s) \<Longrightarrow> sys_kernel s ! i = Kernel_Idle \<Longrightarrow> sys_kernel s' ! i = Kernel_Idle"
    using assms(1) by (auto simp: drain_step_def)
  show ?thesis
    using st
  proof cases
    case (wait c)
    with idle [of c] show ?thesis by simp
  next
    case (signal c)
    with waits [of c] show ?thesis by (simp add: pc_waits_def)
  next
    case (kernel_enter i try_take d)
    with kidle [of i] show ?thesis by (simp split: if_splits)
  next
    case (ready c)
    then show ?thesis using sleep_rank_client [of Client_Ready s c] by simp
  next
    case (resume c)
    then show ?thesis using sleep_rank_client [of Client_Waiting s c "sys_lock s"] by simp
  next
    case (take c taken d)
    have "DRM_LOCKING_CONTEXT c = c" using lock_inv_client [OF assms(2), of c] take by (simp add: client_context_def)
    from take_held(2) [OF assms(2) this take(3)] have "lock_queue d = lock_queue (sys_lock s)" .
    then show ?thesis
      using take sleep_rank_client [of Client_Sleeping s c d] phase_rank_client [of Client_Took s c d]
      by (cases taken) simp_all
  next
    case (unlock c handed_over d)
    then show ?thesis using phase_rank_client [of _ s c d] by (cases handed_over) simp_all
  next
    case (free c err d)
    then show ?thesis using phase_rank_client [of _ s c d] by (cases err) simp_all
  qed (simp_all add: phase_rank_client phase_rank_kernel)
qed

section \<open>Nobody is stuck\<close>

lemma client_drainI:
  assumes "lock_step s (s\<lparr>sys_lock := d, sys_clients := (sys_clients s)(c := p)\<rparr>)"
    and "sys_clients s c \<noteq> Client_Idle" and "pc_waits (sys_clients s c) \<Longrightarrow> p \<noteq> Client_Idle"
  shows "\<exists>t. drain_step s t"
  using assms by (intro exI [of _ "s\<lparr>sys_lock := d, sys_clients := (sys_clients s)(c := p)\<rparr>"]) (auto simp: drain_step_def)

lemma kernel_drainI:
  assumes "lock_step s (s\<lparr>sys_lock := d, sys_kernel := (sys_kernel s)[i := k]\<rparr>)"
    and "sys_kernel s ! i \<noteq> Kernel_Idle"
  shows "\<exists>t. drain_step s t"
  using assms by (intro exI [of _ "s\<lparr>sys_lock := d, sys_kernel := (sys_kernel s)[i := k]\<rparr>"])
    (auto simp: drain_step_def, metis nth_list_update_neq)

lemma kernel_not_stuck:
  assumes "lock_inv s" and "i < length (sys_kernel s)" and "sys_kernel s ! i \<noteq> Kernel_Idle"
  shows "\<exists>t. drain_step s t"
proof -
  obtain w where w: "hw_lock (sys_lock s) = Some w" using lock_inv_lock [OF assms(1)] by blast
  show ?thesis
  proof (cases "sys_kernel s ! i")
    case Kernel_Trying
    have "DRM_LOCKING_CONTEXT DRM_KERNEL_CONTEXT = DRM_KERNEL_CONTEXT" by (simp add: DRM_KERNEL_CONTEXT_def)
    from drm_lock_take_cases [OF w this] obtain taken d where
      "drm_lock_take (sys_lock s) DRM_KERNEL_CONTEXT = Some (taken, d)" by metis
    from kernel_drainI [OF lock_step.kernel_take [OF assms(2) Kernel_Trying this] assms(3)] show ?thesis .
  next
    case (Kernel_Tried taken)
    from kernel_drainI [OF lock_step.kernel_set [OF assms(2) this] assms(3)] show ?thesis .
  next
    case Kernel_Active
    obtain d where "drm_legacy_idlelock_release (sys_lock s) = Some d"
      using w by (cases "kernel_waiters (sys_lock s) - 1 = 0"; cases "idle_has_lock (sys_lock s)")
        (simp_all add: drm_legacy_idlelock_release_def)
    from kernel_drainI [OF lock_step.kernel_release [OF assms(2) Kernel_Active this] assms(3)] show ?thesis .
  qed (use assms(3) in simp)
qed

lemma client_not_stuck:
  assumes "lock_inv s" and "sys_clients s c \<noteq> Client_Idle" and "\<not> client_asleep s c"
  shows "\<exists>t. drain_step s t"
proof -
  obtain w where w: "hw_lock (sys_lock s) = Some w" using lock_inv_lock [OF assms(1)] by blast
  have "DRM_LOCKING_CONTEXT c = c" using lock_inv_client [OF assms(1,2)] by (simp add: client_context_def)
  from drm_lock_take_cases [OF w this] obtain taken d where t: "drm_lock_take (sys_lock s) c = Some (taken, d)" by metis
  have "\<exists>h d'. lock_free_hand_over (sys_lock s) = Some (h, d')"
    using w by (cases "kernel_waiters (sys_lock s) = 0") (auto simp: lock_free_hand_over_def drm_lock_transfer_def)
  then obtain h d' where h: "lock_free_hand_over (sys_lock s) = Some (h, d')" by blast
  show ?thesis
  proof (cases "sys_clients s c")
    case Client_Waiting
    from client_drainI [OF lock_step.ready [OF this]] Client_Waiting show ?thesis by simp
  next
    case Client_Ready
    from client_drainI [OF lock_step.take [OF this t]] Client_Ready show ?thesis by (simp split: if_splits)
  next
    case Client_Sleeping
    with assms(3) have "c \<notin> lock_queue (sys_lock s)" by (simp add: client_asleep_def)
    from client_drainI [OF lock_step.resume [OF Client_Sleeping this]] Client_Sleeping show ?thesis by simp
  next
    case Client_Took
    from client_drainI [OF lock_step.record_file [OF this]] Client_Took show ?thesis by simp
  next
    case Client_Leaving
    from client_drainI [OF lock_step.leave [OF this]] Client_Leaving show ?thesis by simp
  next
    case Client_Holding
    from client_drainI [OF lock_step.unlock [OF this h]] Client_Holding show ?thesis by (simp add: pc_waits_def)
  next
    case Client_Freeing
    from client_drainI [OF lock_step.free [OF this lock_free_word_eq [OF w]]] Client_Freeing show ?thesis
      by (simp add: pc_waits_def)
  next
    case Client_Waking
    from client_drainI [OF lock_step.wake [OF this]] Client_Waking show ?thesis by (simp add: pc_waits_def)
  qed (use assms(2) in simp)
qed

text \<open>As long as a client wants or holds the lock some step is possible, because a sleeping client waits for another thread.\<close>

lemma lock_not_stuck:
  assumes "lock_inv s" and "wake_inv s" and "sys_clients s c \<noteq> Client_Idle"
  shows "\<exists>t. drain_step s t"
proof (cases "client_asleep s c")
  case True
  with assms(2) consider "lock_held s" | c' where "sys_clients s c' = Client_Waking" by (auto simp: wake_inv_def)
  then show ?thesis
  proof cases
    case 1
    then consider c' where "client_owns s c'" | "kernel_owns s"
      using lock_inv_word(3) [OF assms(1)] by (auto simp: lock_held_def)
    then show ?thesis
    proof cases
      case 1
      then have "\<not> client_asleep s c'" by (auto simp: client_owns_def client_asleep_def)
      with client_not_stuck [OF assms(1) owner_not_idle [OF 1]] show ?thesis by blast
    next
      case 2
      then have "kernel_busy (sys_kernel s) \<noteq> 0"
        using lock_inv_kernel(2,3) [OF assms(1)] kernel_busy_zero [of "sys_kernel s"]
        by (auto simp: kernel_owns_def unat_eq_zero)
      then obtain i where "i < length (sys_kernel s)" "sys_kernel s ! i \<noteq> Kernel_Idle"
        unfolding kernel_busy_zero by (metis in_set_conv_nth)
      then show ?thesis by (rule kernel_not_stuck [OF assms(1)])
    qed
  next
    case 2
    then show ?thesis using client_not_stuck [OF assms(1), of c'] by (simp add: client_asleep_def)
  qed
qed (rule client_not_stuck [OF assms(1,3)])

text \<open>A waiting client only leaves the queue with the lock.\<close>

lemma drain_step_waiting:
  assumes "drain_step s s'" and "pc_waits (sys_clients s c) \<or> sys_clients s c \<in> {Client_Took, Client_Leaving}"
  shows "sys_clients s' c = Client_Holding \<or> pc_waits (sys_clients s' c) \<or> sys_clients s' c \<in> {Client_Took, Client_Leaving}"
proof -
  have st: "lock_step s s'" and waits: "pc_waits (sys_clients s c) \<Longrightarrow> sys_clients s' c \<noteq> Client_Idle"
    using assms(1) by (auto simp: drain_step_def)
  from st show ?thesis
    by cases (use assms(2) waits in \<open>auto simp: pc_waits_def split: if_splits\<close>)
qed

lemma waiting_served:
  assumes "lock_inv s" and "wake_inv s"
    and "pc_waits (sys_clients s c) \<or> sys_clients s c \<in> {Client_Took, Client_Leaving}"
  shows "inevitable drain_step (\<lambda>t. sys_clients t c = Client_Holding) s"
  using wf_measures [of "[phase_rank, sleep_rank]"] assms
proof (induction s rule: wf_induct_rule)
  case (less s)
  have "sys_clients s c \<noteq> Client_Idle" using less.prems(3) by (auto simp: pc_waits_def)
  from lock_not_stuck [OF less.prems(1,2) this] obtain t where "drain_step s t" ..
  then show ?case
  proof (rule inevitable.later)
    fix t assume t: "drain_step s t"
    then have st: "lock_step s t" by (simp add: drain_step_def)
    show "inevitable drain_step (\<lambda>t. sys_clients t c = Client_Holding) t"
    proof (cases "sys_clients t c = Client_Holding")
      case False
      with drain_step_waiting [OF t less.prems(3)] show ?thesis
        using less.IH [OF drain_step_rank [OF t less.prems(1)] lock_inv_step [OF st less.prems(1)]
            wake_inv_step [OF st less.prems(1,2)]] by blast
    qed (rule inevitable.now)
  qed
qed

section \<open>The properties of the lock\<close>

text \<open>
  C3. However the threads are interleaved, the lock has at most one holder: no two clients hold it, and no
  client holds it together with the kernel. The word always tells the truth: it is marked as held iff
  somebody holds the lock, and then it has the context of the holder. The kernel holds the lock only as
  long as one of its threads wants it, and a client that unlocks while a kernel thread wants the lock
  gives it to the kernel.
\<close>

theorem lock_mutual_exclusion:
  assumes "lock_step\<^sup>*\<^sup>* (lock_init n) s" and "n < 2 ^ 32"
  shows "(\<forall>c c'. client_owns s c \<and> client_owns s c' \<longrightarrow> c = c') \<and> (\<forall>c. client_owns s c \<longrightarrow> \<not> kernel_owns s) \<and>
    (\<exists>w. hw_lock (sys_lock s) = Some w \<and>
       (DRM_LOCK_IS_HELD w \<longleftrightarrow> (\<exists>c. client_owns s c) \<or> kernel_owns s) \<and>
       (\<forall>c. client_owns s c \<longrightarrow> DRM_LOCKING_CONTEXT w = c) \<and>
       (kernel_owns s \<longrightarrow> DRM_LOCKING_CONTEXT w = DRM_KERNEL_CONTEXT)) \<and>
    (idle_has_lock (sys_lock s) \<longrightarrow> (\<exists>k\<in>set (sys_kernel s). k \<noteq> Kernel_Idle)) \<and>
    (\<forall>c. sys_clients s c = Client_Holding \<and> (\<exists>k\<in>set (sys_kernel s). k \<noteq> Kernel_Idle) \<longrightarrow>
       (\<exists>d. lock_free_hand_over (sys_lock s) = Some (True, d) \<and> idle_has_lock d))"
proof -
  have inv: "lock_inv s" by (rule lock_inv_reachable [OF assms(1) lock_inv_init [OF assms(2)]])
  obtain w where w: "hw_lock (sys_lock s) = Some w" using lock_inv_lock [OF inv] by blast
  note i = lock_inv_word [OF inv w] and k = lock_inv_kernel [OF inv]
  have busy: "kernel_waiters (sys_lock s) \<noteq> 0 \<longleftrightarrow> (\<exists>k\<in>set (sys_kernel s). k \<noteq> Kernel_Idle)"
    using k(2) kernel_busy_zero [of "sys_kernel s"] by (auto simp: unat_eq_zero)
  have "lock_free_hand_over (sys_lock s) =
      Some (True, (sys_lock s)\<lparr>lock_file_priv := None, hw_lock := Some DRM_LOCK_HELD, idle_has_lock := True\<rparr>)"
    if "\<exists>k\<in>set (sys_kernel s). k \<noteq> Kernel_Idle"
    using that w busy by (simp add: lock_free_hand_over_def drm_lock_transfer_def)
  moreover have "DRM_LOCK_IS_HELD w \<longleftrightarrow> (\<exists>c. client_owns s c) \<or> kernel_owns s"
    using i by (auto simp: word_held_def)
  moreover have "\<forall>c. client_owns s c \<longrightarrow> DRM_LOCKING_CONTEXT w = c" "kernel_owns s \<longrightarrow> DRM_LOCKING_CONTEXT w = DRM_KERNEL_CONTEXT"
    using i by (simp_all add: word_held_def)
  moreover have "idle_has_lock (sys_lock s) \<longrightarrow> (\<exists>k\<in>set (sys_kernel s). k \<noteq> Kernel_Idle)" using k(3) busy by blast
  moreover have "\<forall>c c'. client_owns s c \<and> client_owns s c' \<longrightarrow> c = c'" using owner_exclusive(2) [OF inv] by blast
  ultimately show ?thesis
    using w owner_exclusive(1) [OF inv] by simp
qed

text \<open>A run: client 5 takes the lock while a kernel thread finds it taken.\<close>

definition lock_run :: "u32 \<Rightarrow> nat option \<Rightarrow> u32 \<Rightarrow> u32 \<Rightarrow> u32 set \<Rightarrow> client_pc \<Rightarrow> kernel_pc \<Rightarrow> lock_system" where
  "lock_run w f kw uw q p k = \<lparr>sys_lock = \<lparr>hw_lock = Some w, lock_file_priv = f, lock_queue = q, kernel_waiters = kw,
     user_waiters = uw, idle_has_lock = False\<rparr>, sys_clients = (\<lambda>c. Client_Idle)(5 := p), sys_kernel = [k]\<rparr>"

lemmas lock_run_simps = lock_run_def drm_lock_take_def idlelock_enter_def idlelock_set_def lock_free_hand_over_def
  lock_free_word_def client_context_def DRM_LOCK_IS_HELD_def DRM_LOCKING_CONTEXT_def DRM_LOCK_HELD_def
  DRM_LOCK_CONT_def DRM_KERNEL_CONTEXT_def

lemma lock_run_steps:
  "lock_step (lock_init 1) (lock_run 0 None 0 1 {} Client_Waiting Kernel_Idle)"
  "lock_step (lock_run 0 None 0 1 {} Client_Waiting Kernel_Idle) (lock_run 0 None 0 1 {5} Client_Ready Kernel_Idle)"
  "lock_step (lock_run 0 None 0 1 {5} Client_Ready Kernel_Idle) (lock_run 0x80000005 None 0 1 {5} Client_Took Kernel_Idle)"
  "lock_step (lock_run 0x80000005 None 0 1 {5} Client_Took Kernel_Idle)
     (lock_run 0x80000005 (Some 7) 0 1 {5} Client_Leaving Kernel_Idle)"
  "lock_step (lock_run 0x80000005 (Some 7) 0 1 {5} Client_Leaving Kernel_Idle)
     (lock_run 0x80000005 (Some 7) 0 0 {} Client_Holding Kernel_Idle)"
  using lock_step.wait [of "lock_init 1" 5] lock_step.ready [of "lock_run 0 None 0 1 {} Client_Waiting Kernel_Idle" 5]
    lock_step.take [of "lock_run 0 None 0 1 {5} Client_Ready Kernel_Idle" 5]
    lock_step.record_file [of "lock_run 0x80000005 None 0 1 {5} Client_Took Kernel_Idle" 5 7]
    lock_step.leave [of "lock_run 0x80000005 (Some 7) 0 1 {5} Client_Leaving Kernel_Idle" 5]
  by (simp_all add: lock_run_simps lock_init_def)

lemma lock_run_kernel_steps:
  "lock_step (lock_run 0x80000005 f 0 0 q p Kernel_Idle) (lock_run 0x80000005 f 1 0 q p Kernel_Trying)"
  "lock_step (lock_run 0x80000005 f 1 0 q p Kernel_Trying) (lock_run 0xC0000005 f 1 0 q p (Kernel_Tried False))"
  "lock_step (lock_run w f 1 0 q p (Kernel_Tried False)) (lock_run w f 1 0 q p Kernel_Active)"
  using lock_step.kernel_enter [of 0 "lock_run 0x80000005 f 0 0 q p Kernel_Idle" True]
    lock_step.kernel_take [of 0 "lock_run 0x80000005 f 1 0 q p Kernel_Trying" False]
    lock_step.kernel_set [of 0 "lock_run w f 1 0 q p (Kernel_Tried False)" False]
  by (simp_all add: lock_run_simps)

lemma lock_run_holding:
  "lock_step\<^sup>*\<^sup>* (lock_init 1) (lock_run 0x80000005 (Some 7) 0 0 {} Client_Holding Kernel_Idle)"
  using lock_run_steps by (meson rtranclp.rtrancl_into_rtrancl rtranclp.rtrancl_refl)

lemma lock_run_contended:
  "lock_step\<^sup>*\<^sup>* (lock_init 1) (lock_run 0xC0000005 (Some 7) 1 0 {} Client_Holding Kernel_Active)"
  using lock_run_holding lock_run_kernel_steps(1,2) [of "Some 7" "{}" Client_Holding]
    lock_run_kernel_steps(3) [of "0xC0000005" "Some 7" "{}" Client_Holding]
  by (meson rtranclp.rtrancl_into_rtrancl)

theorem lock_mutual_exclusion_witness:
  "client_owns (lock_run 0xC0000005 (Some 7) 1 0 {} Client_Holding Kernel_Active) 5 \<and>
   \<not> client_owns (lock_run 0xC0000005 (Some 7) 1 0 {} Client_Holding Kernel_Active) 6 \<and>
   \<not> kernel_owns (lock_run 0xC0000005 (Some 7) 1 0 {} Client_Holding Kernel_Active) \<and>
   (\<exists>d. lock_free_hand_over (sys_lock (lock_run 0xC0000005 (Some 7) 1 0 {} Client_Holding Kernel_Active)) = Some (True, d) \<and>
      idle_has_lock d)"
proof -
  have "client_owns (lock_run 0xC0000005 (Some 7) 1 0 {} Client_Holding Kernel_Active) 5"
    "sys_clients (lock_run 0xC0000005 (Some 7) 1 0 {} Client_Holding Kernel_Active) 5 = Client_Holding"
    "\<exists>k\<in>set (sys_kernel (lock_run 0xC0000005 (Some 7) 1 0 {} Client_Holding Kernel_Active)). k \<noteq> Kernel_Idle"
    by (simp_all add: client_owns_def lock_run_def)
  moreover have "(5 :: u32) \<noteq> 6" by simp
  ultimately show ?thesis using lock_mutual_exclusion [OF lock_run_contended] by fastforce
qed

text \<open>
  C23. Every waiting client gets the lock: take any reachable state, whoever holds the lock and whether the
  client sleeps or not. If the threads complete what they have begun, without new requests and signals, then in
  every order of their steps the client comes to hold the lock. In particular no wake-up is lost.
\<close>

theorem lock_progress:
  assumes "lock_step\<^sup>*\<^sup>* (lock_init n) s" and "n < 2 ^ 32" and "pc_waits (sys_clients s c)"
  shows "inevitable drain_step (\<lambda>t. sys_clients t c = Client_Holding) s"
  using lock_invs_reachable [OF assms(1,2)] assms(3) by (intro waiting_served) simp_all

text \<open>Client 3 holds the lock while client 5 sleeps.\<close>

definition lock_pair :: "u32 \<Rightarrow> nat option \<Rightarrow> u32 \<Rightarrow> u32 set \<Rightarrow> client_pc \<Rightarrow> client_pc \<Rightarrow> lock_system" where
  "lock_pair w f uw q p p' = \<lparr>sys_lock = \<lparr>hw_lock = Some w, lock_file_priv = f, lock_queue = q, kernel_waiters = 0,
     user_waiters = uw, idle_has_lock = False\<rparr>, sys_clients = (\<lambda>c. Client_Idle)(3 := p, 5 := p'), sys_kernel = []\<rparr>"

lemma lock_pair_idle: "(\<lambda>c. Client_Idle)((3 :: u32) := p, 5 := Client_Idle) = (\<lambda>c. Client_Idle)(3 := p)"
  by (rule ext) simp

lemma lock_pair_steps:
  "lock_step (lock_init 0) (lock_pair 0 None 1 {} Client_Waiting Client_Idle)"
  "lock_step (lock_pair 0 None 1 {} Client_Waiting Client_Idle) (lock_pair 0 None 1 {3} Client_Ready Client_Idle)"
  "lock_step (lock_pair 0 None 1 {3} Client_Ready Client_Idle) (lock_pair 0x80000003 None 1 {3} Client_Took Client_Idle)"
  "lock_step (lock_pair 0x80000003 None 1 {3} Client_Took Client_Idle) (lock_pair 0x80000003 (Some 2) 1 {3} Client_Leaving Client_Idle)"
  "lock_step (lock_pair 0x80000003 (Some 2) 1 {3} Client_Leaving Client_Idle)
     (lock_pair 0x80000003 (Some 2) 0 {} Client_Holding Client_Idle)"
  "lock_step (lock_pair 0x80000003 (Some 2) 0 {} Client_Holding Client_Idle)
     (lock_pair 0x80000003 (Some 2) 1 {} Client_Holding Client_Waiting)"
  "lock_step (lock_pair 0x80000003 (Some 2) 1 {} Client_Holding Client_Waiting)
     (lock_pair 0x80000003 (Some 2) 1 {5} Client_Holding Client_Ready)"
  "lock_step (lock_pair 0x80000003 (Some 2) 1 {5} Client_Holding Client_Ready)
     (lock_pair 0xC0000003 (Some 2) 1 {5} Client_Holding Client_Sleeping)"
  using lock_step.wait [of "lock_init 0" 3] lock_step.ready [of "lock_pair 0 None 1 {} Client_Waiting Client_Idle" 3]
    lock_step.take [of "lock_pair 0 None 1 {3} Client_Ready Client_Idle" 3 True]
    lock_step.record_file [of "lock_pair 0x80000003 None 1 {3} Client_Took Client_Idle" 3 2]
    lock_step.leave [of "lock_pair 0x80000003 (Some 2) 1 {3} Client_Leaving Client_Idle" 3]
    lock_step.wait [of "lock_pair 0x80000003 (Some 2) 0 {} Client_Holding Client_Idle" 5]
    lock_step.ready [of "lock_pair 0x80000003 (Some 2) 1 {} Client_Holding Client_Waiting" 5]
    lock_step.take [of "lock_pair 0x80000003 (Some 2) 1 {5} Client_Holding Client_Ready" 5 False]
  by (simp_all add: lock_run_simps lock_pair_def lock_init_def lock_pair_idle)

theorem lock_progress_witness:
  "inevitable drain_step (\<lambda>t. sys_clients t 5 = Client_Holding) (lock_pair 0xC0000003 (Some 2) 1 {5} Client_Holding Client_Sleeping)"
proof -
  have "lock_step\<^sup>*\<^sup>* (lock_init 0) (lock_pair 0xC0000003 (Some 2) 1 {5} Client_Holding Client_Sleeping)"
    using lock_pair_steps by (meson rtranclp.rtrancl_into_rtrancl rtranclp.rtrancl_refl)
  from lock_progress [OF this, of 5] show ?thesis by (simp add: lock_pair_def)
qed

text \<open>
  A kernel thread that asks for the lock after a client looked for waiting kernel threads, but before the
  client changes the word, misses it: it is in its section, the lock is free, and the kernel does not
  hold it.
\<close>

lemma lock_missed_by_kernel:
  "lock_step\<^sup>*\<^sup>* (lock_init 1) (lock_run 5 (Some 7) 1 0 {} Client_Idle Kernel_Active) \<and>
   \<not> kernel_owns (lock_run 5 (Some 7) 1 0 {} Client_Idle Kernel_Active) \<and> \<not> DRM_LOCK_IS_HELD 5"
proof -
  have u: "lock_step (lock_run 0x80000005 (Some 7) 0 0 {} Client_Holding Kernel_Idle)
      (lock_run 0x80000005 (Some 7) 0 0 {} Client_Freeing Kernel_Idle)"
    using lock_step.unlock [of "lock_run 0x80000005 (Some 7) 0 0 {} Client_Holding Kernel_Idle" 5 False]
    by (simp add: lock_run_simps)
  have f: "lock_step (lock_run 0xC0000005 (Some 7) 1 0 {} Client_Freeing (Kernel_Tried False))
      (lock_run 5 (Some 7) 1 0 {} Client_Waking (Kernel_Tried False))"
    using lock_step.free [of "lock_run 0xC0000005 (Some 7) 1 0 {} Client_Freeing (Kernel_Tried False)" 5 False]
    by (simp add: lock_run_simps)
  have k: "lock_step (lock_run 5 (Some 7) 1 0 {} Client_Waking (Kernel_Tried False))
      (lock_run 5 (Some 7) 1 0 {} Client_Idle (Kernel_Tried False))"
    using lock_step.wake [of "lock_run 5 (Some 7) 1 0 {} Client_Waking (Kernel_Tried False)" 5]
    by (simp add: lock_run_simps)
  have "lock_step\<^sup>*\<^sup>* (lock_init 1) (lock_run 5 (Some 7) 1 0 {} Client_Idle Kernel_Active)"
    using lock_run_holding u f k lock_run_kernel_steps(1,2) [of "Some 7" "{}" Client_Freeing]
      lock_run_kernel_steps(3) [of 5 "Some 7" "{}" Client_Idle]
    by (meson rtranclp.rtrancl_into_rtrancl)
  then show ?thesis by (simp add: kernel_owns_def lock_run_simps)
qed

section \<open>The ioctls and closing a file\<close>

lemma lock_take_success:
  assumes "drm_lock_take d c = Some (True, d')"
  shows "\<exists>w. hw_lock d' = Some w \<and> word_held w c"
  using assms by (auto simp: drm_lock_take_def word_held_def Let_def split: bind_splits if_splits)

lemma lock_attempt_done:
  assumes "lock_attempt d c f = (Lock_Done ret, d')"
  shows "ret = Some EINTR \<or> ret = None \<and> (\<exists>w. hw_lock d' = Some w \<and> word_held w c) \<and> lock_file_priv d' = Some f"
proof (cases "drm_lock_take (set_current_state_interruptible d c) c")
  case None
  with assms show ?thesis by (simp add: lock_attempt_def Let_def)
next
  case (Some r)
  with assms have "fst r" "ret = None" "d' = (snd r)\<lparr>lock_file_priv := Some f\<rparr>"
    by (auto simp: lock_attempt_def Let_def split: prod.splits if_splits)
  then show ?thesis using lock_take_success [of "set_current_state_interruptible d c" c "snd r"] Some by (cases r) simp
qed

lemma lock_loop_done:
  assumes "drm_legacy_lock_loop schedules d c f = Some (ret, d')"
  shows "ret = Some EINTR \<or> ret = None \<and> (\<exists>w. hw_lock d' = Some w \<and> word_held w c) \<and> lock_file_priv d' = Some f"
  using assms
proof (induction schedules arbitrary: d)
  case Nil
  then have "lock_attempt d c f = (Lock_Done ret, d')"
    by (simp add: drm_legacy_lock_loop.simps [of "[]"] split: prod.splits lock_attempt_result.splits)
  then show ?case by (rule lock_attempt_done)
next
  case (Cons schedule rest)
  obtain r d1 where r: "lock_attempt d c f = (r, d1)" by fastforce
  obtain d2 sig where d2: "schedule d1 = (d2, sig)" by fastforce
  note unfold = drm_legacy_lock_loop.simps [of "schedule # rest"]
  show ?case
  proof (cases r)
    case (Lock_Done e)
    with r Cons.prems have "lock_attempt d c f = (Lock_Done ret, d')" by (simp add: unfold)
    then show ?thesis by (rule lock_attempt_done)
  next
    case Lock_Again
    with r d2 Cons.prems have "sig \<and> ret = Some EINTR \<or> drm_legacy_lock_loop rest d2 c f = Some (ret, d')"
      by (simp add: unfold split: if_splits)
    then show ?thesis using Cons.IH by blast
  qed
qed

text \<open>
  C40. If the lock ioctl returns success, or busy because the hardware does not become idle, then the lock
  has the context of the caller and the caller's file is recorded as its holder. Closing that file gives
  the lock up, whatever happened to the waiters meanwhile: it is free and those who sleep are woken up, or the
  kernel has it if it waits. Without the right feature or with the context of the kernel nothing happens to the lock.
\<close>

theorem lock_ioctl_close:
  assumes "drm_legacy_lock schedules legacy quiescent d c flags f sig = Some (ret, d', f', sig')"
    and "lock_count f + 1 \<noteq> 0"
  shows "(ret = None \<or> ret = Some EBUSY \<longrightarrow>
      (\<exists>w. hw_lock d' = Some w \<and> word_held w c) \<and> lock_file_priv d' = Some (lock_file_id f) \<and>
      drm_legacy_lock_release True (d'\<lparr>user_waiters := uw, kernel_waiters := kw\<rparr>) f' =
        Some (if kw \<noteq> 0
              then d'\<lparr>user_waiters := uw, kernel_waiters := kw, lock_file_priv := None, hw_lock := Some DRM_LOCK_HELD,
                idle_has_lock := True\<rparr>
              else d'\<lparr>user_waiters := uw, kernel_waiters := kw, hw_lock := Some c, lock_queue := {}\<rparr>)) \<and>
    (\<not> legacy \<or> c = DRM_KERNEL_CONTEXT \<longrightarrow> ret = Some EINVAL \<and> d' = d) \<and>
    ret \<in> {None, Some EBUSY, Some EINVAL, Some EINTR}"
proof (cases "legacy \<and> c \<noteq> DRM_KERNEL_CONTEXT")
  case False
  with assms(1) show ?thesis by (auto simp: drm_legacy_lock_def Let_def split: if_splits)
next
  case True
  with assms(1) obtain r d1 where
    loop: "drm_legacy_lock_loop schedules (d\<lparr>user_waiters := user_waiters d + 1\<rparr>) c (lock_file_id f) = Some (r, d1)"
    and d': "d' = d1\<lparr>user_waiters := user_waiters d1 - 1, lock_queue := lock_queue d1 - {c}\<rparr>" "f' = f\<lparr>lock_count := lock_count f + 1\<rparr>"
    and ret: "r \<noteq> None \<Longrightarrow> ret = r" "r = None \<Longrightarrow> ret = None \<or> ret = Some EBUSY"
    by (auto simp: drm_legacy_lock_def Let_def split: bind_splits if_splits)
  from lock_loop_done [OF loop] show ?thesis
  proof
    assume "r = Some EINTR"
    with True ret show ?thesis by simp
  next
    assume r: "r = None \<and> (\<exists>w. hw_lock d1 = Some w \<and> word_held w c) \<and> lock_file_priv d1 = Some (lock_file_id f)"
    then obtain w where w: "hw_lock d' = Some w" "DRM_LOCK_IS_HELD w" "DRM_LOCKING_CONTEXT w = c"
      "lock_file_priv d' = Some (lock_file_id f)" by (auto simp: d' word_held_def)
    then have "drm_legacy_i_have_hw_lock (d'\<lparr>user_waiters := uw, kernel_waiters := kw\<rparr>) f'"
      using assms(2) by (simp add: drm_legacy_i_have_hw_lock_def d'(2))
    with w True ret r show ?thesis
      by (cases d') (auto simp: drm_legacy_lock_release_def drm_legacy_lock_free_def lock_free_hand_over_def
        drm_lock_transfer_def lock_free_word_def word_held_def Let_def)
  qed
qed

text \<open>Client 5 waits once, while client 3 unlocks, and is then closed while the kernel waits.\<close>

theorem lock_ioctl_close_witness:
  "\<exists>d' f' sig'.
     drm_legacy_lock [\<lambda>d. (d\<lparr>hw_lock := Some 3\<rparr>, False)] True None
       \<lparr>hw_lock = Some 0x80000003, lock_file_priv = Some 2, lock_queue = {}, kernel_waiters = 0, user_waiters = 0, idle_has_lock = False\<rparr>
       5 0 \<lparr>lock_file_id = 7, lock_count = 0, lock_is_master = True\<rparr> \<lparr>sig_context = 0, sig_lock = False\<rparr> =
       Some (None, d', f', sig') \<and>
     drm_legacy_lock_release True (d'\<lparr>user_waiters := 0, kernel_waiters := 1\<rparr>) f' =
       Some (d'\<lparr>user_waiters := 0, kernel_waiters := 1, lock_file_priv := None, hw_lock := Some DRM_LOCK_HELD,
         idle_has_lock := True\<rparr>)"
proof -
  let ?d = "\<lparr>hw_lock = Some 0x80000003, lock_file_priv = Some 2, lock_queue = {}, kernel_waiters = 0, user_waiters = 0, idle_has_lock = False\<rparr>"
  let ?f = "\<lparr>lock_file_id = 7, lock_count = 0, lock_is_master = True\<rparr>"
  have "\<exists>d' f' sig'. drm_legacy_lock [\<lambda>d. (d\<lparr>hw_lock := Some 3\<rparr>, False)] True None ?d 5 0 ?f
      \<lparr>sig_context = 0, sig_lock = False\<rparr> = Some (None, d', f', sig')"
    by (simp add: drm_legacy_lock_def drm_legacy_lock_loop.simps lock_attempt_def lock_run_simps)
  then obtain d' f' sig' where l: "drm_legacy_lock [\<lambda>d. (d\<lparr>hw_lock := Some 3\<rparr>, False)] True None ?d 5 0 ?f
      \<lparr>sig_context = 0, sig_lock = False\<rparr> = Some (None, d', f', sig')" by blast
  from lock_ioctl_close [OF this, of 1 0] l show ?thesis by auto
qed

text \<open>
  The context of the ioctl is not masked: with one of the two bits set, the word is marked as held but the
  caller does not get the lock. Unlocking does not check who holds the lock, and follows a null pointer
  if there is none.
\<close>

lemma lock_context_bits:
  "drm_lock_take \<lparr>hw_lock = Some 0, lock_file_priv = None, lock_queue = {}, kernel_waiters = 0, user_waiters = 1, idle_has_lock = False\<rparr> 0x40000005 =
     Some (False, \<lparr>hw_lock = Some 0xC0000005, lock_file_priv = None, lock_queue = {}, kernel_waiters = 0, user_waiters = 1, idle_has_lock = False\<rparr>)"
  by (simp add: lock_run_simps)

lemma unlock_by_other:
  "hw_lock d = Some 0x80000005 \<Longrightarrow> kernel_waiters d = 0 \<Longrightarrow>
   drm_legacy_unlock True d 6 = Some (None, d\<lparr>hw_lock := Some 5\<rparr>)"
  by (simp add: drm_legacy_unlock_def drm_legacy_lock_free_def lock_run_simps)

lemma unlock_null: "hw_lock d = None \<Longrightarrow> c \<noteq> DRM_KERNEL_CONTEXT \<Longrightarrow> drm_legacy_unlock True d c = None"
  by (simp add: drm_legacy_unlock_def drm_legacy_lock_free_def lock_free_hand_over_def drm_lock_transfer_def
      lock_free_word_def)

end
