(* ===== verification/Sort.thy ===== *)
theory Sort
  imports Prelude "HOL-Library.Monad_Syntax"
begin

text \<open>
  The sorting function of \<^verbatim>\<open>linux_sort.c\<close>, a quicksort with a three-way partition. The array is a list, and
  pointers into it are indices: all pointers of the code are the base plus a multiple of the size of an
  element. The array is taken to be smaller than the 2 GiB up to which byte counts fit into an \<^verbatim>\<open>int\<close>.
  The result of the comparison is its value as an integer. The macro \<^verbatim>\<open>swap\<close> exchanges two elements, in
  whatever units; \<^verbatim>\<open>vecswap\<close> exchanges two blocks with the function of the caller, which may be a null
  pointer; calling that is \<open>None\<close>. \<^verbatim>\<open>qsort\<close> of the FreeBSD kernel is a parameter.
\<close>

section \<open>Insertion sort\<close>

definition swap_elems :: "nat \<Rightarrow> nat \<Rightarrow> 'a list \<Rightarrow> 'a list" where
  "swap_elems i j xs = xs[i := xs ! j, j := xs ! i]"

text \<open>The inner and the outer loop.\<close>

fun insert_down :: "('a \<Rightarrow> 'a \<Rightarrow> int) \<Rightarrow> 'a list \<Rightarrow> nat \<Rightarrow> 'a list" where
  "insert_down cmp xs 0 = xs"
| "insert_down cmp xs (Suc pl) =
     (if cmp (xs ! pl) (xs ! Suc pl) > 0 then insert_down cmp (swap_elems (Suc pl) pl xs) pl else xs)"

function insert_all :: "('a \<Rightarrow> 'a \<Rightarrow> int) \<Rightarrow> nat \<Rightarrow> 'a list \<Rightarrow> nat \<Rightarrow> 'a list" where
  "insert_all cmp n xs pm = (if pm < n then insert_all cmp n (insert_down cmp xs pm) (pm + 1) else xs)"
  by auto
termination by (relation "measure (\<lambda>(cmp, n, xs, pm). n - pm)") auto

declare insert_all.simps [simp del]

section \<open>The pivot\<close>

definition med3 :: "('a \<Rightarrow> 'a \<Rightarrow> int) \<Rightarrow> 'a list \<Rightarrow> nat \<Rightarrow> nat \<Rightarrow> nat \<Rightarrow> nat" where
  "med3 cmp xs a b c =
     (if cmp (xs ! a) (xs ! b) < 0
      then (if cmp (xs ! b) (xs ! c) < 0 then b else if cmp (xs ! a) (xs ! c) < 0 then c else a)
      else (if cmp (xs ! b) (xs ! c) > 0 then b else if cmp (xs ! a) (xs ! c) < 0 then a else c))"

definition qsort_pivot :: "('a \<Rightarrow> 'a \<Rightarrow> int) \<Rightarrow> 'a list \<Rightarrow> nat \<Rightarrow> nat" where
  "qsort_pivot cmp xs n =
     (let pm = n div 2
      in if n > 7
         then let pl = 0;
                  pn = n - 1;
                  (pl, pm, pn) =
                    (if n > 40
                     then let d = n div 8
                          in (med3 cmp xs pl (pl + d) (pl + 2 * d), med3 cmp xs (pm - d) pm (pm + d),
                              med3 cmp xs (pn - 2 * d) (pn - d) pn)
                     else (pl, pm, pn))
              in med3 cmp xs pl pm pn
         else pm)"

section \<open>The partition\<close>

text \<open>The array, the four pointers and the flag \<^verbatim>\<open>swap_cnt\<close>; the pivot is the first element.\<close>

record 'a partition_state =
  part_arr :: "'a list"
  part_pa :: nat
  part_pb :: nat
  part_pc :: nat
  part_pd :: nat
  swap_cnt :: bool

text \<open>
  The two inner loops move equal elements to the ends. \<^verbatim>\<open>pb\<close> is at least one, so that \<^verbatim>\<open>pc\<close> is not zero in
  the second loop; the test makes the definition total.
\<close>

function part_up :: "('a \<Rightarrow> 'a \<Rightarrow> int) \<Rightarrow> 'a partition_state \<Rightarrow> 'a partition_state" where
  "part_up cmp s =
     (if part_pb s \<le> part_pc s \<and> cmp (part_arr s ! part_pb s) (part_arr s ! 0) \<le> 0
      then let r = cmp (part_arr s ! part_pb s) (part_arr s ! 0);
               s = (if r = 0
                    then s\<lparr>part_arr := swap_elems (part_pa s) (part_pb s) (part_arr s), part_pa := part_pa s + 1,
                           swap_cnt := True\<rparr>
                    else s)
           in part_up cmp (s\<lparr>part_pb := part_pb s + 1\<rparr>)
      else s)"
  by auto
termination by (relation "measure (\<lambda>(cmp, s). Suc (part_pc s) - part_pb s)") auto

function part_down :: "('a \<Rightarrow> 'a \<Rightarrow> int) \<Rightarrow> 'a partition_state \<Rightarrow> 'a partition_state" where
  "part_down cmp s =
     (if part_pb s \<le> part_pc s \<and> 0 < part_pc s \<and> cmp (part_arr s ! part_pc s) (part_arr s ! 0) \<ge> 0
      then let r = cmp (part_arr s ! part_pc s) (part_arr s ! 0);
               s = (if r = 0
                    then s\<lparr>part_arr := swap_elems (part_pc s) (part_pd s) (part_arr s), part_pd := part_pd s - 1,
                           swap_cnt := True\<rparr>
                    else s)
           in part_down cmp (s\<lparr>part_pc := part_pc s - 1\<rparr>)
      else s)"
  by auto
termination by (relation "measure (\<lambda>(cmp, s). part_pc s)") auto

declare part_up.simps [simp del] part_down.simps [simp del]

text \<open>The cases of the loops.\<close>

lemma part_up_cases:
  "part_pb s \<le> part_pc s \<Longrightarrow> cmp (part_arr s ! part_pb s) (part_arr s ! 0) < 0 \<Longrightarrow>
     part_up cmp s = part_up cmp (s\<lparr>part_pb := part_pb s + 1\<rparr>)"
  "part_pb s \<le> part_pc s \<Longrightarrow> cmp (part_arr s ! part_pb s) (part_arr s ! 0) = 0 \<Longrightarrow>
     part_up cmp s = part_up cmp (s\<lparr>part_arr := swap_elems (part_pa s) (part_pb s) (part_arr s),
       part_pa := part_pa s + 1, swap_cnt := True, part_pb := part_pb s + 1\<rparr>)"
  "\<not> (part_pb s \<le> part_pc s \<and> cmp (part_arr s ! part_pb s) (part_arr s ! 0) \<le> 0) \<Longrightarrow> part_up cmp s = s"
  unfolding part_up.simps [of cmp s] by (auto simp: Let_def)

lemma part_down_cases:
  "part_pb s \<le> part_pc s \<Longrightarrow> 0 < part_pc s \<Longrightarrow> cmp (part_arr s ! part_pc s) (part_arr s ! 0) > 0 \<Longrightarrow>
     part_down cmp s = part_down cmp (s\<lparr>part_pc := part_pc s - 1\<rparr>)"
  "part_pb s \<le> part_pc s \<Longrightarrow> 0 < part_pc s \<Longrightarrow> cmp (part_arr s ! part_pc s) (part_arr s ! 0) = 0 \<Longrightarrow>
     part_down cmp s = part_down cmp (s\<lparr>part_arr := swap_elems (part_pc s) (part_pd s) (part_arr s),
       part_pd := part_pd s - 1, swap_cnt := True, part_pc := part_pc s - 1\<rparr>)"
  "\<not> (part_pb s \<le> part_pc s \<and> 0 < part_pc s \<and> cmp (part_arr s ! part_pc s) (part_arr s ! 0) \<ge> 0) \<Longrightarrow>
     part_down cmp s = s"
  unfolding part_down.simps [of cmp s] by (auto simp: Let_def)

text \<open>An induction over each loop: a property that holds after every iteration holds at the end.\<close>

lemma part_up_induct:
  assumes "P s"
    and less: "\<And>s. P s \<Longrightarrow> part_pb s \<le> part_pc s \<Longrightarrow> cmp (part_arr s ! part_pb s) (part_arr s ! 0) < 0 \<Longrightarrow>
      P (s\<lparr>part_pb := part_pb s + 1\<rparr>)"
    and equal: "\<And>s. P s \<Longrightarrow> part_pb s \<le> part_pc s \<Longrightarrow> cmp (part_arr s ! part_pb s) (part_arr s ! 0) = 0 \<Longrightarrow>
      P (s\<lparr>part_arr := swap_elems (part_pa s) (part_pb s) (part_arr s), part_pa := part_pa s + 1, swap_cnt := True,
           part_pb := part_pb s + 1\<rparr>)"
  shows "P (part_up cmp s) \<and> \<not> (part_pb (part_up cmp s) \<le> part_pc (part_up cmp s) \<and>
    cmp (part_arr (part_up cmp s) ! part_pb (part_up cmp s)) (part_arr (part_up cmp s) ! 0) \<le> 0)"
  using assms(1)
proof (induction "Suc (part_pc s) - part_pb s" arbitrary: s rule: less_induct)
  case less: less
  consider "part_pb s \<le> part_pc s" "cmp (part_arr s ! part_pb s) (part_arr s ! 0) < 0"
    | "part_pb s \<le> part_pc s" "cmp (part_arr s ! part_pb s) (part_arr s ! 0) = 0"
    | "\<not> (part_pb s \<le> part_pc s \<and> cmp (part_arr s ! part_pb s) (part_arr s ! 0) \<le> 0)" by linarith
  then show ?case
  proof cases
    case 1
    with less.hyps [OF _ assms(2) [OF less.prems 1]] show ?thesis unfolding part_up_cases(1) [of s cmp, OF 1] by simp
  next
    case 2
    with less.hyps [OF _ assms(3) [OF less.prems 2]] show ?thesis unfolding part_up_cases(2) [of s cmp, OF 2] by simp
  next
    case 3
    with less.prems show ?thesis unfolding part_up_cases(3) [of s cmp, OF 3] by simp
  qed
qed

lemma part_down_induct:
  assumes "P s"
    and greater: "\<And>s. P s \<Longrightarrow> part_pb s \<le> part_pc s \<Longrightarrow> 0 < part_pc s \<Longrightarrow>
      cmp (part_arr s ! part_pc s) (part_arr s ! 0) > 0 \<Longrightarrow> P (s\<lparr>part_pc := part_pc s - 1\<rparr>)"
    and equal: "\<And>s. P s \<Longrightarrow> part_pb s \<le> part_pc s \<Longrightarrow> 0 < part_pc s \<Longrightarrow>
      cmp (part_arr s ! part_pc s) (part_arr s ! 0) = 0 \<Longrightarrow>
      P (s\<lparr>part_arr := swap_elems (part_pc s) (part_pd s) (part_arr s), part_pd := part_pd s - 1, swap_cnt := True,
           part_pc := part_pc s - 1\<rparr>)"
  shows "P (part_down cmp s) \<and> \<not> (part_pb (part_down cmp s) \<le> part_pc (part_down cmp s) \<and> 0 < part_pc (part_down cmp s) \<and>
    cmp (part_arr (part_down cmp s) ! part_pc (part_down cmp s)) (part_arr (part_down cmp s) ! 0) \<ge> 0)"
  using assms(1)
proof (induction "part_pc s" arbitrary: s rule: less_induct)
  case less: less
  consider "part_pb s \<le> part_pc s" "0 < part_pc s" "cmp (part_arr s ! part_pc s) (part_arr s ! 0) > 0"
    | "part_pb s \<le> part_pc s" "0 < part_pc s" "cmp (part_arr s ! part_pc s) (part_arr s ! 0) = 0"
    | "\<not> (part_pb s \<le> part_pc s \<and> 0 < part_pc s \<and> cmp (part_arr s ! part_pc s) (part_arr s ! 0) \<ge> 0)" by linarith
  then show ?case
  proof cases
    case 1
    with less.hyps [OF _ assms(2) [OF less.prems 1]] show ?thesis unfolding part_down_cases(1) [of s cmp, OF 1] by simp
  next
    case 2
    with less.hyps [OF _ assms(3) [OF less.prems 2]] show ?thesis unfolding part_down_cases(2) [of s cmp, OF 2] by simp
  next
    case 3
    with less.prems show ?thesis unfolding part_down_cases(3) [of s cmp, OF 3] by simp
  qed
qed

lemma part_up_pointers:
  "part_pc (part_up cmp s) = part_pc s \<and> part_pd (part_up cmp s) = part_pd s \<and> part_pb s \<le> part_pb (part_up cmp s)"
  by (rule part_up_induct [where s = s and P = "\<lambda>t. part_pc t = part_pc s \<and> part_pd t = part_pd s \<and> part_pb s \<le> part_pb t",
      THEN conjunct1]) auto

lemma part_down_pointers:
  "part_pb (part_down cmp s) = part_pb s \<and> part_pc (part_down cmp s) \<le> part_pc s \<and> part_pd (part_down cmp s) \<le> part_pd s"
  by (rule part_down_induct [where s = s and P = "\<lambda>t. part_pb t = part_pb s \<and> part_pc t \<le> part_pc s \<and> part_pd t \<le> part_pd s",
      THEN conjunct1]) auto

function part_loop :: "('a \<Rightarrow> 'a \<Rightarrow> int) \<Rightarrow> 'a partition_state \<Rightarrow> 'a partition_state" where
  "part_loop cmp s =
     (let s = part_down cmp (part_up cmp s)
      in if part_pb s > part_pc s then s
         else part_loop cmp
           (s\<lparr>part_arr := swap_elems (part_pb s) (part_pc s) (part_arr s), swap_cnt := True,
              part_pb := part_pb s + 1, part_pc := part_pc s - 1\<rparr>))"
  by auto
termination
proof (relation "measure (\<lambda>(cmp, s). Suc (part_pc s) - part_pb s)", goal_cases)
  case (2 cmp s x)
  then show ?case
    using part_up_pointers [of cmp s] part_down_pointers [of cmp "part_up cmp s"] by simp linarith
qed simp

declare part_loop.simps [simp del]

lemma part_loop_pd: "part_pd (part_loop cmp s) \<le> part_pd s"
proof (induction cmp s rule: part_loop.induct)
  case (1 cmp s)
  let ?s = "part_down cmp (part_up cmp s)"
  have "part_pd ?s \<le> part_pd s"
    using part_up_pointers [of cmp s] part_down_pointers [of cmp "part_up cmp s"] by simp
  moreover have "part_pd (part_loop cmp s) \<le> part_pd ?s"
  proof (cases "part_pb ?s > part_pc ?s")
    case True
    then show ?thesis by (simp add: part_loop.simps [of cmp s] Let_def)
  next
    case False
    with 1 [OF refl False] show ?thesis by (simp add: part_loop.simps [of cmp s] Let_def)
  qed
  ultimately show ?case by simp
qed

section \<open>Quicksort\<close>

definition vecswap :: "(nat \<Rightarrow> nat \<Rightarrow> nat \<Rightarrow> 'a list \<Rightarrow> 'a list) option \<Rightarrow> nat \<Rightarrow> nat \<Rightarrow> nat \<Rightarrow> 'a list \<Rightarrow> 'a list option" where
  "vecswap swapfn a b n xs =
     (if n > 0 then case swapfn of None \<Rightarrow> None | Some f \<Rightarrow> Some (f a b n xs) else Some xs)"

text \<open>
  One round: \<open>xs\<close> is the part of the array that starts at \<^verbatim>\<open>a\<close>, with \<open>n\<close> elements. The smaller elements are
  sorted by \<open>qsort\<close>, which gets them as a list of their own. The result is the array and the number of
  larger elements at its end that are still to be sorted, by going back to \<^verbatim>\<open>loop\<close>.
\<close>

definition part_init :: "('a \<Rightarrow> 'a \<Rightarrow> int) \<Rightarrow> nat \<Rightarrow> 'a list \<Rightarrow> 'a partition_state" where
  "part_init cmp n xs =
     \<lparr>part_arr = swap_elems 0 (qsort_pivot cmp xs n) xs, part_pa = 1, part_pb = 1, part_pc = n - 1, part_pd = n - 1,
      swap_cnt = False\<rparr>"

definition qsort_round :: "('a \<Rightarrow> 'a \<Rightarrow> int) \<Rightarrow> ('a list \<Rightarrow> 'a list) \<Rightarrow>
    (nat \<Rightarrow> nat \<Rightarrow> nat \<Rightarrow> 'a list \<Rightarrow> 'a list) option \<Rightarrow> nat \<Rightarrow> 'a list \<Rightarrow> ('a list \<times> nat) option" where
  "qsort_round cmp qsort swapfn n xs =
     (if n < 7 then Some (insert_all cmp n xs 1, 0)
      else let s = part_loop cmp (part_init cmp n xs);
               pa = part_pa s; pb = part_pb s; pc = part_pc s; pd = part_pd s
      in if \<not> swap_cnt s then Some (insert_all cmp n (part_arr s) 1, 0)
      else do {
        let r = min pa (pb - pa);
        xs \<leftarrow> vecswap swapfn 0 (pb - r) r (part_arr s);
        let r = min (pd - pc) (n - pd - 1);
        xs \<leftarrow> vecswap swapfn pb (n - r) r xs;
        let r = pb - pa;
        let xs = (if r > 1 then qsort (take r xs) @ drop r xs else xs);
        Some (xs, pd - pc) })"

lemma qsort_round_less:
  assumes "qsort_round cmp qsort swapfn n xs = Some (ys, r)" and "r > 1"
  shows "r < n"
proof -
  have "r = part_pd (part_loop cmp (part_init cmp n xs)) - part_pc (part_loop cmp (part_init cmp n xs))" "\<not> n < 7"
    using assms by (auto simp: qsort_round_def Let_def split: bind_splits if_splits)
  moreover have "part_pd (part_loop cmp (part_init cmp n xs)) \<le> n - 1"
    using part_loop_pd [of cmp "part_init cmp n xs"] by (simp add: part_init_def)
  ultimately show ?thesis by linarith
qed

function qsort_loop :: "('a \<Rightarrow> 'a \<Rightarrow> int) \<Rightarrow> ('a list \<Rightarrow> 'a list) \<Rightarrow> (nat \<Rightarrow> nat \<Rightarrow> nat \<Rightarrow> 'a list \<Rightarrow> 'a list) option \<Rightarrow>
    nat \<Rightarrow> 'a list \<Rightarrow> 'a list option" where
  "qsort_loop cmp qsort swapfn n xs =
     (case qsort_round cmp qsort swapfn n xs of
        None \<Rightarrow> None
      | Some (xs, r) \<Rightarrow>
          if r > 1 then map_option (\<lambda>ys. take (n - r) xs @ ys) (qsort_loop cmp qsort swapfn r (drop (n - r) xs))
          else Some xs)"
  by auto
termination by (relation "measure (\<lambda>(cmp, qsort, swapfn, n, xs). n)") (auto dest: qsort_round_less)

declare qsort_loop.simps [simp del]

definition linux_sort :: "('a \<Rightarrow> 'a \<Rightarrow> int) \<Rightarrow> ('a list \<Rightarrow> 'a list) \<Rightarrow> (nat \<Rightarrow> nat \<Rightarrow> nat \<Rightarrow> 'a list \<Rightarrow> 'a list) option \<Rightarrow>
    'a list \<Rightarrow> 'a list option" where
  "linux_sort cmp qsort swapfn xs = qsort_loop cmp qsort swapfn (length xs) xs"

end
