(* ===== verification/Sort_Correct.thy ===== *)
theory Sort_Correct
  imports Sort
begin

text \<open>
  Correctness of the sorting function: the insertion sort, the invariant of the three-way partition, and
  the whole sort for every comparison that is a total preorder on the elements of the array. The contract
  between the sort and a comparison is a locale.
\<close>

section \<open>Exchanging elements\<close>

lemma length_swap_elems [simp]: "length (swap_elems i j xs) = length xs"
  by (simp add: swap_elems_def)

lemma nth_swap_elems:
  "i < length xs \<Longrightarrow> j < length xs \<Longrightarrow>
   swap_elems i j xs ! k = (if k = j then xs ! i else if k = i then xs ! j else xs ! k)"
  by (auto simp: swap_elems_def nth_list_update)

lemma mset_swap_elems [simp]: "i < length xs \<Longrightarrow> j < length xs \<Longrightarrow> mset (swap_elems i j xs) = mset xs"
  unfolding swap_elems_def by (rule mset_swap)

section \<open>Insertion sort\<close>

lemma sorted_wrt_last:
  "sorted_wrt P xs \<Longrightarrow> x \<in> set xs \<Longrightarrow> (\<And>x. x \<in> set xs \<Longrightarrow> P x x) \<Longrightarrow> P x (last xs)"
  by (induction xs) auto

text \<open>The inner loop moves an element before the larger ones.\<close>

lemma insert_down_split:
  "\<exists>ys1 ys2. ys = ys1 @ ys2 \<and> insert_down cmp (ys @ x # zs) (length ys) = ys1 @ x # ys2 @ zs \<and>
     (\<forall>y\<in>set ys2. cmp y x > 0) \<and> (ys1 \<noteq> [] \<longrightarrow> cmp (last ys1) x \<le> 0)"
proof (induction ys arbitrary: zs rule: rev_induct)
  case (snoc y ys)
  show ?case
  proof (cases "cmp y x > 0")
    case True
    have "swap_elems (Suc (length ys)) (length ys) (ys @ y # x # zs) = ys @ x # y # zs"
      by (simp add: swap_elems_def nth_append list_update_append)
    with True have "insert_down cmp ((ys @ [y]) @ x # zs) (length (ys @ [y])) = insert_down cmp (ys @ x # y # zs) (length ys)"
      by (simp add: nth_append)
    moreover obtain ys1 ys2 where "ys = ys1 @ ys2"
      "insert_down cmp (ys @ x # y # zs) (length ys) = ys1 @ x # ys2 @ y # zs" "\<forall>y\<in>set ys2. cmp y x > 0"
      "ys1 \<noteq> [] \<longrightarrow> cmp (last ys1) x \<le> 0"
      using snoc.IH [of "y # zs"] by blast
    ultimately show ?thesis using True by (intro exI [of _ ys1] exI [of _ "ys2 @ [y]"]) auto
  next
    case False
    then show ?thesis by (intro exI [of _ "ys @ [y]"] exI [of _ "[]"]) (simp add: nth_append)
  qed
qed simp

section \<open>The partition\<close>

text \<open>
  Elements that are equal to the pivot are at both ends, smaller ones behind the first of them and larger
  ones before the last of them.
\<close>

definition part_inv :: "('a \<Rightarrow> 'a \<Rightarrow> int) \<Rightarrow> 'a list \<Rightarrow> 'a partition_state \<Rightarrow> bool" where
  "part_inv cmp ys s \<longleftrightarrow>
     mset (part_arr s) = mset ys \<and> part_arr s ! 0 = ys ! 0 \<and> 1 \<le> part_pa s \<and> part_pa s \<le> part_pb s \<and> part_pb s \<le> part_pc s + 1 \<and>
     part_pc s \<le> part_pd s \<and> part_pd s < length (part_arr s) \<and>
     (\<forall>i<part_pa s. cmp (part_arr s ! i) (part_arr s ! 0) = 0) \<and>
     (\<forall>i. part_pa s \<le> i \<and> i < part_pb s \<longrightarrow> cmp (part_arr s ! i) (part_arr s ! 0) < 0) \<and>
     (\<forall>i. part_pc s < i \<and> i \<le> part_pd s \<longrightarrow> cmp (part_arr s ! i) (part_arr s ! 0) > 0) \<and>
     (\<forall>i. part_pd s < i \<and> i < length (part_arr s) \<longrightarrow> cmp (part_arr s ! i) (part_arr s ! 0) = 0)"

lemma part_inv_up_less:
  assumes "part_inv cmp ys s" and "part_pb s \<le> part_pc s" and "cmp (part_arr s ! part_pb s) (part_arr s ! 0) < 0"
  shows "part_inv cmp ys (s\<lparr>part_pb := part_pb s + 1\<rparr>)"
  using assms unfolding part_inv_def by (auto simp: less_Suc_eq)

lemma part_inv_up_equal:
  assumes "part_inv cmp ys s" and "part_pb s \<le> part_pc s" and "cmp (part_arr s ! part_pb s) (part_arr s ! 0) = 0"
  shows "part_inv cmp ys (s\<lparr>part_arr := swap_elems (part_pa s) (part_pb s) (part_arr s), part_pa := part_pa s + 1,
    swap_cnt := True, part_pb := part_pb s + 1\<rparr>)"
proof -
  have b: "1 \<le> part_pa s" "part_pa s \<le> part_pb s" "part_pb s < length (part_arr s)" "part_pa s < length (part_arr s)"
    using assms(1,2) by (auto simp: part_inv_def)
  let ?xs = "part_arr s" and ?zs = "swap_elems (part_pa s) (part_pb s) (part_arr s)"
  have n: "?zs ! k = (if k = part_pb s then ?xs ! part_pa s else if k = part_pa s then ?xs ! part_pb s else ?xs ! k)" for k
    using b by (intro nth_swap_elems) simp_all
  have z: "?zs ! 0 = ?xs ! 0" using b by (simp add: n)
  show ?thesis
    using assms b unfolding part_inv_def by (auto simp: n z less_Suc_eq less_Suc_eq_le)
qed

lemma part_inv_down_greater:
  assumes "part_inv cmp ys s" and "part_pb s \<le> part_pc s" and "0 < part_pc s"
    and "cmp (part_arr s ! part_pc s) (part_arr s ! 0) > 0"
  shows "part_inv cmp ys (s\<lparr>part_pc := part_pc s - 1\<rparr>)"
proof -
  have "part_pc s - Suc 0 < i \<longleftrightarrow> i = part_pc s \<or> part_pc s < i" for i using assms(3) by auto
  with assms show ?thesis unfolding part_inv_def by auto
qed

lemma part_inv_down_equal:
  assumes "part_inv cmp ys s" and "part_pb s \<le> part_pc s" and "0 < part_pc s"
    and "cmp (part_arr s ! part_pc s) (part_arr s ! 0) = 0"
  shows "part_inv cmp ys (s\<lparr>part_arr := swap_elems (part_pc s) (part_pd s) (part_arr s), part_pd := part_pd s - 1,
    swap_cnt := True, part_pc := part_pc s - 1\<rparr>)"
proof -
  have b: "1 \<le> part_pa s" "part_pa s \<le> part_pb s" "part_pc s \<le> part_pd s" "part_pd s < length (part_arr s)"
    using assms(1,2) by (auto simp: part_inv_def)
  let ?xs = "part_arr s" and ?zs = "swap_elems (part_pc s) (part_pd s) (part_arr s)"
  have n: "?zs ! k = (if k = part_pd s then ?xs ! part_pc s else if k = part_pc s then ?xs ! part_pd s else ?xs ! k)" for k
    using b by (intro nth_swap_elems) simp_all
  have z: "?zs ! 0 = ?xs ! 0" using b assms(3) by (simp add: n)
  have c: "part_pc s - Suc 0 < i \<longleftrightarrow> i = part_pc s \<or> part_pc s < i" "part_pd s - Suc 0 < i \<longleftrightarrow> i = part_pd s \<or> part_pd s < i"
    "i \<le> part_pd s - Suc 0 \<longleftrightarrow> i < part_pd s" for i
    using assms(3) b by auto
  show ?thesis
    using assms b unfolding part_inv_def by (auto simp: n z c)
qed

lemma part_inv_swap:
  assumes "part_inv cmp ys s" and "part_pb s \<le> part_pc s"
    and "cmp (part_arr s ! part_pb s) (part_arr s ! 0) > 0" and "cmp (part_arr s ! part_pc s) (part_arr s ! 0) < 0"
  shows "part_inv cmp ys (s\<lparr>part_arr := swap_elems (part_pb s) (part_pc s) (part_arr s), swap_cnt := True,
    part_pb := part_pb s + 1, part_pc := part_pc s - 1\<rparr>)"
proof -
  have "part_pb s \<noteq> part_pc s" using assms(3,4) by auto
  then have b: "1 \<le> part_pa s" "part_pa s \<le> part_pb s" "part_pb s < part_pc s" "part_pc s \<le> part_pd s"
    "part_pc s < length (part_arr s)"
    using assms(1,2) by (auto simp: part_inv_def)
  let ?xs = "part_arr s" and ?zs = "swap_elems (part_pb s) (part_pc s) (part_arr s)"
  have n: "?zs ! k = (if k = part_pc s then ?xs ! part_pb s else if k = part_pb s then ?xs ! part_pc s else ?xs ! k)" for k
    using b by (intro nth_swap_elems) simp_all
  have z: "?zs ! 0 = ?xs ! 0" using b by (simp add: n)
  have c: "part_pc s - Suc 0 < i \<longleftrightarrow> i = part_pc s \<or> part_pc s < i" for i using b by auto
  show ?thesis
    using assms b unfolding part_inv_def by (auto simp: n z c less_Suc_eq)
qed

lemma part_loop_inv:
  assumes "part_inv cmp ys s"
  shows "part_inv cmp ys (part_loop cmp s) \<and> part_pb (part_loop cmp s) = part_pc (part_loop cmp s) + 1"
  using assms
proof (induction cmp s rule: part_loop.induct)
  case (1 cmp s)
  let ?u = "part_up cmp s" and ?d = "part_down cmp (part_up cmp s)"
  have u: "part_inv cmp ys ?u \<and> \<not> (part_pb ?u \<le> part_pc ?u \<and> cmp (part_arr ?u ! part_pb ?u) (part_arr ?u ! 0) \<le> 0)"
    by (rule part_up_induct [where P = "part_inv cmp ys"])
      (use 1(2) part_inv_up_less part_inv_up_equal in \<open>blast+\<close>)
  let ?Q = "\<lambda>t. part_inv cmp ys t \<and> part_pb t = part_pb ?u \<and>
    (part_pb t \<le> part_pc t \<longrightarrow> cmp (part_arr t ! part_pb t) (part_arr t ! 0) > 0)"
  have d: "?Q ?d \<and> \<not> (part_pb ?d \<le> part_pc ?d \<and> 0 < part_pc ?d \<and> cmp (part_arr ?d ! part_pc ?d) (part_arr ?d ! 0) \<ge> 0)"
  proof (rule part_down_induct [where P = ?Q])
    show "?Q ?u" using u by auto
  next
    fix t
    assume t: "?Q t" "part_pb t \<le> part_pc t" "0 < part_pc t" "cmp (part_arr t ! part_pc t) (part_arr t ! 0) > 0"
    then show "?Q (t\<lparr>part_pc := part_pc t - 1\<rparr>)" using part_inv_down_greater [of cmp ys t] by auto
  next
    fix t
    assume t: "?Q t" "part_pb t \<le> part_pc t" "0 < part_pc t" "cmp (part_arr t ! part_pc t) (part_arr t ! 0) = 0"
    let ?t = "t\<lparr>part_arr := swap_elems (part_pc t) (part_pd t) (part_arr t), part_pd := part_pd t - 1,
      swap_cnt := True, part_pc := part_pc t - 1\<rparr>"
    have "part_inv cmp ys ?t" using part_inv_down_equal [of cmp ys t] t by blast
    moreover have "1 \<le> part_pb t" "part_pc t \<le> part_pd t" "part_pd t < length (part_arr t)"
      using t(1) by (auto simp: part_inv_def)
    ultimately show "?Q ?t" using t by (auto simp: nth_swap_elems)
  qed
  show ?case
  proof (cases "part_pb ?d > part_pc ?d")
    case True
    then have "part_loop cmp s = ?d" by (simp add: part_loop.simps [of cmp s] Let_def)
    moreover have "part_pb ?d \<le> part_pc ?d + 1" using d by (simp add: part_inv_def)
    ultimately show ?thesis using d True by simp
  next
    case False
    have "1 \<le> part_pb ?d" using d by (auto simp: part_inv_def)
    with False d have "cmp (part_arr ?d ! part_pc ?d) (part_arr ?d ! 0) < 0" by linarith
    moreover have "part_pb ?d \<le> part_pc ?d" using False by simp
    ultimately have "part_inv cmp ys (?d\<lparr>part_arr := swap_elems (part_pb ?d) (part_pc ?d) (part_arr ?d),
        swap_cnt := True, part_pb := part_pb ?d + 1, part_pc := part_pc ?d - 1\<rparr>)"
      using part_inv_swap [of cmp ys ?d] d by blast
    from 1(1) [OF refl False this] show ?thesis using False by (simp add: part_loop.simps [of cmp s] Let_def)
  qed
qed

text \<open>The result of the loop as four lists: equal, smaller, larger and equal elements.\<close>

lemma part_inv_lists:
  assumes "part_inv cmp ys s" and "part_pb s = part_pc s + 1"
  obtains E1 L G E2 where "part_arr s = E1 @ L @ G @ E2" and "length E1 = part_pa s" and "length L = part_pb s - part_pa s"
    and "length G = part_pd s - part_pc s" and "length E2 = length (part_arr s) - part_pd s - 1" and "E1 \<noteq> []"
    and "\<And>x. x \<in> set E1 \<union> set E2 \<Longrightarrow> cmp x (hd E1) = 0" and "\<And>x. x \<in> set L \<Longrightarrow> cmp x (hd E1) < 0"
    and "\<And>x. x \<in> set G \<Longrightarrow> cmp x (hd E1) > 0"
proof -
  let ?xs = "part_arr s" and ?pa = "part_pa s" and ?pb = "part_pb s" and ?pc = "part_pc s" and ?pd = "part_pd s"
  have b: "1 \<le> ?pa" "?pa \<le> ?pb" "?pb = ?pc + 1" "?pc \<le> ?pd" "?pd < length ?xs"
    using assms by (auto simp: part_inv_def)
  let ?E1 = "take ?pa ?xs" and ?L = "take (?pb - ?pa) (drop ?pa ?xs)" and ?G = "take (?pd - ?pc) (drop ?pb ?xs)"
    and ?E2 = "drop (?pd + 1) ?xs"
  have "?L @ ?G @ ?E2 = drop ?pa ?xs"
  proof -
    have "?G @ ?E2 = drop ?pb ?xs" using append_take_drop_id [of "?pd - ?pc" "drop ?pb ?xs"] b by (simp add: add.commute)
    then show ?thesis using append_take_drop_id [of "?pb - ?pa" "drop ?pa ?xs"] b by simp
  qed
  then have "?xs = ?E1 @ ?L @ ?G @ ?E2" by (metis append_take_drop_id)
  moreover have hd: "hd ?E1 = ?xs ! 0" using b by (cases ?xs; cases ?pa) auto
  moreover have "cmp x (hd ?E1) = 0" if "x \<in> set ?E1 \<union> set ?E2" for x
    using that b assms(1) unfolding hd part_inv_def by (auto simp: in_set_conv_nth)
  moreover have "cmp x (hd ?E1) < 0" if "x \<in> set ?L" for x
    using that b assms(1) unfolding hd part_inv_def by (auto simp: in_set_conv_nth)
  moreover have "cmp x (hd ?E1) > 0" if "x \<in> set ?G" for x
    using that b assms(1) unfolding hd part_inv_def by (auto simp: in_set_conv_nth)
  ultimately show ?thesis
    using b by (intro that [of ?E1 ?L ?G ?E2]) auto
qed

section \<open>Exchanging blocks\<close>

text \<open>What a caller's function has to do: exchange two blocks of the same length that do not overlap.\<close>

definition swaps_blocks :: "(nat \<Rightarrow> nat \<Rightarrow> nat \<Rightarrow> 'a list \<Rightarrow> 'a list) \<Rightarrow> bool" where
  "swaps_blocks f \<longleftrightarrow> (\<forall>A B C D E. length B = length D \<longrightarrow>
     f (length A) (length A + length B + length C) (length B) (A @ B @ C @ D @ E) = A @ D @ C @ B @ E)"

lemma vecswap_ends:
  assumes "swaps_blocks f" and "r = min (length X) (length Y)"
  shows "\<exists>X' Y'. vecswap (Some f) (length A) (length A + length X + length Y - r) r (A @ X @ Y @ Z) =
    Some (A @ Y' @ X' @ Z) \<and> mset X' = mset X \<and> mset Y' = mset Y"
proof -
  have f: "f (length A) j r (A @ B @ C @ D @ E) = A @ D @ C @ B @ E"
    if "length B = r" "length D = r" "j = length A + length B + length C" for j A B C D E
    using assms(1) [unfolded swaps_blocks_def, rule_format, of B D A C E] that by simp
  consider "r = 0" | "r > 0" "r = length X" "length X \<le> length Y" | "r > 0" "r = length Y" "length Y \<le> length X"
    using assms(2) by linarith
  then show ?thesis
  proof cases
    case 1
    then have "X = [] \<or> Y = []" using assms(2) by (auto simp: min_def split: if_splits)
    with 1 show ?thesis by (auto simp: vecswap_def)
  next
    case 2
    let ?Y1 = "take (length Y - r) Y" and ?Y2 = "drop (length Y - r) Y"
    have "f (length A) (length A + length X + length Y - r) r (A @ X @ ?Y1 @ ?Y2 @ Z) = A @ ?Y2 @ ?Y1 @ X @ Z"
      using 2 by (intro f) auto
    moreover have "mset (?Y2 @ ?Y1) = mset Y" by (metis append_take_drop_id mset_append union_commute)
    ultimately show ?thesis
      using 2 by (intro exI [of _ X] exI [of _ "?Y2 @ ?Y1"]) (simp add: vecswap_def flip: append_assoc)
  next
    case 3
    let ?X1 = "take r X" and ?X2 = "drop r X"
    have "f (length A) (length A + length X + length Y - r) r (A @ ?X1 @ ?X2 @ Y @ Z) = A @ Y @ ?X2 @ ?X1 @ Z"
      using 3 by (intro f) auto
    moreover have "mset (?X2 @ ?X1) = mset X" by (metis append_take_drop_id mset_append union_commute)
    ultimately show ?thesis
      using 3 by (intro exI [of _ "?X2 @ ?X1"] exI [of _ Y]) (simp add: vecswap_def flip: append_assoc)
  qed
qed

section \<open>The pivot\<close>

lemma med3_cases: "med3 cmp xs a b c \<in> {a, b, c}"
  by (simp add: med3_def)

lemma qsort_pivot_less:
  assumes "7 \<le> n"
  shows "qsort_pivot cmp xs n < n"
proof -
  have m: "med3 cmp xs a b c < n" if "a < n" "b < n" "c < n" for a b c
    using med3_cases [of cmp xs a b c] that by auto
  show ?thesis
    using assms by (auto simp: qsort_pivot_def Let_def intro!: m)
qed

lemma sorted_wrt_all: "(\<And>x y. x \<in> set xs \<Longrightarrow> y \<in> set xs \<Longrightarrow> P x y) \<Longrightarrow> sorted_wrt P xs"
  by (induction xs) auto

lemma sorted_wrt_short: "length xs \<le> 1 \<Longrightarrow> sorted_wrt P xs"
  by (cases xs) auto

section \<open>The contract of comparisons\<close>

text \<open>What \<^verbatim>\<open>qsort\<close> of the kernel has to do for the same comparison.\<close>

definition sorts_lists :: "'a set \<Rightarrow> ('a \<Rightarrow> 'a \<Rightarrow> int) \<Rightarrow> ('a list \<Rightarrow> 'a list) \<Rightarrow> bool" where
  "sorts_lists A cmp f \<longleftrightarrow>
     (\<forall>xs. set xs \<subseteq> A \<longrightarrow> mset (f xs) = mset xs \<and> sorted_wrt (\<lambda>a b. cmp a b \<le> 0) (f xs))"

text \<open>A comparison orders the elements of \<open>A\<close> totally, where different elements may be equivalent.\<close>

locale comparison =
  fixes A :: "'a set" and cmp :: "'a \<Rightarrow> 'a \<Rightarrow> int"
  assumes cmp_swap: "x \<in> A \<Longrightarrow> y \<in> A \<Longrightarrow> sgn (cmp y x) = - sgn (cmp x y)"
    and cmp_trans: "x \<in> A \<Longrightarrow> y \<in> A \<Longrightarrow> z \<in> A \<Longrightarrow> cmp x y \<le> 0 \<Longrightarrow> cmp y z \<le> 0 \<Longrightarrow> cmp x z \<le> 0"
begin

lemma cmp_refl: "x \<in> A \<Longrightarrow> cmp x x = 0"
  using cmp_swap [of x x] by (simp add: sgn_if split: if_splits)

lemma cmp_flip: "x \<in> A \<Longrightarrow> y \<in> A \<Longrightarrow> cmp x y \<ge> 0 \<longleftrightarrow> cmp y x \<le> 0"
  using cmp_swap [of x y] by (auto simp: sgn_if split: if_splits)

lemma insert_down_sorted:
  assumes "set ys \<subseteq> A" and "x \<in> A" and "sorted_wrt (\<lambda>a b. cmp a b \<le> 0) ys"
  shows "\<exists>us. insert_down cmp (ys @ x # zs) (length ys) = us @ zs \<and> mset us = mset (ys @ [x]) \<and>
    sorted_wrt (\<lambda>a b. cmp a b \<le> 0) us"
proof -
  obtain ys1 ys2 where s: "ys = ys1 @ ys2" "insert_down cmp (ys @ x # zs) (length ys) = ys1 @ x # ys2 @ zs"
    "\<forall>y\<in>set ys2. cmp y x > 0" "ys1 \<noteq> [] \<longrightarrow> cmp (last ys1) x \<le> 0"
    using insert_down_split [of ys cmp x zs] by blast
  have "cmp x y \<le> 0" if "y \<in> set ys2" for y
  proof -
    have "y \<in> A" "cmp y x \<ge> 0" using that s(1,3) assms(1) by auto
    then show ?thesis using cmp_flip [of y x] assms(2) by simp
  qed
  moreover have "cmp y x \<le> 0" if y: "y \<in> set ys1" for y
  proof -
    have "ys1 \<noteq> []" and "set ys1 \<subseteq> A" using y s(1) assms(1) by auto
    moreover have "cmp y (last ys1) \<le> 0"
    proof (rule sorted_wrt_last [of "\<lambda>a b. cmp a b \<le> 0" ys1 y])
      show "sorted_wrt (\<lambda>a b. cmp a b \<le> 0) ys1" using assms(3) s(1) by (simp add: sorted_wrt_append)
    qed (use y \<open>set ys1 \<subseteq> A\<close> cmp_refl in auto)
    ultimately have "cmp y (last ys1) \<le> 0" "ys1 \<noteq> []" "y \<in> A" "last ys1 \<in> A" using y last_in_set by blast+
    then show ?thesis using s(4) cmp_trans [of y "last ys1" x] assms(2) by blast
  qed
  ultimately show ?thesis
    using s(2) assms(3) unfolding s(1)
    by (intro exI [of _ "ys1 @ x # ys2"]) (auto simp: sorted_wrt_append)
qed

lemma insert_all_sorted:
  assumes "set ys \<subseteq> A" and "set zs \<subseteq> A" and "sorted_wrt (\<lambda>a b. cmp a b \<le> 0) ys"
  shows "mset (insert_all cmp (length (ys @ zs)) (ys @ zs) (length ys)) = mset (ys @ zs) \<and>
    sorted_wrt (\<lambda>a b. cmp a b \<le> 0) (insert_all cmp (length (ys @ zs)) (ys @ zs) (length ys))"
  using assms
proof (induction zs arbitrary: ys)
  case Nil
  then show ?case by (simp add: insert_all.simps)
next
  case (Cons x zs)
  obtain us where us: "insert_down cmp (ys @ x # zs) (length ys) = us @ zs" "mset us = mset (ys @ [x])"
    "sorted_wrt (\<lambda>a b. cmp a b \<le> 0) us"
    using insert_down_sorted [of ys x zs] Cons.prems by auto
  have l: "length us = Suc (length ys)" using us(2) by (metis add.commute length_append_singleton plus_1_eq_Suc size_mset)
  have "set us = set (ys @ [x])" using us(2) by (metis set_mset_mset)
  then have "set us \<subseteq> A" using Cons.prems by auto
  with Cons.IH [of us] us Cons.prems l show ?case
    by (simp add: insert_all.simps [of cmp _ "ys @ x # zs"])
qed

lemma insertion_sorted:
  assumes "set xs \<subseteq> A"
  shows "mset (insert_all cmp (length xs) xs 1) = mset xs \<and> sorted_wrt (\<lambda>a b. cmp a b \<le> 0) (insert_all cmp (length xs) xs 1)"
proof (cases xs)
  case Nil
  then show ?thesis by (simp add: insert_all.simps)
next
  case (Cons x ys)
  with insert_all_sorted [of "[x]" ys] assms show ?thesis by simp
qed

lemma cmp_through: "x \<in> A \<Longrightarrow> y \<in> A \<Longrightarrow> p \<in> A \<Longrightarrow> cmp x p \<le> 0 \<Longrightarrow> cmp y p \<ge> 0 \<Longrightarrow> cmp x y \<le> 0"
  using cmp_trans [of x p y] cmp_flip [of y p] by blast

lemma part_init_inv:
  assumes "set xs \<subseteq> A" and "length xs = n" and "7 \<le> n"
  shows "part_inv cmp (swap_elems 0 (qsort_pivot cmp xs n) xs) (part_init cmp n xs)"
    and "mset (swap_elems 0 (qsort_pivot cmp xs n) xs) = mset xs"
proof -
  let ?xs = "swap_elems 0 (qsort_pivot cmp xs n) xs"
  show m: "mset ?xs = mset xs" using assms(2,3) qsort_pivot_less [of n cmp xs] by (intro mset_swap_elems) auto
  from m have "?xs ! 0 \<in> A" using assms by (metis length_swap_elems less_le_trans nth_mem set_mset_mset subsetD zero_less_numeral)
  with m show "part_inv cmp ?xs (part_init cmp n xs)"
    using assms cmp_refl by (auto simp: part_inv_def part_init_def)
qed

lemma three_way_sorted:
  assumes "set (L @ E @ G) \<subseteq> A" and "p \<in> A" and "sorted_wrt (\<lambda>a b. cmp a b \<le> 0) L"
    and "\<And>x. x \<in> set L \<Longrightarrow> cmp x p < 0" and "\<And>x. x \<in> set E \<Longrightarrow> cmp x p = 0" and "\<And>x. x \<in> set G \<Longrightarrow> cmp x p > 0"
  shows "sorted_wrt (\<lambda>a b. cmp a b \<le> 0) (L @ E)" and "\<forall>u\<in>set (L @ E). \<forall>v\<in>set G. cmp u v \<le> 0"
proof -
  have t: "cmp x y \<le> 0" if "x \<in> A" "y \<in> A" "cmp x p \<le> 0" "cmp y p \<ge> 0" for x y
    using cmp_through [OF that(1,2) assms(2) that(3,4)] .
  have "cmp x y \<le> 0" if "x \<in> set E" "y \<in> set E" for x y
    by (rule t) (use that assms(1) assms(5) [of x] assms(5) [of y] in auto)
  then have "sorted_wrt (\<lambda>a b. cmp a b \<le> 0) E" by (rule sorted_wrt_all)
  moreover have "cmp x y \<le> 0" if "x \<in> set L" "y \<in> set E" for x y
    by (rule t) (use that assms(1) assms(4) [of x] assms(5) [of y] in auto)
  ultimately show "sorted_wrt (\<lambda>a b. cmp a b \<le> 0) (L @ E)" using assms(3) by (simp add: sorted_wrt_append)
  have "cmp u v \<le> 0" if "u \<in> set (L @ E)" "v \<in> set G" for u v
    by (rule t) (use that assms(1) assms(4) [of u] assms(5) [of u] assms(6) [of v] in auto)
  then show "\<forall>u\<in>set (L @ E). \<forall>v\<in>set G. cmp u v \<le> 0" by blast
qed

lemma qsort_round_sorted:
  assumes "set xs \<subseteq> A" and "length xs = n" and "swaps_blocks f" and "sorts_lists A cmp qsort"
  shows "\<exists>us vs. qsort_round cmp qsort (Some f) n xs = Some (us @ vs, length vs) \<and> mset (us @ vs) = mset xs \<and>
    sorted_wrt (\<lambda>a b. cmp a b \<le> 0) us \<and> (\<forall>u\<in>set us. \<forall>v\<in>set vs. cmp u v \<le> 0)"
proof (cases "n < 7")
  case True
  with insertion_sorted [OF assms(1)] assms(2) show ?thesis
    by (intro exI [of _ "insert_all cmp n xs 1"] exI [of _ "[]"]) (simp add: qsort_round_def)
next
  case False
  define s where "s = part_loop cmp (part_init cmp n xs)"
  have inv: "part_inv cmp (swap_elems 0 (qsort_pivot cmp xs n) xs) s" "part_pb s = part_pc s + 1"
    using part_loop_inv [OF part_init_inv(1) [OF assms(1,2)]] False by (simp_all add: s_def)
  have ms: "mset (part_arr s) = mset xs"
    using inv(1) part_init_inv(2) [OF assms(1,2)] False by (simp add: part_inv_def)
  then have n: "length (part_arr s) = n" and A: "set (part_arr s) \<subseteq> A"
    using assms(1,2) by (metis size_mset, metis set_mset_mset)
  show ?thesis
  proof (cases "swap_cnt s")
    case no_swap: False
    with insertion_sorted [OF A] n ms False show ?thesis
      by (intro exI [of _ "insert_all cmp n (part_arr s) 1"] exI [of _ "[]"])
        (simp add: qsort_round_def s_def [symmetric] Let_def)
  next
    case True
    obtain E1 L G E2 where l: "part_arr s = E1 @ L @ G @ E2" "length E1 = part_pa s" "length L = part_pb s - part_pa s"
      "length G = part_pd s - part_pc s" "length E2 = length (part_arr s) - part_pd s - 1" "E1 \<noteq> []"
      and E: "\<And>x. x \<in> set E1 \<union> set E2 \<Longrightarrow> cmp x (hd E1) = 0" and L: "\<And>x. x \<in> set L \<Longrightarrow> cmp x (hd E1) < 0"
      and G: "\<And>x. x \<in> set G \<Longrightarrow> cmp x (hd E1) > 0"
      by (rule part_inv_lists [OF inv]) (rule that)
    have len: "part_pa s = length E1" "part_pb s = length E1 + length L" "part_pd s - part_pc s = length G"
      "n - Suc (part_pd s) = length E2" "n = length E1 + length L + length G + length E2"
      using l inv(1) n by (auto simp: part_inv_def)
    obtain E1' L' where v1: "vecswap (Some f) 0 (length E1 + length L - min (length E1) (length L))
        (min (length E1) (length L)) (E1 @ L @ G @ E2) = Some (L' @ E1' @ G @ E2)"
      and m1: "mset E1' = mset E1" "mset L' = mset L"
      using vecswap_ends [OF assms(3) refl, where X = E1 and Y = L and A = "[]" and Z = "G @ E2"] by auto
    have len1: "length E1' = length E1" "length L' = length L" using m1 by (metis size_mset)+
    obtain G' E2' where v2: "vecswap (Some f) (length E1 + length L)
        (length E1 + length L + length G + length E2 - min (length G) (length E2))
        (min (length G) (length E2)) (L' @ E1' @ G @ E2) = Some (L' @ E1' @ E2' @ G')"
      and m2: "mset G' = mset G" "mset E2' = mset E2"
      using vecswap_ends [OF assms(3) refl, where X = G and Y = E2 and A = "L' @ E1'" and Z = "[]"] len1 by (auto simp: add.commute [of "length L"])
    have len2: "length G' = length G" using m2 by (metis size_mset)
    define L'' where "L'' = (if length L > 1 then qsort L' else L')"
    have sets: "set E1' = set E1" "set L' = set L" "set G' = set G" "set E2' = set E2"
      using m1 m2 by (metis set_mset_mset)+
    then have "set L' \<subseteq> A" using A l(1) by auto
    then have L'': "mset L'' = mset L'" "sorted_wrt (\<lambda>a b. cmp a b \<le> 0) L''"
      using assms(4) len1(2) by (auto simp: L''_def sorts_lists_def intro: sorted_wrt_short)
    then have sL: "set L'' = set L" using sets(2) by (metis set_mset_mset)
    have "set (L'' @ (E1' @ E2') @ G') \<subseteq> A" and "hd E1 \<in> A" using A l(1,6) by (auto simp: sL sets)
    note t = three_way_sorted [OF this L''(2)]
    have "sorted_wrt (\<lambda>a b. cmp a b \<le> 0) (L'' @ E1' @ E2')" by (rule t) (use E L G in \<open>auto simp: sL sets\<close>)
    moreover have "\<forall>u\<in>set (L'' @ E1' @ E2'). \<forall>v\<in>set G'. cmp u v \<le> 0" by (rule t) (use E L G in \<open>auto simp: sL sets\<close>)
    moreover have "qsort_round cmp qsort (Some f) n xs = Some ((L'' @ E1' @ E2') @ G', length G')"
      using False True v1 v2
      by (simp add: qsort_round_def s_def [symmetric] Let_def l(1) len(1-4) len(5) [symmetric] L''_def len1 len2)
    moreover have "mset ((L'' @ E1' @ E2') @ G') = mset xs"
      unfolding ms [symmetric] l(1) using L''(1) m1 m2 by simp
    ultimately show ?thesis by blast
  qed
qed

lemma qsort_loop_sorted:
  assumes "set xs \<subseteq> A" and "swaps_blocks f" and "sorts_lists A cmp qsort"
  shows "\<exists>ys. qsort_loop cmp qsort (Some f) (length xs) xs = Some ys \<and> mset ys = mset xs \<and>
    sorted_wrt (\<lambda>a b. cmp a b \<le> 0) ys"
  using assms(1)
proof (induction "length xs" arbitrary: xs rule: less_induct)
  case less
  obtain us vs where r: "qsort_round cmp qsort (Some f) (length xs) xs = Some (us @ vs, length vs)"
    "mset (us @ vs) = mset xs" "sorted_wrt (\<lambda>a b. cmp a b \<le> 0) us" "\<forall>u\<in>set us. \<forall>v\<in>set vs. cmp u v \<le> 0"
    using qsort_round_sorted [OF less.prems refl assms(2,3)] by blast
  have n: "length xs = length us + length vs" using r(2) by (metis length_append size_mset)
  have "length xs - length vs = length us" using n by simp
  then have eq: "qsort_loop cmp qsort (Some f) (length xs) xs =
      (if length vs > 1 then map_option (\<lambda>ys. us @ ys) (qsort_loop cmp qsort (Some f) (length vs) vs) else Some (us @ vs))"
    by (subst qsort_loop.simps) (simp add: r(1))
  show ?case
  proof (cases "length vs > 1")
    case True
    have "set vs \<subseteq> A" using r(2) less.prems by (metis Un_subset_iff set_append set_mset_mset)
    then obtain ws where ws: "qsort_loop cmp qsort (Some f) (length vs) vs = Some ws" "mset ws = mset vs"
      "sorted_wrt (\<lambda>a b. cmp a b \<le> 0) ws"
      using less.hyps qsort_round_less [OF r(1) True] by blast
    have "set ws = set vs" using ws(2) by (metis set_mset_mset)
    then show ?thesis
      unfolding eq using r(2-4) ws True by (simp add: sorted_wrt_append)
  next
    case False
    then show ?thesis
      unfolding eq using r(2-4) by (simp add: sorted_wrt_append sorted_wrt_short)
  qed
qed

text \<open>Without a function for blocks, the first round fails as soon as there are smaller elements and an exchange.\<close>

lemma qsort_round_null:
  assumes "set xs \<subseteq> A" and "length xs = n" and "7 \<le> n" and "x \<in> set xs" and "cmp x (xs ! qsort_pivot cmp xs n) < 0"
  shows "qsort_round cmp qsort None n xs =
    (if swap_cnt (part_loop cmp (part_init cmp n xs))
     then None else Some (insert_all cmp n (part_arr (part_loop cmp (part_init cmp n xs))) 1, 0))"
proof -
  define s where "s = part_loop cmp (part_init cmp n xs)"
  have inv: "part_inv cmp (swap_elems 0 (qsort_pivot cmp xs n) xs) s" "part_pb s = part_pc s + 1"
    using part_loop_inv [OF part_init_inv(1) [OF assms(1-3)]] by (simp_all add: s_def)
  have p: "part_arr s ! 0 = xs ! qsort_pivot cmp xs n"
    using inv(1) assms(2,3) qsort_pivot_less [of n cmp xs] by (auto simp: part_inv_def nth_swap_elems)
  have "mset (part_arr s) = mset xs"
    using inv(1) part_init_inv(2) [OF assms(1-3)] by (simp add: part_inv_def)
  then have "x \<in> set (part_arr s)" using assms(4) by (metis set_mset_mset)
  obtain E1 L G E2 where l: "part_arr s = E1 @ L @ G @ E2" "length E1 = part_pa s" "length L = part_pb s - part_pa s"
    "length G = part_pd s - part_pc s" "length E2 = length (part_arr s) - part_pd s - 1" "E1 \<noteq> []"
    and E: "\<And>x. x \<in> set E1 \<union> set E2 \<Longrightarrow> cmp x (hd E1) = 0" and L: "\<And>x. x \<in> set L \<Longrightarrow> cmp x (hd E1) < 0"
    and G: "\<And>x. x \<in> set G \<Longrightarrow> cmp x (hd E1) > 0"
    by (rule part_inv_lists [OF inv]) (rule that)
  have "hd E1 = xs ! qsort_pivot cmp xs n" using p l(1,6) by (simp add: hd_conv_nth nth_append)
  then have "x \<in> set L" using assms(5) E [of x] G [of x] \<open>x \<in> set (part_arr s)\<close> l(1) by auto
  then have "L \<noteq> []" by auto
  then have "min (part_pa s) (part_pb s - part_pa s) > 0" using l(2,3,6) by (cases E1; cases L) auto
  then show ?thesis
    using assms(3) by (simp add: qsort_round_def s_def [symmetric] Let_def vecswap_def)
qed

lemma qsort_loop_null:
  assumes "set xs \<subseteq> A" and "length xs = n" and "7 \<le> n" and "x \<in> set xs" and "cmp x (xs ! qsort_pivot cmp xs n) < 0"
  shows "if swap_cnt (part_loop cmp (part_init cmp n xs)) then qsort_loop cmp qsort None n xs = None
    else \<exists>ys. qsort_loop cmp qsort None n xs = Some ys \<and> mset ys = mset xs \<and> sorted_wrt (\<lambda>a b. cmp a b \<le> 0) ys"
proof -
  define zs where "zs = part_arr (part_loop cmp (part_init cmp n xs))"
  have "mset zs = mset xs"
    using part_loop_inv [OF part_init_inv(1) [OF assms(1-3)]] part_init_inv(2) [OF assms(1-3)]
    by (simp add: part_inv_def zs_def)
  then have "length zs = n" "set zs \<subseteq> A" using assms(1,2) by (metis size_mset, metis set_mset_mset)
  with insertion_sorted [of zs] qsort_round_null [OF assms, of qsort] \<open>mset zs = mset xs\<close> show ?thesis
    by (simp add: qsort_loop.simps [of cmp qsort None n xs] zs_def)
qed

end

section \<open>The properties of the sort\<close>

text \<open>
  C6. With a function that exchanges blocks and a \<^verbatim>\<open>qsort\<close> that sorts, every array is sorted, if the comparison
  is a total preorder on its elements: the result is a permutation of the array in which no element is
  before a smaller one.
\<close>

theorem linux_sort_correct:
  assumes "\<forall>x\<in>set xs. \<forall>y\<in>set xs. sgn (cmp y x) = - sgn (cmp x y)"
    and "\<forall>x\<in>set xs. \<forall>y\<in>set xs. \<forall>z\<in>set xs. cmp x y \<le> 0 \<longrightarrow> cmp y z \<le> 0 \<longrightarrow> cmp x z \<le> 0"
    and "swaps_blocks f" and "sorts_lists (set xs) cmp qsort"
  shows "\<exists>ys. linux_sort cmp qsort (Some f) xs = Some ys \<and> mset ys = mset xs \<and> sorted_wrt (\<lambda>a b. cmp a b \<le> 0) ys"
proof -
  have "comparison (set xs) cmp" using assms(1,2) by unfold_locales blast+
  from comparison.qsort_loop_sorted [OF this subset_refl assms(3,4)] show ?thesis by (simp add: linux_sort_def)
qed

text \<open>A function that exchanges blocks, and the order of the integers.\<close>

definition swap_lists :: "nat \<Rightarrow> nat \<Rightarrow> nat \<Rightarrow> 'a list \<Rightarrow> 'a list" where
  "swap_lists i j n xs = take i xs @ take n (drop j xs) @ take (j - (i + n)) (drop (i + n) xs) @ take n (drop i xs) @ drop (j + n) xs"

lemma swap_lists_swaps: "swaps_blocks swap_lists"
  by (simp add: swaps_blocks_def swap_lists_def)

definition int_cmp :: "int \<Rightarrow> int \<Rightarrow> int" where
  "int_cmp x y = x - y"

lemma int_sort_sorts: "sorts_lists X int_cmp sort"
  by (simp add: sorts_lists_def int_cmp_def)

interpretation int_order: comparison UNIV int_cmp
  by unfold_locales (auto simp: int_cmp_def sgn_if)

theorem linux_sort_correct_witness:
  "\<exists>ys. linux_sort int_cmp sort (Some swap_lists) [3, 1, 4, 1, 5, 9, 2, 6, 5] = Some ys \<and>
     mset ys = mset [3, 1, 4, 1, 5, 9, 2, 6, 5] \<and> sorted_wrt (\<lambda>a b. int_cmp a b \<le> 0) ys"
  by (rule linux_sort_correct) (auto simp: int_cmp_def sgn_if swap_lists_swaps int_sort_sorts)

text \<open>
  C24. Callers may pass a null pointer for the function that exchanges blocks. Arrays with less than seven
  elements are sorted all the same. In a longer array the null pointer is called in the first round,
  whenever the pivot is not the smallest element and the partition exchanges anything; if it does not
  exchange anything the array is sorted by insertion.
\<close>

theorem linux_sort_null_swap:
  assumes "\<forall>x\<in>set xs. \<forall>y\<in>set xs. sgn (cmp y x) = - sgn (cmp x y)"
    and "\<forall>x\<in>set xs. \<forall>y\<in>set xs. \<forall>z\<in>set xs. cmp x y \<le> 0 \<longrightarrow> cmp y z \<le> 0 \<longrightarrow> cmp x z \<le> 0"
  shows "(length xs < 7 \<longrightarrow> (\<exists>ys. linux_sort cmp qsort None xs = Some ys \<and> mset ys = mset xs \<and>
      sorted_wrt (\<lambda>a b. cmp a b \<le> 0) ys)) \<and>
    (7 \<le> length xs \<and> (\<exists>x\<in>set xs. cmp x (xs ! qsort_pivot cmp xs (length xs)) < 0) \<longrightarrow>
      (if swap_cnt (part_loop cmp (part_init cmp (length xs) xs)) then linux_sort cmp qsort None xs = None
       else \<exists>ys. linux_sort cmp qsort None xs = Some ys \<and> mset ys = mset xs \<and> sorted_wrt (\<lambda>a b. cmp a b \<le> 0) ys))"
proof -
  have c: "comparison (set xs) cmp" using assms by unfold_locales blast+
  have "\<exists>ys. linux_sort cmp qsort None xs = Some ys \<and> mset ys = mset xs \<and> sorted_wrt (\<lambda>a b. cmp a b \<le> 0) ys"
    if "length xs < 7"
    using that comparison.insertion_sorted [OF c subset_refl]
    by (simp add: linux_sort_def qsort_loop.simps [of cmp qsort None "length xs" xs] qsort_round_def)
  then show ?thesis
    using comparison.qsort_loop_null [OF c subset_refl refl, of _ qsort] unfolding linux_sort_def by blast
qed

text \<open>Seven numbers in descending order, and six of them.\<close>

theorem linux_sort_null_swap_witness:
  "linux_sort int_cmp sort None [7, 6, 5, 4, 3, 2, 1] = None \<and>
   (\<exists>ys. linux_sort int_cmp sort None [6, 5, 4, 3, 2, 1] = Some ys \<and> mset ys = mset [6, 5, 4, 3, 2, 1] \<and>
      sorted_wrt (\<lambda>a b. int_cmp a b \<le> 0) ys)"
proof -
  have o: "\<forall>x\<in>X. \<forall>y\<in>X. sgn (int_cmp y x) = - sgn (int_cmp x y)"
    "\<forall>x\<in>X. \<forall>y\<in>X. \<forall>z\<in>X. int_cmp x y \<le> 0 \<longrightarrow> int_cmp y z \<le> 0 \<longrightarrow> int_cmp x z \<le> 0" for X
    by (auto simp: int_cmp_def sgn_if)
  let ?xs = "[7, 6, 5, 4, 3, 2, 1] :: int list" and ?ys = "[6, 5, 4, 3, 2, 1] :: int list"
  have n: "length ?xs = 7" and p: "qsort_pivot int_cmp ?xs 7 = 3" by (simp_all add: qsort_pivot_def)
  have ex: "7 \<le> length ?xs \<and> (\<exists>x\<in>set ?xs. int_cmp x (?xs ! qsort_pivot int_cmp ?xs (length ?xs)) < 0)"
    unfolding n p by (simp add: int_cmp_def)
  have sw: "swap_cnt (part_loop int_cmp (part_init int_cmp (length ?xs) ?xs))" by code_simp
  from linux_sort_null_swap [OF o, of ?xs sort, THEN conjunct2, rule_format, OF ex] sw
  have "linux_sort int_cmp sort None ?xs = None" by (simp only: if_True)
  moreover have "length ?ys < 7" by simp
  with linux_sort_null_swap [OF o, of ?ys sort, THEN conjunct1]
  have "\<exists>ys. linux_sort int_cmp sort None ?ys = Some ys \<and> mset ys = mset ?ys \<and> sorted_wrt (\<lambda>a b. int_cmp a b \<le> 0) ys"
    by (rule mp)
  ultimately show ?thesis by blast
qed

end
