(* ===== verification/Atomic.thy ===== *)
theory Atomic
  imports Fourcc Rect Sort
begin

text \<open>
  Atomic updates of the display configuration: the state of an update with its CRTCs, planes and
  connectors (\<^verbatim>\<open>drm_atomic.c\<close>), the checks of the core, the helper that clips a plane
  (\<^verbatim>\<open>drm_atomic_helper.c\<close>), and the normalisation of plane positions (\<^verbatim>\<open>drm_blend.c\<close>). CRTCs, planes and
  connectors are numbered as in the code. The records have the fields that these functions use.
  The outcomes of locking and of allocations are parameters. Functions return an error and the state
  of the update, which they may have changed before an error; following a null pointer is \<open>None\<close>.
  Reference counts are left out. Masks have 32 bits, and a shift by an index of 32 or more, which C leaves
  undefined, gives an empty mask here.
\<close>

unbundle bit_operations_syntax

section \<open>States\<close>

record drm_crtc_state =
  cs_enable :: bool
  cs_active :: bool
  cs_planes_changed :: bool
  cs_mode_changed :: bool
  cs_active_changed :: bool
  cs_connectors_changed :: bool
  cs_zpos_changed :: bool
  cs_color_mgmt_changed :: bool
  cs_plane_mask :: u32
  cs_connector_mask :: u32
  cs_mode_blob :: bool
  cs_event :: bool

record drm_plane_state =
  pl_crtc :: "nat option"
  pl_fb :: "drm_framebuffer option"
  pl_crtc_x :: s32
  pl_crtc_y :: s32
  pl_crtc_w :: u32
  pl_crtc_h :: u32
  pl_src_x :: u32
  pl_src_y :: u32
  pl_src_w :: u32
  pl_src_h :: u32
  pl_rotation :: u32
  pl_zpos :: u32
  pl_normalized_zpos :: u32
  pl_src :: drm_rect
  pl_dst :: drm_rect
  pl_visible :: bool

record drm_connector_state =
  co_crtc :: "nat option"

text \<open>
  The device: the objects and their current states. CRTCs, planes and connectors are named by their index.
  \<open>connector_list\<close> has the connectors that are registered; their indices need not be below their number.
\<close>

record drm_atomic_device =
  num_crtc :: nat
  num_total_plane :: nat
  num_connector :: nat
  connector_list :: "nat list"
  crtc_current :: "nat \<Rightarrow> drm_crtc_state"
  plane_current :: "nat \<Rightarrow> drm_plane_state"
  connector_current :: "nat \<Rightarrow> drm_connector_state"
  plane_base_id :: "nat \<Rightarrow> u32"
  possible_crtcs :: "nat \<Rightarrow> u32"
  format_types :: "nat \<Rightarrow> u32 list"

text \<open>
  An update has new states for some of the objects. The old states are the current ones of the device,
  which cannot change while the objects are locked.
\<close>

record drm_atomic_state =
  as_crtcs :: "nat \<Rightarrow> drm_crtc_state option"
  as_planes :: "nat \<Rightarrow> drm_plane_state option"
  as_connectors :: "nat \<Rightarrow> drm_connector_state option"
  as_num_connector :: nat
  allow_modeset :: bool

text \<open>
  The outcomes of \<^verbatim>\<open>drm_modeset_lock\<close> and of the allocation of a duplicate for each object, of the growth of
  the array of connectors, and of the allocation of the array of planes of a CRTC.
\<close>

datatype mode_object = Crtc_Object nat | Plane_Object nat | Connector_Object nat | Connection_Mutex

record atomic_env =
  env_lock :: "mode_object \<Rightarrow> errno option"
  env_duplicate :: "mode_object \<Rightarrow> bool"
  env_krealloc :: bool
  env_kmalloc :: "nat \<Rightarrow> bool"

section \<open>Getting the states of an update\<close>

definition drm_atomic_state_init :: drm_atomic_state where
  "drm_atomic_state_init =
     \<lparr>as_crtcs = \<lambda>crtc. None, as_planes = \<lambda>plane. None, as_connectors = \<lambda>connector. None, as_num_connector = 0,
      allow_modeset = True\<rparr>"

definition drm_atomic_state_default_clear :: "drm_atomic_device \<Rightarrow> drm_atomic_state \<Rightarrow> drm_atomic_state" where
  "drm_atomic_state_default_clear dev state =
     state\<lparr>as_connectors := \<lambda>i. if i < as_num_connector state then None else as_connectors state i,
       as_crtcs := \<lambda>i. if i < num_crtc dev then None else as_crtcs state i,
       as_planes := \<lambda>i. if i < num_total_plane dev then None else as_planes state i\<rparr>"

definition drm_atomic_helper_crtc_duplicate_state :: "drm_crtc_state \<Rightarrow> drm_crtc_state" where
  "drm_atomic_helper_crtc_duplicate_state state =
     state\<lparr>cs_mode_changed := False, cs_active_changed := False, cs_planes_changed := False,
       cs_connectors_changed := False, cs_color_mgmt_changed := False, cs_zpos_changed := False, cs_event := False\<rparr>"

definition drm_atomic_helper_plane_duplicate_state :: "drm_plane_state \<Rightarrow> drm_plane_state" where
  "drm_atomic_helper_plane_duplicate_state state = state"

definition drm_atomic_helper_connector_duplicate_state :: "drm_connector_state \<Rightarrow> drm_connector_state" where
  "drm_atomic_helper_connector_duplicate_state state = state"

definition drm_atomic_get_crtc_state ::
  "atomic_env \<Rightarrow> drm_atomic_device \<Rightarrow> drm_atomic_state \<Rightarrow> nat \<Rightarrow> errno option \<times> drm_atomic_state" where
  "drm_atomic_get_crtc_state env dev state crtc =
     (case as_crtcs state crtc of
        Some crtc_state \<Rightarrow> (None, state)
      | None \<Rightarrow>
          (case env_lock env (Crtc_Object crtc) of
             Some ret \<Rightarrow> (Some ret, state)
           | None \<Rightarrow>
               if \<not> env_duplicate env (Crtc_Object crtc) then (Some ENOMEM, state)
               else (None, state\<lparr>as_crtcs := (as_crtcs state)
                       (crtc \<mapsto> drm_atomic_helper_crtc_duplicate_state (crtc_current dev crtc))\<rparr>)))"

definition drm_atomic_get_plane_state ::
  "atomic_env \<Rightarrow> drm_atomic_device \<Rightarrow> drm_atomic_state \<Rightarrow> nat \<Rightarrow> errno option \<times> drm_atomic_state" where
  "drm_atomic_get_plane_state env dev state plane =
     (case as_planes state plane of
        Some plane_state \<Rightarrow> (None, state)
      | None \<Rightarrow>
          (case env_lock env (Plane_Object plane) of
             Some ret \<Rightarrow> (Some ret, state)
           | None \<Rightarrow>
               if \<not> env_duplicate env (Plane_Object plane) then (Some ENOMEM, state)
               else let plane_state = drm_atomic_helper_plane_duplicate_state (plane_current dev plane);
                        state = state\<lparr>as_planes := (as_planes state)(plane \<mapsto> plane_state)\<rparr>
                    in case pl_crtc plane_state of
                         None \<Rightarrow> (None, state)
                       | Some crtc \<Rightarrow> drm_atomic_get_crtc_state env dev state crtc))"

definition drm_atomic_get_connector_state ::
  "atomic_env \<Rightarrow> drm_atomic_device \<Rightarrow> drm_atomic_state \<Rightarrow> nat \<Rightarrow> errno option \<times> drm_atomic_state" where
  "drm_atomic_get_connector_state env dev state connector =
     (case env_lock env Connection_Mutex of
        Some ret \<Rightarrow> (Some ret, state)
      | None \<Rightarrow>
          if connector \<ge> as_num_connector state \<and> \<not> env_krealloc env then (Some ENOMEM, state)
          else let state = (if connector \<ge> as_num_connector state
                            then state\<lparr>as_num_connector := max (connector + 1) (num_connector dev)\<rparr> else state)
          in case as_connectors state connector of
               Some connector_state \<Rightarrow> (None, state)
             | None \<Rightarrow>
                 if \<not> env_duplicate env (Connector_Object connector) then (Some ENOMEM, state)
                 else let connector_state = drm_atomic_helper_connector_duplicate_state (connector_current dev connector);
                          state = state\<lparr>as_connectors := (as_connectors state)(connector \<mapsto> connector_state)\<rparr>
                      in case co_crtc connector_state of
                           None \<Rightarrow> (None, state)
                         | Some crtc \<Rightarrow> drm_atomic_get_crtc_state env dev state crtc)"

section \<open>Linking planes and connectors to CRTCs\<close>

definition crtc_update :: "nat \<Rightarrow> (drm_crtc_state \<Rightarrow> drm_crtc_state) \<Rightarrow> drm_atomic_state \<Rightarrow> drm_atomic_state" where
  "crtc_update crtc f state = state\<lparr>as_crtcs := (as_crtcs state)(crtc := map_option f (as_crtcs state crtc))\<rparr>"

text \<open>The caller has the state of the plane; without one there is nothing to link.\<close>

definition drm_atomic_set_crtc_for_plane ::
  "atomic_env \<Rightarrow> drm_atomic_device \<Rightarrow> drm_atomic_state \<Rightarrow> nat \<Rightarrow> nat option \<Rightarrow> (errno option \<times> drm_atomic_state) option" where
  "drm_atomic_set_crtc_for_plane env dev state plane crtc =
     (case as_planes state plane of
        None \<Rightarrow> None
      | Some plane_state \<Rightarrow>
          let (ret, state) =
            (case pl_crtc plane_state of
               None \<Rightarrow> (None, state)
             | Some old \<Rightarrow>
                 (case drm_atomic_get_crtc_state env dev state old of
                    (Some ret, state) \<Rightarrow> (Some ret, state)
                  | (None, state) \<Rightarrow>
                      (None, crtc_update old (\<lambda>cs. cs\<lparr>cs_plane_mask := cs_plane_mask cs AND NOT (push_bit plane 1)\<rparr>) state)))
          in if ret \<noteq> None then Some (ret, state)
             else let state = state\<lparr>as_planes := (as_planes state)(plane \<mapsto> plane_state\<lparr>pl_crtc := crtc\<rparr>)\<rparr>
             in case crtc of
                  None \<Rightarrow> Some (None, state)
                | Some new \<Rightarrow>
                    (case drm_atomic_get_crtc_state env dev state new of
                       (Some ret, state) \<Rightarrow> Some (Some ret, state)
                     | (None, state) \<Rightarrow>
                         Some (None, crtc_update new (\<lambda>cs. cs\<lparr>cs_plane_mask := cs_plane_mask cs OR push_bit plane 1\<rparr>) state)))"

definition drm_atomic_set_fb_for_plane :: "drm_atomic_state \<Rightarrow> nat \<Rightarrow> drm_framebuffer option \<Rightarrow> drm_atomic_state option" where
  "drm_atomic_set_fb_for_plane state plane fb =
     (case as_planes state plane of
        None \<Rightarrow> None
      | Some plane_state \<Rightarrow> Some (state\<lparr>as_planes := (as_planes state)(plane \<mapsto> plane_state\<lparr>pl_fb := fb\<rparr>)\<rparr>))"

text \<open>The state of the old CRTC of a connector is not created, and not tested either.\<close>

definition drm_atomic_set_crtc_for_connector ::
  "atomic_env \<Rightarrow> drm_atomic_device \<Rightarrow> drm_atomic_state \<Rightarrow> nat \<Rightarrow> nat option \<Rightarrow> (errno option \<times> drm_atomic_state) option" where
  "drm_atomic_set_crtc_for_connector env dev state connector crtc =
     do { conn_state \<leftarrow> as_connectors state connector;
          if co_crtc conn_state = crtc then Some (None, state)
          else do {
            state \<leftarrow>
              (case co_crtc conn_state of
                 None \<Rightarrow> Some state
               | Some old \<Rightarrow>
                   do { crtc_state \<leftarrow> as_crtcs state old;
                        let state = crtc_update old
                          (\<lambda>cs. cs\<lparr>cs_connector_mask := cs_connector_mask cs AND NOT (push_bit connector 1)\<rparr>) state;
                        Some (state\<lparr>as_connectors := (as_connectors state)(connector \<mapsto> conn_state\<lparr>co_crtc := None\<rparr>)\<rparr>) });
            case crtc of
              None \<Rightarrow> Some (None, state)
            | Some new \<Rightarrow>
                (case drm_atomic_get_crtc_state env dev state new of
                   (Some ret, state) \<Rightarrow> Some (Some ret, state)
                 | (None, state) \<Rightarrow>
                     let state = crtc_update new
                           (\<lambda>cs. cs\<lparr>cs_connector_mask := cs_connector_mask cs OR push_bit connector 1\<rparr>) state
                     in Some (None, state\<lparr>as_connectors := (as_connectors state)(connector \<mapsto> conn_state\<lparr>co_crtc := crtc\<rparr>)\<rparr>)) } }"

section \<open>Affected planes and connectors\<close>

definition mask_indices :: "nat \<Rightarrow> u32 \<Rightarrow> nat list" where
  "mask_indices n bits = filter (\<lambda>i. bits AND push_bit i 1 \<noteq> 0) [0..<n]"

text \<open>Loops that get one state after the other and stop at the first error.\<close>

fun get_plane_states ::
  "atomic_env \<Rightarrow> drm_atomic_device \<Rightarrow> nat list \<Rightarrow> drm_atomic_state \<Rightarrow> errno option \<times> drm_atomic_state" where
  "get_plane_states env dev [] state = (None, state)"
| "get_plane_states env dev (plane # planes) state =
     (case drm_atomic_get_plane_state env dev state plane of
        (Some ret, state) \<Rightarrow> (Some ret, state)
      | (None, state) \<Rightarrow> get_plane_states env dev planes state)"

fun get_connector_states ::
  "atomic_env \<Rightarrow> drm_atomic_device \<Rightarrow> nat list \<Rightarrow> drm_atomic_state \<Rightarrow> errno option \<times> drm_atomic_state" where
  "get_connector_states env dev [] state = (None, state)"
| "get_connector_states env dev (connector # connectors) state =
     (case drm_atomic_get_connector_state env dev state connector of
        (Some ret, state) \<Rightarrow> (Some ret, state)
      | (None, state) \<Rightarrow> get_connector_states env dev connectors state)"

definition drm_atomic_add_affected_planes ::
  "atomic_env \<Rightarrow> drm_atomic_device \<Rightarrow> drm_atomic_state \<Rightarrow> nat \<Rightarrow> errno option \<times> drm_atomic_state" where
  "drm_atomic_add_affected_planes env dev state crtc =
     get_plane_states env dev (mask_indices (num_total_plane dev) (cs_plane_mask (crtc_current dev crtc))) state"

definition drm_atomic_add_affected_connectors ::
  "atomic_env \<Rightarrow> drm_atomic_device \<Rightarrow> drm_atomic_state \<Rightarrow> nat \<Rightarrow> errno option \<times> drm_atomic_state" where
  "drm_atomic_add_affected_connectors env dev state crtc =
     (case drm_atomic_get_crtc_state env dev state crtc of
        (Some ret, state) \<Rightarrow> (Some ret, state)
      | (None, state) \<Rightarrow>
          (case env_lock env Connection_Mutex of
             Some ret \<Rightarrow> (Some ret, state)
           | None \<Rightarrow>
               get_connector_states env dev
                 (filter (\<lambda>i. cs_connector_mask (the (as_crtcs state crtc)) AND push_bit i 1 \<noteq> 0) (connector_list dev)) state))"

section \<open>Checks\<close>

definition plane_switching_crtc :: "drm_atomic_device \<Rightarrow> nat \<Rightarrow> drm_plane_state \<Rightarrow> bool" where
  "plane_switching_crtc dev plane plane_state \<longleftrightarrow>
     \<not> (pl_crtc (plane_current dev plane) = None \<or> pl_crtc plane_state = None) \<and>
     pl_crtc (plane_current dev plane) \<noteq> pl_crtc plane_state"

definition drm_plane_check_pixel_format :: "drm_atomic_device \<Rightarrow> nat \<Rightarrow> u32 \<Rightarrow> errno option" where
  "drm_plane_check_pixel_format dev plane format =
     (if format \<in> set (format_types dev plane) then None else Some EINVAL)"

definition INT_MAX :: s32 where "INT_MAX = 0x7fffffff"

definition drm_atomic_plane_check :: "drm_atomic_device \<Rightarrow> nat \<Rightarrow> drm_plane_state \<Rightarrow> errno option" where
  "drm_atomic_plane_check dev plane state =
     (case (pl_crtc state, pl_fb state) of
        (Some crtc, None) \<Rightarrow> Some EINVAL
      | (None, Some fb) \<Rightarrow> Some EINVAL
      | (None, None) \<Rightarrow> None
      | (Some crtc, Some fb) \<Rightarrow>
          if possible_crtcs dev plane AND push_bit crtc 1 = 0 then Some EINVAL
          else case drm_plane_check_pixel_format dev plane (fi_format (fb_format fb)) of
            Some ret \<Rightarrow> Some ret
          | None \<Rightarrow>
              if pl_crtc_w state > INT_MAX \<or> sint (pl_crtc_x state) > sint (INT_MAX - pl_crtc_w state) \<or>
                 pl_crtc_h state > INT_MAX \<or> sint (pl_crtc_y state) > sint (INT_MAX - pl_crtc_h state)
              then Some ERANGE
              else let w = push_bit 16 (fb_width fb); h = push_bit 16 (fb_height fb)
                   in if pl_src_w state > w \<or> pl_src_x state > w - pl_src_w state \<or>
                         pl_src_h state > h \<or> pl_src_y state > h - pl_src_h state
                      then Some ENOSPC
                      else if plane_switching_crtc dev plane state then Some EINVAL
                      else None)"

text \<open>\<open>atomic\<close> is the feature flag of the driver.\<close>

definition drm_atomic_crtc_check :: "bool \<Rightarrow> drm_atomic_device \<Rightarrow> nat \<Rightarrow> drm_crtc_state \<Rightarrow> errno option" where
  "drm_atomic_crtc_check atomic dev crtc state =
     (if cs_active state \<and> \<not> cs_enable state then Some EINVAL
      else if atomic \<and> cs_enable state \<and> \<not> cs_mode_blob state then Some EINVAL
      else if atomic \<and> \<not> cs_enable state \<and> cs_mode_blob state then Some EINVAL
      else if cs_event state \<and> \<not> cs_active state \<and> \<not> cs_active (crtc_current dev crtc) then Some EINVAL
      else None)"

definition drm_atomic_crtc_needs_modeset :: "drm_crtc_state \<Rightarrow> bool" where
  "drm_atomic_crtc_needs_modeset state \<longleftrightarrow> cs_mode_changed state \<or> cs_active_changed state \<or> cs_connectors_changed state"

text \<open>The first error of a check over all objects of the update.\<close>

fun first_failure :: "(nat \<Rightarrow> 'a \<Rightarrow> errno option) \<Rightarrow> (nat \<Rightarrow> 'a option) \<Rightarrow> nat list \<Rightarrow> errno option" where
  "first_failure check states [] = None"
| "first_failure check states (i # is) =
     (case states i of
        None \<Rightarrow> first_failure check states is
      | Some state \<Rightarrow> (case check i state of Some ret \<Rightarrow> Some ret | None \<Rightarrow> first_failure check states is))"

text \<open>\<open>atomic_check\<close> is the hook of the driver, which may change the update.\<close>

definition drm_atomic_check_only ::
  "bool \<Rightarrow> drm_atomic_device \<Rightarrow> (drm_atomic_state \<Rightarrow> errno option \<times> drm_atomic_state) option \<Rightarrow> drm_atomic_state \<Rightarrow>
   errno option \<times> drm_atomic_state" where
  "drm_atomic_check_only atomic dev atomic_check state =
     (case first_failure (drm_atomic_plane_check dev) (as_planes state) [0..<num_total_plane dev] of
        Some ret \<Rightarrow> (Some ret, state)
      | None \<Rightarrow>
          (case first_failure (drm_atomic_crtc_check atomic dev) (as_crtcs state) [0..<num_crtc dev] of
             Some ret \<Rightarrow> (Some ret, state)
           | None \<Rightarrow>
               (case (case atomic_check of None \<Rightarrow> (None, state) | Some check \<Rightarrow> check state) of
                  (Some ret, state) \<Rightarrow> (Some ret, state)
                | (None, state) \<Rightarrow>
                    if \<not> allow_modeset state
                    then (first_failure (\<lambda>i cs. if drm_atomic_crtc_needs_modeset cs then Some EINVAL else None)
                            (as_crtcs state) [0..<num_crtc dev], state)
                    else (None, state))))"

section \<open>Clipping a plane\<close>

definition drm_plane_state_src :: "drm_plane_state \<Rightarrow> drm_rect" where
  "drm_plane_state_src state =
     \<lparr>rect_x1 = pl_src_x state, rect_y1 = pl_src_y state,
      rect_x2 = pl_src_x state + pl_src_w state, rect_y2 = pl_src_y state + pl_src_h state\<rparr>"

definition drm_plane_state_dest :: "drm_plane_state \<Rightarrow> drm_rect" where
  "drm_plane_state_dest state =
     \<lparr>rect_x1 = pl_crtc_x state, rect_y1 = pl_crtc_y state,
      rect_x2 = pl_crtc_x state + pl_crtc_w state, rect_y2 = pl_crtc_y state + pl_crtc_h state\<rparr>"

definition drm_atomic_helper_check_plane_state ::
  "drm_plane_state \<Rightarrow> drm_crtc_state \<Rightarrow> drm_rect \<Rightarrow> s32 \<Rightarrow> s32 \<Rightarrow> bool \<Rightarrow> bool \<Rightarrow> errno option \<times> drm_plane_state" where
  "drm_atomic_helper_check_plane_state plane_state crtc_state clip min_scale max_scale can_position can_update_disabled =
     (let plane_state = plane_state\<lparr>pl_src := drm_plane_state_src plane_state, pl_dst := drm_plane_state_dest plane_state\<rparr>
      in case pl_fb plane_state of
        None \<Rightarrow> (None, plane_state\<lparr>pl_visible := False\<rparr>)
      | Some fb \<Rightarrow>
          if pl_crtc plane_state = None then (None, plane_state\<lparr>pl_visible := False\<rparr>)
          else if \<not> cs_enable crtc_state \<and> \<not> can_update_disabled then (Some EINVAL, plane_state)
          else
            let w = push_bit 16 (fb_width fb); h = push_bit 16 (fb_height fb);
                src = drm_rect_rotate w h (pl_rotation plane_state) (pl_src plane_state);
                dst = pl_dst plane_state
            in case (drm_rect_calc_hscale src dst min_scale max_scale, drm_rect_calc_vscale src dst min_scale max_scale) of
                 (Inr hscale, Inr vscale) \<Rightarrow>
                   let (visible, src, dst) = drm_rect_clip_scaled src dst clip hscale vscale;
                       plane_state = plane_state\<lparr>pl_visible := visible,
                         pl_src := drm_rect_rotate_inv w h (pl_rotation plane_state) src, pl_dst := dst\<rparr>
                   in if visible \<and> \<not> can_position \<and> \<not> drm_rect_equals dst clip then (Some EINVAL, plane_state)
                      else (None, plane_state)
               | _ \<Rightarrow> (Some ERANGE, plane_state\<lparr>pl_src := src\<rparr>))"

section \<open>Positions of planes\<close>

definition drm_atomic_state_zpos_cmp :: "drm_atomic_device \<Rightarrow> (nat \<Rightarrow> drm_plane_state option) \<Rightarrow> nat \<Rightarrow> nat \<Rightarrow> int" where
  "drm_atomic_state_zpos_cmp dev states a b =
     (let sa = the (states a); sb = the (states b)
      in if pl_zpos sa \<noteq> pl_zpos sb then sint (pl_zpos sa - pl_zpos sb)
         else sint (plane_base_id dev a - plane_base_id dev b))"

fun zpos_assign :: "nat \<Rightarrow> nat list \<Rightarrow> drm_atomic_state \<Rightarrow> drm_atomic_state" where
  "zpos_assign i [] state = state"
| "zpos_assign i (plane # planes) state =
     zpos_assign (i + 1) planes
       (state\<lparr>as_planes := (as_planes state)
          (plane := map_option (\<lambda>ps. ps\<lparr>pl_normalized_zpos := of_nat i\<rparr>) (as_planes state plane))\<rparr>)"

text \<open>The sorting function of the kernel that \<open>linux_sort\<close> calls is the parameter \<open>qsort\<close>.\<close>

definition drm_atomic_helper_crtc_normalize_zpos ::
  "((nat \<Rightarrow> nat \<Rightarrow> int) \<Rightarrow> nat list \<Rightarrow> nat list) \<Rightarrow> atomic_env \<Rightarrow> drm_atomic_device \<Rightarrow> drm_atomic_state \<Rightarrow> nat \<Rightarrow>
   (errno option \<times> drm_atomic_state) option" where
  "drm_atomic_helper_crtc_normalize_zpos qsort env dev state crtc =
     do { crtc_state \<leftarrow> as_crtcs state crtc;
          if \<not> env_kmalloc env crtc then Some (Some ENOMEM, state)
          else
            let states = mask_indices (num_total_plane dev) (cs_plane_mask crtc_state)
            in case get_plane_states env dev states state of
                 (Some ret, state) \<Rightarrow> Some (Some ret, state)
               | (None, state) \<Rightarrow>
                   do { let cmp = drm_atomic_state_zpos_cmp dev (as_planes state);
                        states \<leftarrow> linux_sort cmp (qsort cmp) None states;
                        let state = zpos_assign 0 states state;
                        Some (None, crtc_update crtc (\<lambda>cs. cs\<lparr>cs_zpos_changed := True\<rparr>) state) } }"

text \<open>The two loops of the normalisation.\<close>

fun zpos_mark_crtcs :: "drm_atomic_device \<Rightarrow> nat list \<Rightarrow> drm_atomic_state \<Rightarrow> drm_atomic_state option" where
  "zpos_mark_crtcs dev [] state = Some state"
| "zpos_mark_crtcs dev (plane # planes) state =
     (case as_planes state plane of
        None \<Rightarrow> zpos_mark_crtcs dev planes state
      | Some new \<Rightarrow>
          (case pl_crtc new of
             None \<Rightarrow> zpos_mark_crtcs dev planes state
           | Some crtc \<Rightarrow>
               if pl_zpos (plane_current dev plane) \<noteq> pl_zpos new
               then do { crtc_state \<leftarrow> as_crtcs state crtc;
                         zpos_mark_crtcs dev planes (crtc_update crtc (\<lambda>cs. cs\<lparr>cs_zpos_changed := True\<rparr>) state) }
               else zpos_mark_crtcs dev planes state))"

fun zpos_normalize_crtcs ::
  "((nat \<Rightarrow> nat \<Rightarrow> int) \<Rightarrow> nat list \<Rightarrow> nat list) \<Rightarrow> atomic_env \<Rightarrow> drm_atomic_device \<Rightarrow> nat list \<Rightarrow> drm_atomic_state \<Rightarrow>
   (errno option \<times> drm_atomic_state) option" where
  "zpos_normalize_crtcs qsort env dev [] state = Some (None, state)"
| "zpos_normalize_crtcs qsort env dev (crtc # crtcs) state =
     (case as_crtcs state crtc of
        None \<Rightarrow> zpos_normalize_crtcs qsort env dev crtcs state
      | Some new \<Rightarrow>
          if cs_plane_mask (crtc_current dev crtc) \<noteq> cs_plane_mask new \<or> cs_zpos_changed new
          then do { (ret, state) \<leftarrow> drm_atomic_helper_crtc_normalize_zpos qsort env dev state crtc;
                    if ret \<noteq> None then Some (ret, state) else zpos_normalize_crtcs qsort env dev crtcs state }
          else zpos_normalize_crtcs qsort env dev crtcs state)"

definition drm_atomic_normalize_zpos ::
  "((nat \<Rightarrow> nat \<Rightarrow> int) \<Rightarrow> nat list \<Rightarrow> nat list) \<Rightarrow> atomic_env \<Rightarrow> drm_atomic_device \<Rightarrow> drm_atomic_state \<Rightarrow>
   (errno option \<times> drm_atomic_state) option" where
  "drm_atomic_normalize_zpos qsort env dev state =
     do { state \<leftarrow> zpos_mark_crtcs dev [0..<num_total_plane dev] state;
          zpos_normalize_crtcs qsort env dev [0..<num_crtc dev] state }"

section \<open>Commit\<close>

text \<open>
  The states of the update become the current ones. With \<open>stall\<close> the commits that last used the objects of the
  update have to be done; \<open>wait\<close> is the outcome of the wait for each object.
\<close>

definition drm_atomic_helper_swap_state ::
  "(mode_object \<Rightarrow> errno option) \<Rightarrow> drm_atomic_device \<Rightarrow> drm_atomic_state \<Rightarrow> bool \<Rightarrow> errno option \<times> drm_atomic_device" where
  "drm_atomic_helper_swap_state wait dev state stall =
     (let ret = (if stall then
                   (case first_failure (\<lambda>i s. wait (Crtc_Object i)) (as_crtcs state) [0..<num_crtc dev] of
                      Some ret \<Rightarrow> Some ret
                    | None \<Rightarrow>
                        (case first_failure (\<lambda>i s. wait (Connector_Object i)) (as_connectors state) [0..<as_num_connector state] of
                           Some ret \<Rightarrow> Some ret
                         | None \<Rightarrow>
                             first_failure (\<lambda>i s. wait (Plane_Object i)) (as_planes state) [0..<num_total_plane dev]))
                 else None)
      in if ret \<noteq> None then (ret, dev)
         else (None, dev
           \<lparr>connector_current := \<lambda>i. if i < as_num_connector state then case_option (connector_current dev i) id (as_connectors state i)
              else connector_current dev i,
            crtc_current := \<lambda>i. if i < num_crtc dev then case_option (crtc_current dev i) id (as_crtcs state i)
              else crtc_current dev i,
            plane_current := \<lambda>i. if i < num_total_plane dev then case_option (plane_current dev i) id (as_planes state i)
              else plane_current dev i\<rparr>))"

end
