(* ===== verification/Atomic_Correct.thy ===== *)
theory Atomic_Correct
  imports Atomic Sort_Correct
begin

text \<open>
  Correctness of atomic updates: the masks of the CRTCs agree with the links of planes and connectors in
  every update that was built without an error, the checks of the core, and the positions of planes.
\<close>

unbundle bit_operations_syntax

section \<open>Masks and links\<close>

text \<open>
  \<open>masks\<close> gives the mask of some of the CRTCs and \<open>link\<close> the CRTC of each object; they agree if a bit is set
  exactly for the objects that are linked to the CRTC.
\<close>

definition masks_agree :: "nat \<Rightarrow> (nat \<Rightarrow> u32 option) \<Rightarrow> (nat \<Rightarrow> nat option) \<Rightarrow> bool" where
  "masks_agree n masks link \<longleftrightarrow> (\<forall>c m i. masks c = Some m \<and> i < n \<longrightarrow> (bit m i \<longleftrightarrow> link i = Some c))"

lemma masks_agree_add:
  assumes "masks_agree n masks link" and "\<And>i. i < n \<Longrightarrow> bit m i \<longleftrightarrow> link i = Some c"
  shows "masks_agree n (masks(c \<mapsto> m)) link"
  using assms by (simp add: masks_agree_def)

text \<open>Moving one object from its CRTC to another.\<close>

definition move_bit :: "nat \<Rightarrow> nat option \<Rightarrow> nat option \<Rightarrow> nat \<Rightarrow> u32 \<Rightarrow> u32" where
  "move_bit i old new c m =
     (let m = (if old = Some c then m AND NOT (push_bit i 1) else m)
      in if new = Some c then m OR push_bit i 1 else m)"

lemma masks_agree_move:
  assumes "masks_agree n masks link" and "n \<le> 32"
  shows "masks_agree n (\<lambda>c. map_option (move_bit i (link i) new c) (masks c)) (link(i := new))"
  unfolding masks_agree_def
proof (intro allI impI)
  fix c m j
  assume a: "map_option (move_bit i (link i) new c) (masks c) = Some m \<and> j < n"
  then obtain m0 where m0: "masks c = Some m0" "m = move_bit i (link i) new c m0" by auto
  have "bit m0 j \<longleftrightarrow> link j = Some c" using assms(1) m0(1) a by (simp add: masks_agree_def)
  moreover have "j < 32" using a assms(2) by simp
  ultimately show "bit m j \<longleftrightarrow> (link(i := new)) j = Some c"
    by (auto simp: m0(2) move_bit_def Let_def bit_simps)
qed

lemma mask_indices_set:
  assumes "n \<le> 32"
  shows "set (mask_indices n m) = {i. i < n \<and> bit m i}" and "distinct (mask_indices n m)"
proof -
  have "m AND push_bit i 1 \<noteq> 0 \<longleftrightarrow> bit m i" for i by (simp add: bit_iff_and_push_bit_not_eq_0)
  then show "set (mask_indices n m) = {i. i < n \<and> bit m i}" by (auto simp: mask_indices_def)
qed (simp add: mask_indices_def)

section \<open>Well-formed devices and updates\<close>

definition plane_link :: "drm_atomic_device \<Rightarrow> drm_atomic_state \<Rightarrow> nat \<Rightarrow> nat option" where
  "plane_link dev st p = pl_crtc (case as_planes st p of None \<Rightarrow> plane_current dev p | Some ps \<Rightarrow> ps)"

definition connector_link :: "drm_atomic_device \<Rightarrow> drm_atomic_state \<Rightarrow> nat \<Rightarrow> nat option" where
  "connector_link dev st k = co_crtc (case as_connectors st k of None \<Rightarrow> connector_current dev k | Some cs \<Rightarrow> cs)"

definition device_wf :: "drm_atomic_device \<Rightarrow> bool" where
  "device_wf dev \<longleftrightarrow> num_total_plane dev \<le> 32 \<and> set (connector_list dev) \<subseteq> {..<32} \<and>
     masks_agree (num_total_plane dev) (\<lambda>c. Some (cs_plane_mask (crtc_current dev c))) (\<lambda>p. pl_crtc (plane_current dev p)) \<and>
     masks_agree 32 (\<lambda>c. Some (cs_connector_mask (crtc_current dev c)))
       (\<lambda>k. co_crtc (connector_current dev k)) \<and>
     (\<forall>p c. pl_crtc (plane_current dev p) = Some c \<longrightarrow> c < num_crtc dev) \<and>
     (\<forall>k c. co_crtc (connector_current dev k) = Some c \<longrightarrow> c < num_crtc dev)"

definition update_wf :: "drm_atomic_device \<Rightarrow> drm_atomic_state \<Rightarrow> bool" where
  "update_wf dev st \<longleftrightarrow>
     masks_agree (num_total_plane dev) (\<lambda>c. map_option cs_plane_mask (as_crtcs st c)) (plane_link dev st) \<and>
     masks_agree 32 (\<lambda>c. map_option cs_connector_mask (as_crtcs st c)) (connector_link dev st) \<and>
     (\<forall>p ps c. as_planes st p = Some ps \<and> (pl_crtc ps = Some c \<or> pl_crtc (plane_current dev p) = Some c) \<longrightarrow>
        as_crtcs st c \<noteq> None) \<and>
     (\<forall>k cs c. as_connectors st k = Some cs \<and> (co_crtc cs = Some c \<or> co_crtc (connector_current dev k) = Some c) \<longrightarrow>
        as_crtcs st c \<noteq> None)"

lemma update_wfD:
  assumes "update_wf dev st"
  shows "masks_agree (num_total_plane dev) (\<lambda>c. map_option cs_plane_mask (as_crtcs st c)) (plane_link dev st)"
    and "masks_agree 32 (\<lambda>c. map_option cs_connector_mask (as_crtcs st c)) (connector_link dev st)"
    and "as_planes st p = Some ps \<Longrightarrow> pl_crtc ps = Some c \<or> pl_crtc (plane_current dev p) = Some c \<Longrightarrow> as_crtcs st c \<noteq> None"
    and "as_connectors st k = Some cs \<Longrightarrow> co_crtc cs = Some c \<or> co_crtc (connector_current dev k) = Some c \<Longrightarrow>
      as_crtcs st c \<noteq> None"
  using assms by (simp_all add: update_wf_def)

lemma update_wfI:
  assumes "masks_agree (num_total_plane dev) (\<lambda>c. map_option cs_plane_mask (as_crtcs st c)) (plane_link dev st)"
    and "masks_agree 32 (\<lambda>c. map_option cs_connector_mask (as_crtcs st c)) (connector_link dev st)"
    and "\<And>p ps c. as_planes st p = Some ps \<Longrightarrow> pl_crtc ps = Some c \<or> pl_crtc (plane_current dev p) = Some c \<Longrightarrow>
      as_crtcs st c \<noteq> None"
    and "\<And>k cs c. as_connectors st k = Some cs \<Longrightarrow> co_crtc cs = Some c \<or> co_crtc (connector_current dev k) = Some c \<Longrightarrow>
      as_crtcs st c \<noteq> None"
  shows "update_wf dev st"
  unfolding update_wf_def using assms by blast

section \<open>Getting states\<close>

text \<open>
  Getting the state of a CRTC does not depend on planes and connectors, and does not change CRTCs of the
  update.
\<close>

lemma get_crtc_cases:
  assumes "drm_atomic_get_crtc_state env dev st c = (None, st')"
  shows "st' = st\<lparr>as_crtcs := (as_crtcs st)(c := Some (case as_crtcs st c of
    None \<Rightarrow> drm_atomic_helper_crtc_duplicate_state (crtc_current dev c) | Some cs \<Rightarrow> cs))\<rparr>"
  using assms by (auto simp: drm_atomic_get_crtc_state_def fun_upd_idem split: option.splits if_splits)

lemma get_crtc_wf:
  assumes dev: "device_wf dev" and wf: "update_wf dev st" and get: "drm_atomic_get_crtc_state env dev st c = (None, st')"
  shows "update_wf dev st'"
proof (cases "as_crtcs st c")
  case (Some cs)
  with get_crtc_cases [OF get] wf show ?thesis by (simp add: fun_upd_idem)
next
  case None
  let ?cs = "drm_atomic_helper_crtc_duplicate_state (crtc_current dev c)"
  have st': "st' = st\<lparr>as_crtcs := (as_crtcs st)(c \<mapsto> ?cs)\<rparr>" using get_crtc_cases [OF get] None by simp
  have cs: "cs_plane_mask ?cs = cs_plane_mask (crtc_current dev c)"
    "cs_connector_mask ?cs = cs_connector_mask (crtc_current dev c)"
    by (simp_all add: drm_atomic_helper_crtc_duplicate_state_def)
  have p: "bit (cs_plane_mask ?cs) p \<longleftrightarrow> plane_link dev st p = Some c" if "p < num_total_plane dev" for p
    using dev that update_wfD(3) [OF wf, of p _ c] None
    by (auto simp: device_wf_def masks_agree_def cs plane_link_def split: option.splits)
  have k: "bit (cs_connector_mask ?cs) k \<longleftrightarrow> connector_link dev st k = Some c" if "k < 32" for k
    using dev that update_wfD(4) [OF wf, of k _ c] None
    by (auto simp: device_wf_def masks_agree_def cs connector_link_def split: option.splits)
  have m: "(\<lambda>x. map_option f (as_crtcs st' x)) = (\<lambda>x. map_option f (as_crtcs st x))(c \<mapsto> f ?cs)" for f
    by (auto simp: st')
  have l: "plane_link dev st' = plane_link dev st" "connector_link dev st' = connector_link dev st"
    by (simp_all add: st' plane_link_def connector_link_def fun_eq_iff)
  have e: "as_planes st' = as_planes st" "as_connectors st' = as_connectors st" by (simp_all add: st')
  have n: "as_crtcs st x \<noteq> None \<Longrightarrow> as_crtcs st' x \<noteq> None" for x by (simp add: st')
  show ?thesis
  proof (rule update_wfI)
    show "masks_agree (num_total_plane dev) (\<lambda>c. map_option cs_plane_mask (as_crtcs st' c)) (plane_link dev st')"
      unfolding l m by (rule masks_agree_add [OF update_wfD(1) [OF wf] p])
    show "masks_agree 32 (\<lambda>c. map_option cs_connector_mask (as_crtcs st' c)) (connector_link dev st')"
      unfolding l m by (rule masks_agree_add [OF update_wfD(2) [OF wf] k])
    show "as_crtcs st' x \<noteq> None" if "as_planes st' q = Some ps" "pl_crtc ps = Some x \<or> pl_crtc (plane_current dev q) = Some x"
      for q ps x
      using that n [OF update_wfD(3) [OF wf, of q ps x]] by (simp add: e)
    show "as_crtcs st' x \<noteq> None"
      if "as_connectors st' q = Some cs" "co_crtc cs = Some x \<or> co_crtc (connector_current dev q) = Some x" for q cs x
      using that n [OF update_wfD(4) [OF wf, of q cs x]] by (simp add: e)
  qed
qed

lemma get_crtc_in: "drm_atomic_get_crtc_state env dev st c = (None, st') \<Longrightarrow> as_crtcs st' c \<noteq> None"
  by (drule get_crtc_cases) simp

lemma get_crtc_commute:
  "drm_atomic_get_crtc_state env dev (st\<lparr>as_planes := f\<rparr>) c =
     map_prod id (\<lambda>s. s\<lparr>as_planes := f\<rparr>) (drm_atomic_get_crtc_state env dev st c)"
  "drm_atomic_get_crtc_state env dev (st\<lparr>as_connectors := g\<rparr>) c =
     map_prod id (\<lambda>s. s\<lparr>as_connectors := g\<rparr>) (drm_atomic_get_crtc_state env dev st c)"
  by (simp_all add: drm_atomic_get_crtc_state_def split: option.splits)

lemma get_crtc_after_update:
  assumes "as_crtcs st old \<noteq> None"
  shows "drm_atomic_get_crtc_state env dev (crtc_update old f st) c =
    map_prod id (crtc_update old f) (drm_atomic_get_crtc_state env dev st c)"
  using assms by (auto simp: drm_atomic_get_crtc_state_def crtc_update_def fun_upd_twist split: option.splits)

text \<open>A duplicate of the current state of a plane or connector does not change any link.\<close>

lemma add_plane_wf:
  assumes wf: "update_wf dev st" and "as_planes st p = None"
    and "\<And>c. pl_crtc (plane_current dev p) = Some c \<Longrightarrow> as_crtcs st c \<noteq> None"
  shows "update_wf dev (st\<lparr>as_planes := (as_planes st)(p \<mapsto> plane_current dev p)\<rparr>)" (is "update_wf dev ?st")
proof -
  have l: "plane_link dev ?st = plane_link dev st" "connector_link dev ?st = connector_link dev st"
    using assms(2) by (auto simp: plane_link_def connector_link_def fun_eq_iff)
  show ?thesis
  proof (rule update_wfI)
    show "as_crtcs ?st x \<noteq> None" if "as_planes ?st q = Some ps" "pl_crtc ps = Some x \<or> pl_crtc (plane_current dev q) = Some x"
      for q ps x
      using that assms(3) [of x] update_wfD(3) [OF wf, of q ps x] by (cases "q = p") auto
  qed (use update_wfD [OF wf] in \<open>simp_all add: l\<close>)
qed

lemma add_connector_wf:
  assumes wf: "update_wf dev st" and "as_connectors st k = None"
    and "\<And>c. co_crtc (connector_current dev k) = Some c \<Longrightarrow> as_crtcs st c \<noteq> None"
  shows "update_wf dev (st\<lparr>as_connectors := (as_connectors st)(k \<mapsto> connector_current dev k)\<rparr>)" (is "update_wf dev ?st")
proof -
  have l: "plane_link dev ?st = plane_link dev st" "connector_link dev ?st = connector_link dev st"
    using assms(2) by (auto simp: plane_link_def connector_link_def fun_eq_iff)
  show ?thesis
  proof (rule update_wfI)
    show "as_crtcs ?st x \<noteq> None"
      if "as_connectors ?st q = Some cs" "co_crtc cs = Some x \<or> co_crtc (connector_current dev q) = Some x" for q cs x
      using that assms(3) [of x] update_wfD(4) [OF wf, of q cs x] by (cases "q = k") auto
  qed (use update_wfD [OF wf] in \<open>simp_all add: l\<close>)
qed

lemma get_plane_wf:
  assumes dev: "device_wf dev" and wf: "update_wf dev st" and get: "drm_atomic_get_plane_state env dev st p = (None, st')"
  shows "update_wf dev st'"
proof (cases "as_planes st p")
  case (Some ps)
  with get wf show ?thesis by (simp add: drm_atomic_get_plane_state_def)
next
  case None
  let ?f = "(as_planes st)(p \<mapsto> plane_current dev p)"
  show ?thesis
  proof (cases "pl_crtc (plane_current dev p)")
    case no_crtc: None
    with None get have "st' = st\<lparr>as_planes := ?f\<rparr>"
      by (auto simp: drm_atomic_get_plane_state_def drm_atomic_helper_plane_duplicate_state_def split: option.splits if_splits)
    with add_plane_wf [OF wf None] no_crtc show ?thesis by simp
  next
    case (Some c)
    with None get have "map_prod id (\<lambda>s. s\<lparr>as_planes := ?f\<rparr>) (drm_atomic_get_crtc_state env dev st c) = (None, st')"
      by (auto simp: drm_atomic_get_plane_state_def drm_atomic_helper_plane_duplicate_state_def get_crtc_commute(1) [symmetric]
        split: option.splits if_splits)
    then obtain st1 where st1: "drm_atomic_get_crtc_state env dev st c = (None, st1)" "st' = st1\<lparr>as_planes := ?f\<rparr>"
      by (cases "drm_atomic_get_crtc_state env dev st c") auto
    have "as_planes st1 = as_planes st" using get_crtc_cases [OF st1(1)] by simp
    with add_plane_wf [OF get_crtc_wf [OF dev wf st1(1)], of p] get_crtc_in [OF st1(1)] None Some st1(2) show ?thesis by simp
  qed
qed

lemma num_connector_wf: "update_wf dev (st\<lparr>as_num_connector := n\<rparr>) \<longleftrightarrow> update_wf dev st"
  by (simp add: update_wf_def plane_link_def [abs_def] connector_link_def [abs_def])

lemma get_connector_wf:
  assumes dev: "device_wf dev" and wf: "update_wf dev st" and get: "drm_atomic_get_connector_state env dev st k = (None, st')"
  shows "update_wf dev st'"
proof -
  define st0 where "st0 = (if k \<ge> as_num_connector st then st\<lparr>as_num_connector := max (k + 1) (num_connector dev)\<rparr> else st)"
  have wf0: "update_wf dev st0" using wf by (simp add: st0_def num_connector_wf)
  let ?f = "(as_connectors st0)(k \<mapsto> connector_current dev k)"
  show ?thesis
  proof (cases "as_connectors st0 k")
    case (Some ks)
    with get wf0 show ?thesis
      by (auto simp: drm_atomic_get_connector_state_def st0_def Let_def split: option.splits if_splits)
  next
    case None
    show ?thesis
    proof (cases "co_crtc (connector_current dev k)")
      case no_crtc: None
      with None get have "st' = st0\<lparr>as_connectors := ?f\<rparr>"
        by (auto simp: drm_atomic_get_connector_state_def st0_def Let_def drm_atomic_helper_connector_duplicate_state_def
          split: option.splits if_splits)
      with add_connector_wf [OF wf0 None] no_crtc show ?thesis by simp
    next
      case (Some c)
      with None get have "map_prod id (\<lambda>s. s\<lparr>as_connectors := ?f\<rparr>) (drm_atomic_get_crtc_state env dev st0 c) = (None, st')"
        by (auto simp: drm_atomic_get_connector_state_def st0_def Let_def drm_atomic_helper_connector_duplicate_state_def
          get_crtc_commute(2) [symmetric] split: option.splits if_splits)
      then obtain st1 where st1: "drm_atomic_get_crtc_state env dev st0 c = (None, st1)" "st' = st1\<lparr>as_connectors := ?f\<rparr>"
        by (cases "drm_atomic_get_crtc_state env dev st0 c") auto
      have "as_connectors st1 = as_connectors st0" using get_crtc_cases [OF st1(1)] by simp
      with add_connector_wf [OF get_crtc_wf [OF dev wf0 st1(1)], of k] get_crtc_in [OF st1(1)] None Some st1(2)
      show ?thesis by simp
    qed
  qed
qed

section \<open>Linking\<close>

definition move_plane :: "nat \<Rightarrow> drm_plane_state \<Rightarrow> nat option \<Rightarrow> drm_atomic_state \<Rightarrow> drm_atomic_state" where
  "move_plane p ps new st =
     st\<lparr>as_crtcs := (\<lambda>c. map_option (\<lambda>cs. cs\<lparr>cs_plane_mask := move_bit p (pl_crtc ps) new c (cs_plane_mask cs)\<rparr>) (as_crtcs st c)),
        as_planes := (as_planes st)(p \<mapsto> ps\<lparr>pl_crtc := new\<rparr>)\<rparr>"

lemma move_plane_wf:
  assumes dev: "device_wf dev" and wf: "update_wf dev st" and "as_planes st p = Some ps"
    and "\<And>c. new = Some c \<Longrightarrow> as_crtcs st c \<noteq> None"
  shows "update_wf dev (move_plane p ps new st)" (is "update_wf dev ?st")
proof (rule update_wfI)
  have l: "plane_link dev ?st = (plane_link dev st)(p := new)" "connector_link dev ?st = connector_link dev st"
    "plane_link dev st p = pl_crtc ps"
    using assms(3) by (auto simp: plane_link_def connector_link_def move_plane_def fun_eq_iff)
  show "masks_agree (num_total_plane dev) (\<lambda>c. map_option cs_plane_mask (as_crtcs ?st c)) (plane_link dev ?st)"
    using masks_agree_move [OF update_wfD(1) [OF wf], of p new] dev unfolding l
    by (simp add: l device_wf_def move_plane_def option.map_comp comp_def)
  show "masks_agree 32 (\<lambda>c. map_option cs_connector_mask (as_crtcs ?st c)) (connector_link dev ?st)"
    using update_wfD(2) [OF wf] unfolding l by (simp add: move_plane_def option.map_comp comp_def)
  show "as_crtcs ?st x \<noteq> None" if "as_planes ?st q = Some qs" "pl_crtc qs = Some x \<or> pl_crtc (plane_current dev q) = Some x"
    for q qs x
    using that assms(3,4) update_wfD(3) [OF wf, of q _ x] by (cases "q = p") (auto simp: move_plane_def)
  show "as_crtcs ?st x \<noteq> None"
    if "as_connectors ?st q = Some cs" "co_crtc cs = Some x \<or> co_crtc (connector_current dev q) = Some x" for q cs x
    using that update_wfD(4) [OF wf, of q cs x] by (simp add: move_plane_def)
qed

lemma get_crtc_present: "as_crtcs st c \<noteq> None \<Longrightarrow> drm_atomic_get_crtc_state env dev st c = (None, st)"
  by (auto simp: drm_atomic_get_crtc_state_def)

lemma crtc_update_planes [simp]:
  "crtc_update c f (st\<lparr>as_planes := g\<rparr>) = (crtc_update c f st)\<lparr>as_planes := g\<rparr>"
  "crtc_update c f (st\<lparr>as_connectors := h\<rparr>) = (crtc_update c f st)\<lparr>as_connectors := h\<rparr>"
  "as_planes (crtc_update c f st) = as_planes st" "as_connectors (crtc_update c f st) = as_connectors st"
  by (simp_all add: crtc_update_def)

lemma map_prod_ident: "map_prod id (\<lambda>s. s) x = x"
  by (cases x) simp

lemma set_crtc_for_plane_eq:
  assumes wf: "update_wf dev st" and ps: "as_planes st p = Some ps"
    and set: "drm_atomic_set_crtc_for_plane env dev st p new = Some (None, st')"
  shows "\<exists>st1. (case new of None \<Rightarrow> st1 = st | Some c \<Rightarrow> drm_atomic_get_crtc_state env dev st c = (None, st1)) \<and>
    st' = move_plane p ps new st1"
proof -
  let ?clear = "\<lambda>cs. cs\<lparr>cs_plane_mask := cs_plane_mask cs AND NOT (push_bit p 1)\<rparr>"
  let ?set = "\<lambda>cs. cs\<lparr>cs_plane_mask := cs_plane_mask cs OR push_bit p 1\<rparr>"
  let ?f = "(as_planes st)(p \<mapsto> ps\<lparr>pl_crtc := new\<rparr>)"
  define clear where "clear = (\<lambda>s. case pl_crtc ps of None \<Rightarrow> s | Some c \<Rightarrow> crtc_update c ?clear s)"
  have mv: "move_plane p ps new s = (case new of None \<Rightarrow> clear s | Some c \<Rightarrow> crtc_update c ?set (clear s))
      \<lparr>as_planes := (as_planes s)(p \<mapsto> ps\<lparr>pl_crtc := new\<rparr>)\<rparr>" for s
    by (rule drm_atomic_state.equality)
      (auto simp: clear_def move_plane_def move_bit_def crtc_update_def fun_eq_iff map_option_case split: option.splits)
  have old: "pl_crtc ps = Some c \<Longrightarrow> as_crtcs st c \<noteq> None" for c using update_wfD(3) [OF wf ps] by blast
  have set': "(case new of None \<Rightarrow> Some (None, (clear st)\<lparr>as_planes := ?f\<rparr>)
      | Some c \<Rightarrow> (case drm_atomic_get_crtc_state env dev ((clear st)\<lparr>as_planes := ?f\<rparr>) c of
          (Some ret, s) \<Rightarrow> Some (Some ret, s) | (None, s) \<Rightarrow> Some (None, crtc_update c ?set s))) = Some (None, st')"
    using set ps get_crtc_present [OF old, of _ env dev]
    by (cases "pl_crtc ps"; cases new) (simp_all add: drm_atomic_set_crtc_for_plane_def clear_def Let_def)
  show ?thesis
  proof (cases new)
    case None
    have "st' = move_plane p ps new st" unfolding mv using set' None by simp
    with None show ?thesis by simp
  next
    case (Some c)
    have "drm_atomic_get_crtc_state env dev (clear st) c = map_prod id clear (drm_atomic_get_crtc_state env dev st c)"
      using get_crtc_after_update [OF old] by (simp add: clear_def map_prod_ident split: option.splits)
    with Some set' obtain st1 where st1: "drm_atomic_get_crtc_state env dev st c = (None, st1)"
      "st' = crtc_update c ?set ((clear st1)\<lparr>as_planes := ?f\<rparr>)"
      by (cases "drm_atomic_get_crtc_state env dev st c")
        (auto simp: get_crtc_commute split: option.splits)
    have "as_planes st1 = as_planes st" using get_crtc_cases [OF st1(1)] by simp
    then have "st' = move_plane p ps new st1"
      unfolding mv using st1(2) Some by simp
    with Some st1(1) show ?thesis by auto
  qed
qed

lemma set_crtc_for_plane_wf:
  assumes dev: "device_wf dev" and wf: "update_wf dev st"
    and set: "drm_atomic_set_crtc_for_plane env dev st p new = Some (None, st')"
  shows "update_wf dev st'"
proof -
  obtain ps where ps: "as_planes st p = Some ps"
    using set by (cases "as_planes st p") (simp_all add: drm_atomic_set_crtc_for_plane_def)
  obtain st1 where st1: "case new of None \<Rightarrow> st1 = st | Some c \<Rightarrow> drm_atomic_get_crtc_state env dev st c = (None, st1)"
    "st' = move_plane p ps new st1"
    using set_crtc_for_plane_eq [OF wf ps set] by blast
  have "update_wf dev st1 \<and> as_planes st1 p = Some ps \<and> (\<forall>c. new = Some c \<longrightarrow> as_crtcs st1 c \<noteq> None)"
  proof (cases new)
    case None
    with st1(1) wf ps show ?thesis by simp
  next
    case (Some c)
    with st1(1) have g: "drm_atomic_get_crtc_state env dev st c = (None, st1)" by simp
    from get_crtc_wf [OF dev wf g] get_crtc_in [OF g] get_crtc_cases [OF g] ps Some show ?thesis by simp
  qed
  with move_plane_wf [OF dev, of st1 p ps new] st1(2) show ?thesis by simp
qed

text \<open>The same for a connector.\<close>

definition move_connector :: "nat \<Rightarrow> drm_connector_state \<Rightarrow> nat option \<Rightarrow> drm_atomic_state \<Rightarrow> drm_atomic_state" where
  "move_connector k ks new st =
     st\<lparr>as_crtcs := (\<lambda>c. map_option (\<lambda>cs. cs\<lparr>cs_connector_mask := move_bit k (co_crtc ks) new c (cs_connector_mask cs)\<rparr>)
          (as_crtcs st c)),
        as_connectors := (as_connectors st)(k \<mapsto> ks\<lparr>co_crtc := new\<rparr>)\<rparr>"

lemma move_connector_wf:
  assumes dev: "device_wf dev" and wf: "update_wf dev st" and "as_connectors st k = Some ks"
    and "\<And>c. new = Some c \<Longrightarrow> as_crtcs st c \<noteq> None"
  shows "update_wf dev (move_connector k ks new st)" (is "update_wf dev ?st")
proof (rule update_wfI)
  have l: "connector_link dev ?st = (connector_link dev st)(k := new)" "plane_link dev ?st = plane_link dev st"
    "connector_link dev st k = co_crtc ks"
    using assms(3) by (auto simp: plane_link_def connector_link_def move_connector_def fun_eq_iff)
  show "masks_agree 32 (\<lambda>c. map_option cs_connector_mask (as_crtcs ?st c)) (connector_link dev ?st)"
    using masks_agree_move [OF update_wfD(2) [OF wf], of k new] dev unfolding l
    by (simp add: l device_wf_def move_connector_def option.map_comp comp_def)
  show "masks_agree (num_total_plane dev) (\<lambda>c. map_option cs_plane_mask (as_crtcs ?st c)) (plane_link dev ?st)"
    using update_wfD(1) [OF wf] unfolding l by (simp add: move_connector_def option.map_comp comp_def)
  show "as_crtcs ?st x \<noteq> None" if "as_planes ?st q = Some qs" "pl_crtc qs = Some x \<or> pl_crtc (plane_current dev q) = Some x"
    for q qs x
    using that update_wfD(3) [OF wf, of q qs x] by (simp add: move_connector_def)
  show "as_crtcs ?st x \<noteq> None"
    if "as_connectors ?st q = Some cs" "co_crtc cs = Some x \<or> co_crtc (connector_current dev q) = Some x" for q cs x
    using that assms(3,4) update_wfD(4) [OF wf, of q _ x] by (cases "q = k") (auto simp: move_connector_def)
qed

lemma set_crtc_for_connector_eq:
  assumes wf: "update_wf dev st" and ks: "as_connectors st k = Some ks" and changed: "co_crtc ks \<noteq> new"
    and set: "drm_atomic_set_crtc_for_connector env dev st k new = Some (None, st')"
  shows "\<exists>st1. (case new of None \<Rightarrow> st1 = st | Some c \<Rightarrow> drm_atomic_get_crtc_state env dev st c = (None, st1)) \<and>
    st' = move_connector k ks new st1"
proof -
  let ?clear = "\<lambda>cs. cs\<lparr>cs_connector_mask := cs_connector_mask cs AND NOT (push_bit k 1)\<rparr>"
  let ?set = "\<lambda>cs. cs\<lparr>cs_connector_mask := cs_connector_mask cs OR push_bit k 1\<rparr>"
  define clear where "clear = (\<lambda>s. case co_crtc ks of None \<Rightarrow> s | Some c \<Rightarrow> crtc_update c ?clear s)"
  define unlink where "unlink = (\<lambda>s :: drm_atomic_state. case co_crtc ks of None \<Rightarrow> s
    | Some c \<Rightarrow> s\<lparr>as_connectors := (as_connectors st)(k \<mapsto> ks\<lparr>co_crtc := None\<rparr>)\<rparr>)"
  have mv: "move_connector k ks new s = (case new of None \<Rightarrow> clear s | Some c \<Rightarrow> crtc_update c ?set (clear s))
      \<lparr>as_connectors := (as_connectors s)(k \<mapsto> ks\<lparr>co_crtc := new\<rparr>)\<rparr>" for s
    by (rule drm_atomic_state.equality)
      (auto simp: clear_def move_connector_def move_bit_def crtc_update_def fun_eq_iff map_option_case split: option.splits)
  have old: "co_crtc ks = Some c \<Longrightarrow> as_crtcs st c \<noteq> None" for c using update_wfD(4) [OF wf ks] by blast
  have set': "(case new of None \<Rightarrow> Some (None, unlink (clear st))
      | Some c \<Rightarrow> (case drm_atomic_get_crtc_state env dev (unlink (clear st)) c of
          (Some ret, s) \<Rightarrow> Some (Some ret, s)
        | (None, s) \<Rightarrow> Some (None, (crtc_update c ?set s)\<lparr>as_connectors := (as_connectors s)(k \<mapsto> ks\<lparr>co_crtc := new\<rparr>)\<rparr>))) =
      Some (None, st')"
    using set ks changed old
    by (cases "co_crtc ks"; cases new) (auto simp: drm_atomic_set_crtc_for_connector_def clear_def unlink_def Let_def split: option.splits prod.splits)
  show ?thesis
  proof (cases new)
    case None
    have "st' = move_connector k ks new st"
      unfolding mv using set' None changed by (auto simp: unlink_def clear_def split: option.splits)
    with None show ?thesis by simp
  next
    case (Some c)
    have "drm_atomic_get_crtc_state env dev (unlink (clear st)) c =
        map_prod id unlink (map_prod id clear (drm_atomic_get_crtc_state env dev st c))"
      using get_crtc_after_update [OF old]
      by (auto simp: clear_def unlink_def map_prod_ident get_crtc_commute split: option.splits)
    with Some set' obtain st1 where st1: "drm_atomic_get_crtc_state env dev st c = (None, st1)"
      "st' = (crtc_update c ?set (unlink (clear st1)))
        \<lparr>as_connectors := (as_connectors (unlink (clear st1)))(k \<mapsto> ks\<lparr>co_crtc := new\<rparr>)\<rparr>"
      by (cases "drm_atomic_get_crtc_state env dev st c") (auto split: option.splits)
    have "as_connectors st1 = as_connectors st" using get_crtc_cases [OF st1(1)] by simp
    then have "st' = move_connector k ks new st1"
      unfolding mv using st1(2) Some by (auto simp: unlink_def clear_def split: option.splits)
    with Some st1(1) show ?thesis by auto
  qed
qed

lemma set_crtc_for_connector_wf:
  assumes dev: "device_wf dev" and wf: "update_wf dev st"
    and set: "drm_atomic_set_crtc_for_connector env dev st k new = Some (None, st')"
  shows "update_wf dev st'"
proof -
  obtain ks where ks: "as_connectors st k = Some ks"
    using set by (cases "as_connectors st k") (simp_all add: drm_atomic_set_crtc_for_connector_def)
  show ?thesis
  proof (cases "co_crtc ks = new")
    case True
    with ks set wf show ?thesis by (simp add: drm_atomic_set_crtc_for_connector_def)
  next
    case False
    obtain st1 where st1: "case new of None \<Rightarrow> st1 = st | Some c \<Rightarrow> drm_atomic_get_crtc_state env dev st c = (None, st1)"
      "st' = move_connector k ks new st1"
      using set_crtc_for_connector_eq [OF wf ks False set] by blast
    have "update_wf dev st1 \<and> as_connectors st1 k = Some ks \<and> (\<forall>c. new = Some c \<longrightarrow> as_crtcs st1 c \<noteq> None)"
    proof (cases new)
      case None
      with st1(1) wf ks show ?thesis by simp
    next
      case (Some c)
      with st1(1) have g: "drm_atomic_get_crtc_state env dev st c = (None, st1)" by simp
      from get_crtc_wf [OF dev wf g] get_crtc_in [OF g] get_crtc_cases [OF g] ks Some show ?thesis by simp
    qed
    with move_connector_wf [OF dev, of st1 k ks new] st1(2) show ?thesis by simp
  qed
qed

text \<open>Linking never follows a missing state: the old CRTC of an object of the update is in the update.\<close>

lemma set_crtc_defined:
  assumes "update_wf dev st"
  shows "as_planes st p \<noteq> None \<Longrightarrow> drm_atomic_set_crtc_for_plane env dev st p new \<noteq> None"
    and "as_connectors st k \<noteq> None \<Longrightarrow> drm_atomic_set_crtc_for_connector env dev st k new \<noteq> None"
proof -
  show "drm_atomic_set_crtc_for_plane env dev st p new \<noteq> None" if p: "as_planes st p \<noteq> None"
    using that
    by (auto simp: drm_atomic_set_crtc_for_plane_def Let_def split: option.splits prod.splits)
  show "drm_atomic_set_crtc_for_connector env dev st k new \<noteq> None" if "as_connectors st k \<noteq> None"
  proof -
    from that obtain ks where ks: "as_connectors st k = Some ks" by auto
    have "co_crtc ks = Some c \<Longrightarrow> as_crtcs st c \<noteq> None" for c using update_wfD(4) [OF assms ks] by blast
    then show ?thesis using ks
      by (cases "co_crtc ks") (auto simp: drm_atomic_set_crtc_for_connector_def Let_def split: option.splits prod.splits)
  qed
qed

section \<open>Loops over planes and connectors\<close>

lemma get_plane_states_wf:
  "device_wf dev \<Longrightarrow> update_wf dev st \<Longrightarrow> get_plane_states env dev ps st = (None, st') \<Longrightarrow> update_wf dev st'"
  by (induction ps arbitrary: st) (auto split: prod.splits option.splits dest: get_plane_wf)

lemma get_connector_states_wf:
  "device_wf dev \<Longrightarrow> update_wf dev st \<Longrightarrow> get_connector_states env dev ks st = (None, st') \<Longrightarrow> update_wf dev st'"
  by (induction ks arbitrary: st) (auto split: prod.splits option.splits dest: get_connector_wf)

lemma add_affected_wf:
  assumes "device_wf dev" and "update_wf dev st"
  shows "drm_atomic_add_affected_planes env dev st c = (None, st') \<Longrightarrow> update_wf dev st'"
    and "drm_atomic_add_affected_connectors env dev st c = (None, st') \<Longrightarrow> update_wf dev st'"
  using assms get_plane_states_wf [OF assms] get_connector_states_wf [OF assms(1) get_crtc_wf [OF assms]]
  by (auto simp: drm_atomic_add_affected_planes_def drm_atomic_add_affected_connectors_def split: prod.splits option.splits)

text \<open>Changes of the states that keep masks and links.\<close>

lemma same_links_wf:
  assumes wf: "update_wf dev st"
    and c: "\<And>c. map_option cs_plane_mask (as_crtcs st' c) = map_option cs_plane_mask (as_crtcs st c)"
      "\<And>c. map_option cs_connector_mask (as_crtcs st' c) = map_option cs_connector_mask (as_crtcs st c)"
    and p: "\<And>p. map_option pl_crtc (as_planes st' p) = map_option pl_crtc (as_planes st p)"
    and k: "as_connectors st' = as_connectors st"
  shows "update_wf dev st'"
proof (rule update_wfI)
  have "plane_link dev st' q = plane_link dev st q" for q
    using p [of q] by (auto simp: plane_link_def split: option.splits)
  moreover have "connector_link dev st' q = connector_link dev st q" for q by (simp add: connector_link_def k)
  ultimately have l: "plane_link dev st' = plane_link dev st" "connector_link dev st' = connector_link dev st" by blast+
  show "masks_agree (num_total_plane dev) (\<lambda>c. map_option cs_plane_mask (as_crtcs st' c)) (plane_link dev st')"
    "masks_agree 32 (\<lambda>c. map_option cs_connector_mask (as_crtcs st' c)) (connector_link dev st')"
    unfolding l c using update_wfD(1,2) [OF wf] .
  have in_st: "as_crtcs st x \<noteq> None \<Longrightarrow> as_crtcs st' x \<noteq> None" for x using c(1) [of x] by (auto simp: map_option_case split: option.splits)
  show "as_crtcs st' x \<noteq> None" if "as_planes st' q = Some qs" "pl_crtc qs = Some x \<or> pl_crtc (plane_current dev q) = Some x"
    for q qs x
    using that p [of q] in_st [of x] update_wfD(3) [OF wf, of q _ x] by (cases "as_planes st q") auto
  show "as_crtcs st' x \<noteq> None"
    if "as_connectors st' q = Some cs" "co_crtc cs = Some x \<or> co_crtc (connector_current dev q) = Some x" for q cs x
    using that in_st [of x] update_wfD(4) [OF wf, of q cs x] by (simp add: k)
qed

lemma crtc_update_wf:
  assumes "update_wf dev st" and "\<And>cs. cs_plane_mask (f cs) = cs_plane_mask cs" "\<And>cs. cs_connector_mask (f cs) = cs_connector_mask cs"
  shows "update_wf dev (crtc_update c f st)"
  by (rule same_links_wf [OF assms(1)]) (simp_all add: crtc_update_def option.map_comp comp_def assms(2,3))

lemma plane_update_wf:
  assumes "update_wf dev st" and "\<And>ps. pl_crtc (f ps) = pl_crtc ps"
  shows "update_wf dev (st\<lparr>as_planes := (as_planes st)(p := map_option f (as_planes st p))\<rparr>)"
  by (rule same_links_wf [OF assms(1)]) (simp_all add: option.map_comp comp_def assms(2))

lemma zpos_assign_wf: "update_wf dev st \<Longrightarrow> update_wf dev (zpos_assign i ps st)"
  by (induction i ps st rule: zpos_assign.induct) (simp_all add: plane_update_wf)

lemma zpos_mark_wf: "update_wf dev st \<Longrightarrow> zpos_mark_crtcs dev ps st = Some st' \<Longrightarrow> update_wf dev st'"
  by (induction dev ps st rule: zpos_mark_crtcs.induct)
    (auto split: option.splits if_splits bind_splits simp: crtc_update_wf)

lemma crtc_normalize_zpos_wf:
  "device_wf dev \<Longrightarrow> update_wf dev st \<Longrightarrow> drm_atomic_helper_crtc_normalize_zpos qsort env dev st c = Some (None, st') \<Longrightarrow>
    update_wf dev st'"
  by (auto simp: drm_atomic_helper_crtc_normalize_zpos_def Let_def crtc_update_wf zpos_assign_wf
      split: bind_splits if_splits prod.splits option.splits dest: get_plane_states_wf)

lemma zpos_normalize_crtcs_wf:
  "device_wf dev \<Longrightarrow> update_wf dev st \<Longrightarrow> zpos_normalize_crtcs qsort env dev cs st = Some (None, st') \<Longrightarrow> update_wf dev st'"
  by (induction cs arbitrary: st) (auto split: option.splits if_splits bind_splits dest: crtc_normalize_zpos_wf)

lemma normalize_zpos_wf:
  "device_wf dev \<Longrightarrow> update_wf dev st \<Longrightarrow> drm_atomic_normalize_zpos qsort env dev st = Some (None, st') \<Longrightarrow> update_wf dev st'"
  by (auto simp: drm_atomic_normalize_zpos_def split: bind_splits dest: zpos_mark_wf zpos_normalize_crtcs_wf)

section \<open>Building an update\<close>

text \<open>
  All states of the update are at indices of the arrays, also after an error. This is what clearing the
  update relies on.
\<close>

definition update_dom :: "drm_atomic_device \<Rightarrow> drm_atomic_state \<Rightarrow> bool" where
  "update_dom dev st \<longleftrightarrow> (\<forall>c. as_crtcs st c \<noteq> None \<longrightarrow> c < num_crtc dev) \<and>
     (\<forall>p. as_planes st p \<noteq> None \<longrightarrow> p < num_total_plane dev) \<and>
     (\<forall>k. as_connectors st k \<noteq> None \<longrightarrow> k < as_num_connector st)"

lemma crtc_update_dom [simp]: "update_dom dev (crtc_update c f st) \<longleftrightarrow> update_dom dev st"
  by (auto simp: update_dom_def crtc_update_def)

lemma plane_update_dom [simp]:
  "update_dom dev (st\<lparr>as_planes := (as_planes st)(p := map_option f (as_planes st p))\<rparr>) \<longleftrightarrow> update_dom dev st"
  by (auto simp: update_dom_def)

lemma get_crtc_dom:
  "update_dom dev st \<Longrightarrow> c < num_crtc dev \<Longrightarrow> drm_atomic_get_crtc_state env dev st c = (ret, st') \<Longrightarrow> update_dom dev st'"
  by (auto simp: drm_atomic_get_crtc_state_def update_dom_def split: option.splits if_splits)

lemma get_plane_dom:
  assumes "device_wf dev" and "update_dom dev st" and "p < num_total_plane dev"
    and "drm_atomic_get_plane_state env dev st p = (ret, st')"
  shows "update_dom dev st'"
proof -
  let ?st = "st\<lparr>as_planes := (as_planes st)(p \<mapsto> plane_current dev p)\<rparr>"
  have st: "update_dom dev ?st" using assms(2,3) by (auto simp: update_dom_def)
  have c: "c < num_crtc dev" if "pl_crtc (plane_current dev p) = Some c" for c
    using assms(1) that by (auto simp: device_wf_def)
  have "st' = st \<or> st' = ?st \<or>
      (\<exists>c. pl_crtc (plane_current dev p) = Some c \<and> drm_atomic_get_crtc_state env dev ?st c = (ret, st'))"
    using assms(4) by (auto simp: drm_atomic_get_plane_state_def drm_atomic_helper_plane_duplicate_state_def Let_def
        split: option.splits if_splits)
  then show ?thesis using assms(2) st get_crtc_dom [OF st c] by blast
qed

lemma get_connector_dom:
  assumes "device_wf dev" and "update_dom dev st" and "drm_atomic_get_connector_state env dev st k = (ret, st')"
  shows "update_dom dev st'"
proof -
  define st0 where "st0 = (if k \<ge> as_num_connector st then st\<lparr>as_num_connector := max (k + 1) (num_connector dev)\<rparr> else st)"
  have st0: "update_dom dev st0" "k < as_num_connector st0" using assms(2) by (auto simp: update_dom_def st0_def)
  let ?st = "st0\<lparr>as_connectors := (as_connectors st0)(k \<mapsto> connector_current dev k)\<rparr>"
  have st: "update_dom dev ?st" using st0 by (auto simp: update_dom_def)
  have c: "c < num_crtc dev" if "co_crtc (connector_current dev k) = Some c" for c
    using assms(1) that by (auto simp: device_wf_def)
  have "st' = st \<or> st' = st0 \<or> st' = ?st \<or>
      (\<exists>c. co_crtc (connector_current dev k) = Some c \<and> drm_atomic_get_crtc_state env dev ?st c = (ret, st'))"
    using assms(3) unfolding drm_atomic_get_connector_state_def drm_atomic_helper_connector_duplicate_state_def Let_def st0_def [symmetric]
    by (auto split: option.splits if_splits)
  then show ?thesis using assms(2) st0(1) st get_crtc_dom [OF st c] by blast
qed

lemma get_plane_states_dom:
  "device_wf dev \<Longrightarrow> update_dom dev st \<Longrightarrow> set ps \<subseteq> {..<num_total_plane dev} \<Longrightarrow>
    get_plane_states env dev ps st = (ret, st') \<Longrightarrow> update_dom dev st'"
  by (induction ps arbitrary: st) (auto split: prod.splits option.splits dest: get_plane_dom)

lemma get_connector_states_dom:
  "device_wf dev \<Longrightarrow> update_dom dev st \<Longrightarrow> get_connector_states env dev ks st = (ret, st') \<Longrightarrow> update_dom dev st'"
  by (induction ks arbitrary: st) (auto split: prod.splits option.splits dest: get_connector_dom)

lemma mask_indices_less: "set (mask_indices n m) \<subseteq> {..<n}"
  by (auto simp: mask_indices_def)

lemma add_affected_dom:
  assumes "device_wf dev" and "update_dom dev st" and "c < num_crtc dev"
  shows "drm_atomic_add_affected_planes env dev st c = (ret, st') \<Longrightarrow> update_dom dev st'"
    and "drm_atomic_add_affected_connectors env dev st c = (ret, st') \<Longrightarrow> update_dom dev st'"
proof -
  show "update_dom dev st'" if "drm_atomic_add_affected_planes env dev st c = (ret, st')"
    using that get_plane_states_dom [OF assms(1,2) mask_indices_less] by (simp add: drm_atomic_add_affected_planes_def)
  obtain r st1 where g: "drm_atomic_get_crtc_state env dev st c = (r, st1)" by fastforce
  from get_crtc_dom [OF assms(2,3) g] have st1: "update_dom dev st1" .
  show "update_dom dev st'" if "drm_atomic_add_affected_connectors env dev st c = (ret, st')"
  proof -
    have "st' = st1 \<or> (\<exists>ks. get_connector_states env dev ks st1 = (ret, st'))"
      using that by (auto simp: drm_atomic_add_affected_connectors_def g split: option.splits)
    then show ?thesis using st1 get_connector_states_dom [OF assms(1) st1] by blast
  qed
qed

lemma zpos_assign_dom: "update_dom dev st \<Longrightarrow> update_dom dev (zpos_assign i ps st)"
  by (induction i ps st rule: zpos_assign.induct) simp_all

lemma zpos_mark_dom: "update_dom dev st \<Longrightarrow> zpos_mark_crtcs dev ps st = Some st' \<Longrightarrow> update_dom dev st'"
  by (induction dev ps st rule: zpos_mark_crtcs.induct) (auto split: option.splits if_splits bind_splits)

lemma crtc_normalize_zpos_dom:
  "device_wf dev \<Longrightarrow> update_dom dev st \<Longrightarrow> drm_atomic_helper_crtc_normalize_zpos qsort env dev st c = Some (ret, st') \<Longrightarrow>
    update_dom dev st'"
  using get_plane_states_dom [OF _ _ mask_indices_less]
  by (auto simp: drm_atomic_helper_crtc_normalize_zpos_def Let_def zpos_assign_dom
      split: bind_splits if_splits prod.splits option.splits)

lemma zpos_normalize_crtcs_dom:
  "device_wf dev \<Longrightarrow> update_dom dev st \<Longrightarrow> zpos_normalize_crtcs qsort env dev cs st = Some (ret, st') \<Longrightarrow> update_dom dev st'"
  by (induction cs arbitrary: st) (auto split: option.splits if_splits bind_splits dest: crtc_normalize_zpos_dom)

lemma normalize_zpos_dom:
  "device_wf dev \<Longrightarrow> update_dom dev st \<Longrightarrow> drm_atomic_normalize_zpos qsort env dev st = Some (ret, st') \<Longrightarrow> update_dom dev st'"
  by (auto simp: drm_atomic_normalize_zpos_def split: bind_splits dest: zpos_mark_dom zpos_normalize_crtcs_dom)

lemma set_crtc_for_plane_dom:
  assumes wf: "update_wf dev st" and d: "update_dom dev st" and new: "set_option new \<subseteq> {..<num_crtc dev}"
    and set: "drm_atomic_set_crtc_for_plane env dev st p new = Some (ret, st')"
  shows "update_dom dev st'"
proof -
  obtain ps where ps: "as_planes st p = Some ps"
    using set by (cases "as_planes st p") (simp_all add: drm_atomic_set_crtc_for_plane_def)
  have old: "pl_crtc ps = Some c \<Longrightarrow> as_crtcs st c \<noteq> None" for c using update_wfD(3) [OF wf ps] by blast
  have link: "update_dom dev (st\<lparr>as_planes := (as_planes st)(p \<mapsto> qs)\<rparr>)"
    "update_dom dev ((crtc_update c f st)\<lparr>as_planes := (as_planes st)(p \<mapsto> qs)\<rparr>)" for c f qs
    using d ps by (auto simp: update_dom_def crtc_update_def)
  show ?thesis
    using set ps new get_crtc_present [OF old, of _ env dev]
    by (cases "pl_crtc ps"; cases new)
      (auto simp: drm_atomic_set_crtc_for_plane_def Let_def link split: prod.splits option.splits
        dest: get_crtc_dom [OF link(1)] get_crtc_dom [OF link(2)])
qed

lemma set_crtc_for_connector_dom:
  assumes wf: "update_wf dev st" and d: "update_dom dev st" and new: "set_option new \<subseteq> {..<num_crtc dev}"
    and set: "drm_atomic_set_crtc_for_connector env dev st k new = Some (ret, st')"
  shows "update_dom dev st'"
proof -
  obtain ks where ks: "as_connectors st k = Some ks"
    using set by (cases "as_connectors st k") (simp_all add: drm_atomic_set_crtc_for_connector_def)
  have link: "update_dom dev (s\<lparr>as_connectors := (as_connectors s)(k \<mapsto> x)\<rparr>)"
    if "update_dom dev s" "k < as_num_connector s" for s x
    using that by (auto simp: update_dom_def)
  have k: "k < as_num_connector st" using d ks by (auto simp: update_dom_def)
  have get: "update_dom dev s' \<and> as_num_connector s' = as_num_connector s"
    if "drm_atomic_get_crtc_state env dev s c = (r, s')" "update_dom dev s" "c < num_crtc dev" for s s' c r
    using get_crtc_dom [OF that(2,3,1)] that(1) by (auto simp: drm_atomic_get_crtc_state_def split: option.splits if_splits)
  define mid where "mid = (case co_crtc ks of None \<Rightarrow> st | Some c \<Rightarrow>
    (crtc_update c (\<lambda>cs. cs\<lparr>cs_connector_mask := cs_connector_mask cs AND NOT (push_bit k 1)\<rparr>) st)
      \<lparr>as_connectors := (as_connectors st)(k \<mapsto> ks\<lparr>co_crtc := None\<rparr>)\<rparr>)"
  have num: "as_num_connector (crtc_update c f s) = as_num_connector s" for c f s by (simp add: crtc_update_def)
  have mid: "update_dom dev mid" "k < as_num_connector mid"
    using d k link [of "crtc_update c f st" for c f] by (auto simp: mid_def num split: option.splits)
  have "st' = st \<or> st' = mid \<or> (\<exists>c r s. new = Some c \<and> drm_atomic_get_crtc_state env dev mid c = (r, s) \<and>
      (st' = s \<or> (\<exists>f x. st' = (crtc_update c f s)\<lparr>as_connectors := (as_connectors (crtc_update c f s))(k \<mapsto> x)\<rparr>)))"
    using set ks unfolding drm_atomic_set_crtc_for_connector_def mid_def
    by (auto simp: Let_def split: option.splits prod.splits bind_splits if_splits)
  then show ?thesis using d mid new get [OF _ mid(1)] link [of "crtc_update c f s" for c f s] by (fastforce simp: num)
qed

text \<open>The device after a commit.\<close>

lemma swap_current:
  assumes "update_dom dev st" and "drm_atomic_helper_swap_state wait dev st stall = (None, dev')"
  shows "crtc_current dev' c = (case as_crtcs st c of None \<Rightarrow> crtc_current dev c | Some cs \<Rightarrow> cs)"
    and "plane_current dev' p = (case as_planes st p of None \<Rightarrow> plane_current dev p | Some ps \<Rightarrow> ps)"
    and "connector_current dev' k = (case as_connectors st k of None \<Rightarrow> connector_current dev k | Some ks \<Rightarrow> ks)"
    and "num_crtc dev' = num_crtc dev" "num_total_plane dev' = num_total_plane dev" "connector_list dev' = connector_list dev"
proof -
  have d: "dev' = snd (drm_atomic_helper_swap_state wait dev st False)"
    using assms(2) by (simp add: drm_atomic_helper_swap_state_def Let_def split: if_splits)
  have "as_crtcs st c = None \<or> c < num_crtc dev" "as_planes st p = None \<or> p < num_total_plane dev"
    "as_connectors st k = None \<or> k < as_num_connector st"
    using assms(1) unfolding update_dom_def by blast+
  then show "crtc_current dev' c = (case as_crtcs st c of None \<Rightarrow> crtc_current dev c | Some cs \<Rightarrow> cs)"
    "plane_current dev' p = (case as_planes st p of None \<Rightarrow> plane_current dev p | Some ps \<Rightarrow> ps)"
    "connector_current dev' k = (case as_connectors st k of None \<Rightarrow> connector_current dev k | Some ks \<Rightarrow> ks)"
    by (auto simp: d drm_atomic_helper_swap_state_def split: option.splits)
  show "num_crtc dev' = num_crtc dev" "num_total_plane dev' = num_total_plane dev" "connector_list dev' = connector_list dev"
    by (simp_all add: d drm_atomic_helper_swap_state_def)
qed

text \<open>A CRTC that is not part of the update keeps its mask, and so do its planes and connectors.\<close>

lemma masks_agree_swap:
  assumes "masks_agree n (\<lambda>c. Some (cur c)) link" and "masks_agree n new link'"
    and "\<And>i c. new c = None \<Longrightarrow> (link i = Some c \<longleftrightarrow> link' i = Some c)"
  shows "masks_agree n (\<lambda>c. Some (case new c of None \<Rightarrow> cur c | Some m \<Rightarrow> m)) link'"
  using assms unfolding masks_agree_def by (auto split: option.splits)

lemma swap_wf:
  assumes dev: "device_wf dev" and wf: "update_wf dev st" and d: "update_dom dev st"
    and swap: "drm_atomic_helper_swap_state wait dev st stall = (None, dev')"
  shows "device_wf dev'"
proof -
  note cur = swap_current [OF d swap]
  have pl: "pl_crtc (plane_current dev' p) = plane_link dev st p" and co: "co_crtc (connector_current dev' k) = connector_link dev st k"
    for p k by (simp_all add: cur plane_link_def connector_link_def)
  have p: "pl_crtc (plane_current dev q) = Some c \<longleftrightarrow> plane_link dev st q = Some c" if "map_option f (as_crtcs st c) = None" for q c f
    using that update_wfD(3) [OF wf, of q _ c] by (auto simp: plane_link_def split: option.splits)
  have k: "co_crtc (connector_current dev q) = Some c \<longleftrightarrow> connector_link dev st q = Some c"
    if "map_option f (as_crtcs st c) = None" for q c f
    using that update_wfD(4) [OF wf, of q _ c] by (auto simp: connector_link_def split: option.splits)
  have m: "f (crtc_current dev' c) = (case map_option f (as_crtcs st c) of None \<Rightarrow> f (crtc_current dev c) | Some m \<Rightarrow> m)" for f c
    by (simp add: cur split: option.splits)
  have less: "c < num_crtc dev" if "plane_link dev st q = Some c \<or> connector_link dev st r = Some c" for q r c
  proof (cases "as_crtcs st c")
    case None
    with that p [of id] k [of id] dev show ?thesis by (auto simp: device_wf_def)
  next
    case (Some cs)
    with d show ?thesis by (auto simp: update_dom_def)
  qed
  have "masks_agree (num_total_plane dev) (\<lambda>c. Some (cs_plane_mask (crtc_current dev' c))) (plane_link dev st)"
    unfolding m by (rule masks_agree_swap [OF _ update_wfD(1) [OF wf] p]) (use dev in \<open>simp_all add: device_wf_def\<close>)
  moreover have "masks_agree 32 (\<lambda>c. Some (cs_connector_mask (crtc_current dev' c))) (connector_link dev st)"
    unfolding m by (rule masks_agree_swap [OF _ update_wfD(2) [OF wf] k]) (use dev in \<open>simp_all add: device_wf_def\<close>)
  ultimately show ?thesis using dev less unfolding device_wf_def pl co cur(4-6) by blast
qed

text \<open>
  The updates that the functions can build: \<open>failed\<close> says that the last function returned an error. After
  an error the update can only be cleared; the locks are dropped then, and the configuration of the device
  may be another one when the update is built again. After a commit the device has the states of the update and the
  next update starts. Other properties of planes and CRTCs may be set to anything.
\<close>

inductive atomic_update :: "drm_atomic_device \<Rightarrow> bool \<Rightarrow> drm_atomic_state \<Rightarrow> bool" where
  init: "device_wf dev \<Longrightarrow> atomic_update dev False drm_atomic_state_init"
| clear: "atomic_update dev failed st \<Longrightarrow> device_wf dev' \<Longrightarrow> num_crtc dev' = num_crtc dev \<Longrightarrow>
    num_total_plane dev' = num_total_plane dev \<Longrightarrow> atomic_update dev' False (drm_atomic_state_default_clear dev st)"
| get_crtc: "atomic_update dev False st \<Longrightarrow> c < num_crtc dev \<Longrightarrow>
    drm_atomic_get_crtc_state env dev st c = (ret, st') \<Longrightarrow> atomic_update dev (ret \<noteq> None) st'"
| get_plane: "atomic_update dev False st \<Longrightarrow> p < num_total_plane dev \<Longrightarrow>
    drm_atomic_get_plane_state env dev st p = (ret, st') \<Longrightarrow> atomic_update dev (ret \<noteq> None) st'"
| get_connector: "atomic_update dev False st \<Longrightarrow>
    drm_atomic_get_connector_state env dev st k = (ret, st') \<Longrightarrow> atomic_update dev (ret \<noteq> None) st'"
| set_plane: "atomic_update dev False st \<Longrightarrow> set_option new \<subseteq> {..<num_crtc dev} \<Longrightarrow>
    drm_atomic_set_crtc_for_plane env dev st p new = Some (ret, st') \<Longrightarrow> atomic_update dev (ret \<noteq> None) st'"
| set_connector: "atomic_update dev False st \<Longrightarrow> set_option new \<subseteq> {..<num_crtc dev} \<Longrightarrow>
    drm_atomic_set_crtc_for_connector env dev st k new = Some (ret, st') \<Longrightarrow> atomic_update dev (ret \<noteq> None) st'"
| set_fb: "atomic_update dev False st \<Longrightarrow> drm_atomic_set_fb_for_plane st p fb = Some st' \<Longrightarrow> atomic_update dev False st'"
| add_planes: "atomic_update dev False st \<Longrightarrow> c < num_crtc dev \<Longrightarrow>
    drm_atomic_add_affected_planes env dev st c = (ret, st') \<Longrightarrow> atomic_update dev (ret \<noteq> None) st'"
| add_connectors: "atomic_update dev False st \<Longrightarrow> c < num_crtc dev \<Longrightarrow>
    drm_atomic_add_affected_connectors env dev st c = (ret, st') \<Longrightarrow> atomic_update dev (ret \<noteq> None) st'"
| normalize: "atomic_update dev False st \<Longrightarrow> drm_atomic_normalize_zpos qsort env dev st = Some (ret, st') \<Longrightarrow>
    atomic_update dev (ret \<noteq> None) st'"
| plane_property: "atomic_update dev False st \<Longrightarrow> (\<And>ps. pl_crtc (f ps) = pl_crtc ps) \<Longrightarrow>
    atomic_update dev False (st\<lparr>as_planes := (as_planes st)(p := map_option f (as_planes st p))\<rparr>)"
| crtc_property: "atomic_update dev False st \<Longrightarrow> (\<And>cs. cs_plane_mask (g cs) = cs_plane_mask cs) \<Longrightarrow>
    (\<And>cs. cs_connector_mask (g cs) = cs_connector_mask cs) \<Longrightarrow> atomic_update dev False (crtc_update c g st)"
| commit: "atomic_update dev False st \<Longrightarrow> drm_atomic_helper_swap_state wait dev st stall = (None, dev') \<Longrightarrow>
    atomic_update dev' False drm_atomic_state_init"
| modeset: "atomic_update dev False st \<Longrightarrow> atomic_update dev False (st\<lparr>allow_modeset := b\<rparr>)"

lemma empty_update_wf:
  assumes "\<And>c. as_crtcs st c = None" "\<And>p. as_planes st p = None" "\<And>k. as_connectors st k = None"
  shows "update_wf dev st"
  by (rule update_wfI) (simp_all add: assms masks_agree_def)

lemma allow_modeset_wf: "update_wf dev st \<Longrightarrow> update_wf dev (st\<lparr>allow_modeset := b\<rparr>)"
  by (rule same_links_wf) simp_all

lemma set_fb_eq: "drm_atomic_set_fb_for_plane st p fb = Some st' \<Longrightarrow>
    st' = st\<lparr>as_planes := (as_planes st)(p := map_option (\<lambda>ps. ps\<lparr>pl_fb := fb\<rparr>) (as_planes st p))\<rparr>"
  by (auto simp: drm_atomic_set_fb_for_plane_def split: option.splits)

lemma clear_empty:
  assumes "update_dom dev st"
  shows "as_crtcs (drm_atomic_state_default_clear dev st) c = None" "as_planes (drm_atomic_state_default_clear dev st) p = None"
    "as_connectors (drm_atomic_state_default_clear dev st) k = None"
  using assms by (auto simp: update_dom_def drm_atomic_state_default_clear_def)

lemma atomic_update_inv:
  "atomic_update dev failed st \<Longrightarrow> device_wf dev \<and> update_dom dev st \<and> (\<not> failed \<longrightarrow> update_wf dev st)"
proof (induction rule: atomic_update.induct)
  case (init dev)
  then show ?case using empty_update_wf by (simp add: drm_atomic_state_init_def update_dom_def)
next
  case (clear dev failed st dev')
  then show ?case using clear_empty [of dev st] empty_update_wf by (simp add: update_dom_def)
next
  case (commit dev st wait stall dev')
  then show ?case using swap_wf [of dev st wait stall dev'] empty_update_wf by (simp add: drm_atomic_state_init_def update_dom_def)
next
  case (set_fb dev st p fb st')
  then show ?case using set_fb_eq [OF set_fb(2)] by (simp add: plane_update_wf)
next
  case (modeset dev st b)
  then show ?case by (simp add: allow_modeset_wf) (simp add: update_dom_def)
qed (auto simp: plane_update_wf crtc_update_wf
    dest: get_crtc_wf get_plane_wf get_connector_wf set_crtc_for_plane_wf set_crtc_for_connector_wf add_affected_wf normalize_zpos_wf
    get_crtc_dom get_plane_dom get_connector_dom set_crtc_for_plane_dom set_crtc_for_connector_dom add_affected_dom
    normalize_zpos_dom)

text \<open>
  C2. In every update that was built without an error, possibly after it was cleared and built again and after
  others were committed, the bit of a plane or connector is set in the mask of exactly the CRTC it is linked to in
  this update, or on the device if it is not part of the update. The masks of the device agree with its links
  too. The CRTCs of all planes and connectors of the update, the new and the old one, are part of it, and linking
  one of them never follows a null pointer. The device has at most 32 planes, and the indices of its
  connectors are below 32, as the masks have 32 bits.
\<close>

theorem atomic_masks_consistent:
  assumes "atomic_update dev False st"
  shows "(\<forall>c cs p. as_crtcs st c = Some cs \<and> p < num_total_plane dev \<longrightarrow>
      (bit (cs_plane_mask cs) p \<longleftrightarrow> plane_link dev st p = Some c)) \<and>
    (\<forall>c cs k. as_crtcs st c = Some cs \<and> k < 32 \<longrightarrow>
      (bit (cs_connector_mask cs) k \<longleftrightarrow> connector_link dev st k = Some c)) \<and>
    (\<forall>c p. p < num_total_plane dev \<longrightarrow>
      (bit (cs_plane_mask (crtc_current dev c)) p \<longleftrightarrow> pl_crtc (plane_current dev p) = Some c)) \<and>
    (\<forall>c k. k < 32 \<longrightarrow>
      (bit (cs_connector_mask (crtc_current dev c)) k \<longleftrightarrow> co_crtc (connector_current dev k) = Some c)) \<and>
    (\<forall>p ps c. as_planes st p = Some ps \<and> (pl_crtc ps = Some c \<or> pl_crtc (plane_current dev p) = Some c) \<longrightarrow>
      as_crtcs st c \<noteq> None) \<and>
    (\<forall>k ks c. as_connectors st k = Some ks \<and> (co_crtc ks = Some c \<or> co_crtc (connector_current dev k) = Some c) \<longrightarrow>
      as_crtcs st c \<noteq> None) \<and>
    (\<forall>env p new. as_planes st p \<noteq> None \<longrightarrow> drm_atomic_set_crtc_for_plane env dev st p new \<noteq> None) \<and>
    (\<forall>env k new. as_connectors st k \<noteq> None \<longrightarrow> drm_atomic_set_crtc_for_connector env dev st k new \<noteq> None)"
proof -
  from atomic_update_inv [OF assms] have wf: "update_wf dev st" and dev: "device_wf dev" by simp_all
  have "masks_agree (num_total_plane dev) (\<lambda>c. Some (cs_plane_mask (crtc_current dev c))) (\<lambda>p. pl_crtc (plane_current dev p))"
    "masks_agree 32 (\<lambda>c. Some (cs_connector_mask (crtc_current dev c))) (\<lambda>k. co_crtc (connector_current dev k))"
    using dev by (simp_all add: device_wf_def)
  then show ?thesis
    using update_wfD [OF wf] set_crtc_defined [OF wf] unfolding masks_agree_def by (intro conjI allI impI) auto
qed

text \<open>A device with two CRTCs, one plane and one connector, and an update that moves the plane to the other CRTC.\<close>

definition example_crtc :: "u32 \<Rightarrow> drm_crtc_state" where
  "example_crtc m =
     \<lparr>cs_enable = True, cs_active = True, cs_planes_changed = False, cs_mode_changed = False, cs_active_changed = False,
      cs_connectors_changed = False, cs_zpos_changed = False, cs_color_mgmt_changed = False, cs_plane_mask = m,
      cs_connector_mask = m, cs_mode_blob = True, cs_event = False\<rparr>"

definition example_plane :: "nat option \<Rightarrow> u32 \<Rightarrow> drm_plane_state" where
  "example_plane crtc zpos =
     \<lparr>pl_crtc = crtc, pl_fb = None, pl_crtc_x = 0, pl_crtc_y = 0, pl_crtc_w = 640, pl_crtc_h = 480, pl_src_x = 0, pl_src_y = 0,
      pl_src_w = 0x2800000, pl_src_h = 0x1e00000, pl_rotation = 1, pl_zpos = zpos, pl_normalized_zpos = 0,
      pl_src = \<lparr>rect_x1 = 0, rect_y1 = 0, rect_x2 = 0, rect_y2 = 0\<rparr>,
      pl_dst = \<lparr>rect_x1 = 0, rect_y1 = 0, rect_x2 = 0, rect_y2 = 0\<rparr>, pl_visible = False\<rparr>"

definition example_device :: drm_atomic_device where
  "example_device =
     \<lparr>num_crtc = 2, num_total_plane = 1, num_connector = 1, connector_list = [0], crtc_current = \<lambda>c. example_crtc (if c = 0 then 1 else 0),
      plane_current = \<lambda>p. example_plane (if p = 0 then Some 0 else None) 0,
      connector_current = \<lambda>k. \<lparr>co_crtc = if k = 0 then Some 0 else None\<rparr>,
      plane_base_id = \<lambda>p. of_nat (30 + p), possible_crtcs = \<lambda>p. 3, format_types = \<lambda>p. []\<rparr>"

definition example_env :: atomic_env where
  "example_env = \<lparr>env_lock = \<lambda>x. None, env_duplicate = \<lambda>x. True, env_krealloc = True, env_kmalloc = \<lambda>c. True\<rparr>"

definition example_update :: drm_atomic_state where
  "example_update = snd (the (drm_atomic_set_crtc_for_plane example_env example_device
     (snd (drm_atomic_get_plane_state example_env example_device drm_atomic_state_init 0)) 0 (Some 1)))"

lemmas example_defs = example_device_def example_env_def example_crtc_def example_plane_def drm_atomic_get_plane_state_def
  drm_atomic_get_crtc_state_def drm_atomic_state_init_def drm_atomic_helper_plane_duplicate_state_def
  drm_atomic_helper_crtc_duplicate_state_def drm_atomic_set_crtc_for_plane_def crtc_update_def

lemma example_device_wf: "device_wf example_device"
  by (auto simp: device_wf_def example_device_def masks_agree_def example_crtc_def example_plane_def bit_1_iff)

lemma example_update_built: "atomic_update example_device False example_update"
proof -
  let ?st = "snd (drm_atomic_get_plane_state example_env example_device drm_atomic_state_init 0)"
  have "drm_atomic_get_plane_state example_env example_device drm_atomic_state_init 0 = (None, ?st)"
    by (simp add: example_defs)
  from atomic_update.get_plane [OF atomic_update.init [OF example_device_wf] _ this]
  have "atomic_update example_device False ?st" by (simp add: example_device_def)
  moreover have "drm_atomic_set_crtc_for_plane example_env example_device ?st 0 (Some 1) = Some (None, example_update)"
    by (simp add: example_update_def example_defs)
  ultimately show ?thesis using atomic_update.set_plane [of example_device ?st "Some 1" example_env 0 None]
    by (simp add: example_device_def)
qed

theorem atomic_masks_consistent_witness:
  "as_planes example_update 0 = Some (example_plane (Some 1) 0) \<and> cs_plane_mask (the (as_crtcs example_update 0)) = 0 \<and>
   bit (cs_plane_mask (the (as_crtcs example_update 1))) 0"
proof -
  have p: "as_planes example_update 0 = Some (example_plane (Some 1) 0)" and c: "as_crtcs example_update 1 \<noteq> None"
    and m: "cs_plane_mask (the (as_crtcs example_update 0)) = 0"
    by (simp_all add: example_update_def example_defs)
  have "bit (cs_plane_mask (the (as_crtcs example_update 1))) 0"
    using atomic_masks_consistent [OF example_update_built] c p
    by (auto simp: plane_link_def example_plane_def example_device_def)
  with p m show ?thesis by blast
qed

end
