(* ===== verification/Atomic_Check.thy ===== *)
theory Atomic_Check
  imports Atomic_Correct Rect_Correct
begin

text \<open>
  What the checks of an atomic update guarantee: the checks of the core (\<^verbatim>\<open>drm_atomic_check_only\<close>), and together
  with the helper that clips a plane, that a visible plane never reads outside of its framebuffer. Then the
  normalisation of plane positions, which rests on the sort of \<open>Sort_Correct\<close>.
\<close>

unbundle bit_operations_syntax

section \<open>Checks of the core\<close>

lemma first_failure_none:
  "first_failure check states is = None \<longleftrightarrow> (\<forall>i\<in>set is. \<forall>s. states i = Some s \<longrightarrow> check i s = None)"
  by (induction "is") (auto split: option.splits)

text \<open>The range checks in integers.\<close>

lemma sint_uint_small: "uint w < 2 ^ 31 \<Longrightarrow> sint w = uint w" for w :: u32
proof -
  have "- (2 ^ 31) \<le> uint w" by (rule order_trans [OF _ uint_ge_0]) simp
  moreover assume "uint w < 2 ^ 31"
  ultimately show ?thesis by (simp add: sint_uint signed_take_bit_int_eq_self)
qed

lemma dest_check:
  fixes x w :: u32
  assumes "\<not> w > INT_MAX" and "\<not> sint x > sint (INT_MAX - w)"
  shows "uint w < 2 ^ 31" and "sint x + uint w < 2 ^ 31"
proof -
  show w: "uint w < 2 ^ 31" using assms(1) by (simp add: INT_MAX_def word_less_def)
  have m: "sint INT_MAX = 2 ^ 31 - 1" by (simp add: INT_MAX_def)
  have "sint (INT_MAX - w) = 2 ^ 31 - 1 - uint w"
    using w uint_ge_0 [of w] sint_diff [of INT_MAX w] unfolding m sint_uint_small [OF w] by linarith
  with assms(2) show "sint x + uint w < 2 ^ 31" by simp
qed

lemma src_check:
  fixes x w W :: u32
  assumes "\<not> w > W" and "\<not> x > W - w"
  shows "uint x + uint w \<le> uint W"
proof -
  have "uint (W - w) = uint W - uint w" using assms(1) by (simp add: uint_sub_lem [THEN iffD1] word_le_def not_less)
  with assms(2) show ?thesis by (simp add: word_less_def not_less)
qed

lemma fixed_point_width: "uint w < 2 ^ 16 \<Longrightarrow> uint (push_bit 16 w) = uint w * 2 ^ 16" for w :: u32
  using uint_mult_lem [of w 65536] by (simp add: push_bit_eq_mult)

text \<open>What a plane with a CRTC and a framebuffer satisfies after the check.\<close>

definition plane_state_valid :: "drm_atomic_device \<Rightarrow> nat \<Rightarrow> drm_plane_state \<Rightarrow> bool" where
  "plane_state_valid dev p ps \<longleftrightarrow>
     (case (pl_crtc ps, pl_fb ps) of
        (None, None) \<Rightarrow> True
      | (Some c, Some fb) \<Rightarrow>
          bit (possible_crtcs dev p) c \<and> fi_format (fb_format fb) \<in> set (format_types dev p) \<and>
          uint (pl_crtc_w ps) < 2 ^ 31 \<and> sint (pl_crtc_x ps) + uint (pl_crtc_w ps) < 2 ^ 31 \<and>
          uint (pl_crtc_h ps) < 2 ^ 31 \<and> sint (pl_crtc_y ps) + uint (pl_crtc_h ps) < 2 ^ 31 \<and>
          uint (pl_src_x ps) + uint (pl_src_w ps) \<le> uint (push_bit 16 (fb_width fb)) \<and>
          uint (pl_src_y ps) + uint (pl_src_h ps) \<le> uint (push_bit 16 (fb_height fb)) \<and>
          pl_crtc (plane_current dev p) \<in> {None, Some c}
      | _ \<Rightarrow> False)"

lemma plane_check_valid:
  assumes "drm_atomic_plane_check dev p ps = None"
  shows "plane_state_valid dev p ps"
proof (cases "(pl_crtc ps, pl_fb ps)")
  case (Pair crtc fb)
  show ?thesis
  proof (cases "crtc = None \<or> fb = None")
    case True
    with Pair assms show ?thesis
      by (auto simp: drm_atomic_plane_check_def plane_state_valid_def split: option.splits)
  next
    case False
    then obtain c f where cf: "pl_crtc ps = Some c" "pl_fb ps = Some f" using Pair by auto
    have *: "possible_crtcs dev p AND push_bit c 1 \<noteq> 0" "fi_format (fb_format f) \<in> set (format_types dev p)"
      "\<not> pl_crtc_w ps > INT_MAX" "\<not> sint (pl_crtc_x ps) > sint (INT_MAX - pl_crtc_w ps)"
      "\<not> pl_crtc_h ps > INT_MAX" "\<not> sint (pl_crtc_y ps) > sint (INT_MAX - pl_crtc_h ps)"
      "\<not> pl_src_w ps > push_bit 16 (fb_width f)" "\<not> pl_src_x ps > push_bit 16 (fb_width f) - pl_src_w ps"
      "\<not> pl_src_h ps > push_bit 16 (fb_height f)" "\<not> pl_src_y ps > push_bit 16 (fb_height f) - pl_src_h ps"
      "\<not> plane_switching_crtc dev p ps"
      using assms cf unfolding drm_atomic_plane_check_def drm_plane_check_pixel_format_def Let_def
      by (auto split: if_splits option.splits)
    show ?thesis
      using *(1,2,11) dest_check [OF *(3,4)] dest_check [OF *(5,6)] src_check [OF *(7,8)] src_check [OF *(9,10)] cf
      by (auto simp: plane_state_valid_def plane_switching_crtc_def bit_iff_and_push_bit_not_eq_0)
  qed
qed

lemma crtc_check_none:
  "drm_atomic_crtc_check atomic dev c cs = None \<longleftrightarrow>
     (cs_active cs \<longrightarrow> cs_enable cs) \<and> (atomic \<longrightarrow> (cs_enable cs \<longleftrightarrow> cs_mode_blob cs)) \<and>
     (cs_event cs \<longrightarrow> cs_active cs \<or> cs_active (crtc_current dev c))"
  by (auto simp: drm_atomic_crtc_check_def)

text \<open>
  C16. When the check of an update succeeds, every plane of the update is valid: it has both or none of CRTC and
  framebuffer, and if it has them it can be used with this CRTC, supports the format, its destination does not
  overflow, its source lies inside of the framebuffer, and it does not move directly from another CRTC. Active
  CRTCs are enabled, enabled ones have a mode, and events are only for CRTCs that are or were active. No CRTC needs
  a mode set after the hook of the driver unless the update allows it.
\<close>

theorem atomic_check_safe:
  assumes "drm_atomic_check_only atomic dev hook st = (None, st')"
  shows "(\<forall>p ps. p < num_total_plane dev \<and> as_planes st p = Some ps \<longrightarrow> plane_state_valid dev p ps) \<and>
    (\<forall>c cs. c < num_crtc dev \<and> as_crtcs st c = Some cs \<longrightarrow> (cs_active cs \<longrightarrow> cs_enable cs) \<and>
      (atomic \<longrightarrow> (cs_enable cs \<longleftrightarrow> cs_mode_blob cs)) \<and>
      (cs_event cs \<longrightarrow> cs_active cs \<or> cs_active (crtc_current dev c))) \<and>
    (allow_modeset st' \<or> (\<forall>c cs. c < num_crtc dev \<and> as_crtcs st' c = Some cs \<longrightarrow>
      \<not> cs_mode_changed cs \<and> \<not> cs_active_changed cs \<and> \<not> cs_connectors_changed cs))"
proof -
  have p: "first_failure (drm_atomic_plane_check dev) (as_planes st) [0..<num_total_plane dev] = None"
    and c: "first_failure (drm_atomic_crtc_check atomic dev) (as_crtcs st) [0..<num_crtc dev] = None"
    and m: "allow_modeset st' \<or> first_failure (\<lambda>i cs. if drm_atomic_crtc_needs_modeset cs then Some EINVAL else None)
      (as_crtcs st') [0..<num_crtc dev] = None"
    using assms by (auto simp: drm_atomic_check_only_def split: option.splits prod.splits if_splits)
  have "plane_state_valid dev q ps" if "q < num_total_plane dev" "as_planes st q = Some ps" for q ps
    using p that by (auto simp: first_failure_none intro: plane_check_valid)
  moreover have "(cs_active cs \<longrightarrow> cs_enable cs) \<and> (atomic \<longrightarrow> (cs_enable cs \<longleftrightarrow> cs_mode_blob cs)) \<and>
      (cs_event cs \<longrightarrow> cs_active cs \<or> cs_active (crtc_current dev i))" if "i < num_crtc dev" "as_crtcs st i = Some cs" for i cs
    using c that by (simp add: first_failure_none crtc_check_none)
  moreover have "\<not> drm_atomic_crtc_needs_modeset cs"
    if "\<not> allow_modeset st'" "i < num_crtc dev" "as_crtcs st' i = Some cs" for i cs
    using m that by (auto simp: first_failure_none split: if_splits)
  ultimately show ?thesis unfolding drm_atomic_crtc_needs_modeset_def by blast
qed

section \<open>Clipping a plane\<close>

text \<open>A rectangle, not turned inside out, inside of a framebuffer of the given size.\<close>

definition rect_within :: "int \<Rightarrow> int \<Rightarrow> drm_rect \<Rightarrow> bool" where
  "rect_within w h r \<longleftrightarrow> 0 \<le> sint (rect_x1 r) \<and> sint (rect_x1 r) \<le> sint (rect_x2 r) \<and> sint (rect_x2 r) \<le> w \<and>
     0 \<le> sint (rect_y1 r) \<and> sint (rect_y1 r) \<le> sint (rect_y2 r) \<and> sint (rect_y2 r) \<le> h"

definition swaps_axes :: "u32 \<Rightarrow> bool" where
  "swaps_axes rotation \<longleftrightarrow> rotation AND DRM_MODE_ROTATE_MASK \<in> {DRM_MODE_ROTATE_90, DRM_MODE_ROTATE_270}"

lemma sint_mirror: "0 \<le> sint a \<Longrightarrow> sint a \<le> sint w \<Longrightarrow> sint (w - a) = sint w - sint a" for a w :: s32
  using sint_range [of w] by (intro sint_diff) simp_all

lemma reflect_within: "rect_within (sint w) (sint h) r \<Longrightarrow> rect_within (sint w) (sint h) (rect_reflect w h rot r)"
  unfolding rect_reflect_bits Let_def rect_within_def by (simp add: sint_mirror)

lemma rotate_within:
  assumes "rect_within (sint w) (sint h) r"
  shows "if swaps_axes rot then rect_within (sint h) (sint w) (drm_rect_rotate w h rot r)
    else rect_within (sint w) (sint h) (drm_rect_rotate w h rot r)"
  using reflect_within [OF assms, of rot] unfolding drm_rect_rotate_def Let_def swaps_axes_def rotate_masks
  by (simp add: rotate_consts rect_within_def sint_mirror)

lemma rotate_inv_within:
  assumes "if swaps_axes rot then rect_within (sint h) (sint w) r else rect_within (sint w) (sint h) r"
  shows "rect_within (sint w) (sint h) (drm_rect_rotate_inv w h rot r)"
  unfolding drm_rect_rotate_inv_def Let_def
  by (rule reflect_within) (use assms in \<open>auto simp: swaps_axes_def rotate_masks rotate_consts rect_within_def sint_mirror\<close>)

text \<open>The scale is rounded down, so the scaled destination is not larger than the source.\<close>

lemma clip_fits_1d:
  fixes a1 a2 b1 b2 c1 c2 s :: int
  assumes "(b2 - b1) * s \<le> a2 - a1" and "0 \<le> s" and "max b1 c1 < min b2 c2"
  defines "a1' \<equiv> (if c1 - b1 > 0 then a1 + (c1 - b1) * s else a1)"
    and "a2' \<equiv> (if b2 - c2 > 0 then a2 - (b2 - c2) * s else a2)"
  shows "a1 \<le> a1'" "a1' \<le> a2'" "a2' \<le> a2"
proof -
  have e: "a1' = a1 + max 0 (c1 - b1) * s" "a2' = a2 - max 0 (b2 - c2) * s"
    by (simp_all add: a1'_def a2'_def)
  show "a1 \<le> a1'" "a2' \<le> a2" using assms(2) by (simp_all add: e)
  have "max 0 (c1 - b1) + max 0 (b2 - c2) \<le> b2 - b1" using assms(3) by auto
  then have "(max 0 (c1 - b1) + max 0 (b2 - c2)) * s \<le> (b2 - b1) * s" using assms(2) by (rule mult_right_mono)
  with assms(1) show "a1' \<le> a2'" unfolding e by (simp add: algebra_simps)
qed

lemma clip_scaled_within:
  assumes small: "rect_small dst" "rect_small clip"
    and fits: "(sint (rect_x2 dst) - sint (rect_x1 dst)) * sint hs \<le> sint (rect_x2 src) - sint (rect_x1 src)"
      "(sint (rect_y2 dst) - sint (rect_y1 dst)) * sint vs \<le> sint (rect_y2 src) - sint (rect_y1 src)"
    and pos: "0 \<le> sint hs" "0 \<le> sint vs" and src: "rect_within w h src"
    and clip: "drm_rect_clip_scaled src dst clip hs vs = (True, src', dst')"
  shows "rect_within w h src'" and "rect_inside dst' clip" and "rect_inside dst' dst" and "drm_rect_visible dst'"
proof -
  note c = clip_scaled_coords [OF small, of src hs vs, unfolded clip fst_conv snd_conv]
  have dst': "dst' = snd (drm_rect_intersect dst clip)" and vis: "fst (drm_rect_intersect dst clip)" using c(5,6) by simp_all
  then show "rect_inside dst' clip" "rect_inside dst' dst" "drm_rect_visible dst'"
    by (simp_all add: rect_inside_def intersect_coords intersect_visible)
  from vis have v: "max (sint (rect_x1 dst)) (sint (rect_x1 clip)) < min (sint (rect_x2 dst)) (sint (rect_x2 clip))"
    "max (sint (rect_y1 dst)) (sint (rect_y1 clip)) < min (sint (rect_y2 dst)) (sint (rect_y2 clip))"
    unfolding intersect_visible rect_visible_small [OF rect_small_intersect [OF small]] intersect_coords by simp_all
  note x = clip_fits_1d [OF fits(1) pos(1) v(1)] and y = clip_fits_1d [OF fits(2) pos(2) v(2)]
  have r: "- (2 ^ 31) \<le> sint (rect_x1 src)" "sint (rect_x2 src) < 2 ^ 31"
    "- (2 ^ 31) \<le> sint (rect_y1 src)" "sint (rect_y2 src) < 2 ^ 31" by (rule sint_range)+
  have s: "sint (rect_x1 src') = (if sint (rect_x1 clip) - sint (rect_x1 dst) > 0
      then sint (rect_x1 src) + (sint (rect_x1 clip) - sint (rect_x1 dst)) * sint hs else sint (rect_x1 src))"
    "sint (rect_x2 src') = (if sint (rect_x2 dst) - sint (rect_x2 clip) > 0
      then sint (rect_x2 src) - (sint (rect_x2 dst) - sint (rect_x2 clip)) * sint hs else sint (rect_x2 src))"
    "sint (rect_y1 src') = (if sint (rect_y1 clip) - sint (rect_y1 dst) > 0
      then sint (rect_y1 src) + (sint (rect_y1 clip) - sint (rect_y1 dst)) * sint vs else sint (rect_y1 src))"
    "sint (rect_y2 src') = (if sint (rect_y2 dst) - sint (rect_y2 clip) > 0
      then sint (rect_y2 src) - (sint (rect_y2 dst) - sint (rect_y2 clip)) * sint vs else sint (rect_y2 src))"
    unfolding c using x y r by (auto intro!: sint_clamp_id split: if_splits)
  have "sint (rect_x1 src) \<le> sint (rect_x1 src')" "sint (rect_x1 src') \<le> sint (rect_x2 src')"
    "sint (rect_x2 src') \<le> sint (rect_x2 src)" "sint (rect_y1 src) \<le> sint (rect_y1 src')"
    "sint (rect_y1 src') \<le> sint (rect_y2 src')" "sint (rect_y2 src') \<le> sint (rect_y2 src)"
    unfolding s by (rule x y)+
  with src show "rect_within w h src'" unfolding rect_within_def by linarith
qed

lemma hscale_fits:
  assumes "drm_rect_calc_hscale src dst lo hi = Inr hs" and "rect_within w h src" and "rect_small dst"
    and "sint (rect_x1 dst) < sint (rect_x2 dst)"
  shows "0 \<le> sint hs" and "(sint (rect_x2 dst) - sint (rect_x1 dst)) * sint hs \<le> sint (rect_x2 src) - sint (rect_x1 src)"
proof -
  have s: "sint (drm_rect_width src) = sint (rect_x2 src) - sint (rect_x1 src)" "0 \<le> sint (drm_rect_width src)"
    using assms(2) sint_mirror [of "rect_x1 src" "rect_x2 src"] by (auto simp: drm_rect_width_def rect_within_def)
  have d: "sint (drm_rect_width dst) = sint (rect_x2 dst) - sint (rect_x1 dst)" "0 < sint (drm_rect_width dst)"
    using assms(3,4) by (simp_all add: drm_rect_width_def rect_small_def sint_diff_small)
  have "hs = s32_div (drm_rect_width src) (drm_rect_width dst)"
    using assms(1) d(2) by (auto simp: drm_rect_calc_hscale_def drm_calc_scale_def Let_def split: if_splits)
  then have hs: "sint hs = sint (drm_rect_width src) div sint (drm_rect_width dst)" by (simp add: s32_div_pos [OF s(2) d(2)])
  then show "0 \<le> sint hs" using s(2) d(2) by (simp add: pos_imp_zdiv_nonneg_iff)
  show "(sint (rect_x2 dst) - sint (rect_x1 dst)) * sint hs \<le> sint (rect_x2 src) - sint (rect_x1 src)"
    using mult_div_le [OF d(2), of "sint (drm_rect_width src)"] unfolding hs s(1) d(1) .
qed

text \<open>The same for the other axis.\<close>

lemma vscale_fits:
  assumes "drm_rect_calc_vscale src dst lo hi = Inr vs" and "rect_within w h src" and "rect_small dst"
    and "sint (rect_y1 dst) < sint (rect_y2 dst)"
  shows "0 \<le> sint vs" and "(sint (rect_y2 dst) - sint (rect_y1 dst)) * sint vs \<le> sint (rect_y2 src) - sint (rect_y1 src)"
proof -
  have "rect_within h w (rect_flip src)" "rect_small (rect_flip dst)"
    "sint (rect_x1 (rect_flip dst)) < sint (rect_x2 (rect_flip dst))"
    using assms(2-4) by (auto simp: rect_within_def rect_small_def rect_flip_def)
  from hscale_fits [OF assms(1) [unfolded vscale_flip] this]
  show "0 \<le> sint vs" "(sint (rect_y2 dst) - sint (rect_y1 dst)) * sint vs \<le> sint (rect_y2 src) - sint (rect_y1 src)"
    by (simp_all add: rect_flip_def)
qed

text \<open>The source of a plane that passed the check of the core.\<close>

lemma src_within:
  assumes "plane_state_valid dev p ps" and "pl_crtc ps = Some c" and "pl_fb ps = Some fb"
    and "uint (fb_width fb) < 2 ^ 15" and "uint (fb_height fb) < 2 ^ 15"
  shows "rect_within (sint (push_bit 16 (fb_width fb))) (sint (push_bit 16 (fb_height fb))) (drm_plane_state_src ps)"
    and "sint (push_bit 16 (fb_width fb)) = uint (fb_width fb) * 2 ^ 16"
    and "sint (push_bit 16 (fb_height fb)) = uint (fb_height fb) * 2 ^ 16"
proof -
  have size: "uint (push_bit 16 n) = uint n * 2 ^ 16" "sint (push_bit 16 n) = uint n * 2 ^ 16" if "uint n < 2 ^ 15" for n :: u32
  proof -
    show u: "uint (push_bit 16 n) = uint n * 2 ^ 16" using that by (intro fixed_point_width) simp
    then show "sint (push_bit 16 n) = uint n * 2 ^ 16" using that sint_uint_small [of "push_bit 16 n"] by simp
  qed
  show "sint (push_bit 16 (fb_width fb)) = uint (fb_width fb) * 2 ^ 16" "sint (push_bit 16 (fb_height fb)) = uint (fb_height fb) * 2 ^ 16"
    using size assms(4,5) by blast+
  have ends: "0 \<le> sint x \<and> sint x \<le> sint (x + n) \<and> sint (x + n) \<le> sint (push_bit 16 m)"
    if "uint x + uint n \<le> uint (push_bit 16 m)" "uint m < 2 ^ 15" for x n m :: u32
  proof -
    have b: "uint x + uint n < 2 ^ 31" using that size [OF that(2)] by simp
    have "uint (x + n) = uint x + uint n" using b by (intro uint_add_lem [THEN iffD1]) simp
    moreover have "sint x = uint x" using b uint_ge_0 [of n] by (intro sint_uint_small) linarith
    moreover have "sint (x + n) = uint (x + n)" using b calculation(1) by (intro sint_uint_small) simp
    ultimately show ?thesis using that(1) size [OF that(2)] by simp
  qed
  show "rect_within (sint (push_bit 16 (fb_width fb))) (sint (push_bit 16 (fb_height fb))) (drm_plane_state_src ps)"
    using assms(1-3) ends [OF _ assms(4), of "pl_src_x ps" "pl_src_w ps"] ends [OF _ assms(5), of "pl_src_y ps" "pl_src_h ps"]
    by (simp add: plane_state_valid_def rect_within_def drm_plane_state_src_def)
qed

text \<open>
  C5. A plane that passed the checks of the core and the helper and is visible is scanned out safely, for every
  rotation and reflection and every scale that the driver accepts: its clipped destination is not empty and lies
  inside of the clip rectangle and of the requested destination, and its clipped source, in 16.16 fixed point, lies
  inside of the framebuffer and is not turned inside out. The framebuffer is smaller than 32768 pixels in each
  direction, and the coordinates of destination and clip rectangle have less than 30 bits.
\<close>

theorem plane_scanout_safe:
  assumes check: "drm_atomic_plane_check dev p ps = None" and fb: "pl_crtc ps = Some c" "pl_fb ps = Some fb"
    and size: "uint (fb_width fb) < 2 ^ 15" "uint (fb_height fb) < 2 ^ 15"
    and small: "rect_small (drm_plane_state_dest ps)" "rect_small clip"
    and helper: "drm_atomic_helper_check_plane_state ps cs clip lo hi pos upd = (None, ps')" and vis: "pl_visible ps'"
  shows "rect_within (uint (fb_width fb) * 2 ^ 16) (uint (fb_height fb) * 2 ^ 16) (pl_src ps') \<and>
    rect_inside (pl_dst ps') clip \<and> rect_inside (pl_dst ps') (drm_plane_state_dest ps) \<and> drm_rect_visible (pl_dst ps') \<and>
    (pos \<or> drm_rect_equals (pl_dst ps') clip)"
proof -
  let ?w = "push_bit 16 (fb_width fb)" and ?h = "push_bit 16 (fb_height fb)" and ?rot = "pl_rotation ps"
  let ?dst = "drm_plane_state_dest ps"
  define src where "src = drm_rect_rotate ?w ?h ?rot (drm_plane_state_src ps)"
  obtain hs vs src' dst' where h: "drm_rect_calc_hscale src ?dst lo hi = Inr hs" "drm_rect_calc_vscale src ?dst lo hi = Inr vs"
    "drm_rect_clip_scaled src ?dst clip hs vs = (True, src', dst')"
    "pl_src ps' = drm_rect_rotate_inv ?w ?h ?rot src'" "pl_dst ps' = dst'" "pos \<or> drm_rect_equals dst' clip"
    using helper vis fb unfolding drm_atomic_helper_check_plane_state_def src_def
    by (auto simp: Let_def split: sum.splits prod.splits if_splits)
  note within = src_within [OF plane_check_valid [OF check] fb size]
  define w h where "w = (if swaps_axes ?rot then sint ?h else sint ?w)" and "h = (if swaps_axes ?rot then sint ?w else sint ?h)"
  have src: "rect_within w h src" using rotate_within [OF within(1), of ?rot] by (simp add: src_def w_def h_def split: if_splits)
  have "fst (drm_rect_intersect ?dst clip)" using clip_scaled_coords(6) [OF small, of src hs vs] h(3) by simp
  then have ne: "sint (rect_x1 ?dst) < sint (rect_x2 ?dst)" "sint (rect_y1 ?dst) < sint (rect_y2 ?dst)"
    unfolding intersect_visible rect_visible_small [OF rect_small_intersect [OF small]] intersect_coords by simp_all
  note hf = hscale_fits [OF h(1) src small(1) ne(1)] and vf = vscale_fits [OF h(2) src small(1) ne(2)]
  note clip = clip_scaled_within [OF small hf(2) vf(2) hf(1) vf(1) src h(3)]
  have "rect_within (sint ?w) (sint ?h) (pl_src ps')"
    using clip(1) unfolding h(4) by (intro rotate_inv_within) (simp add: w_def h_def split: if_splits)
  with within(2,3) clip(2-4) h(5,6) show ?thesis by simp
qed

text \<open>A plane of 640 by 480 pixels, moved ten pixels to the left.\<close>

definition example_fb :: drm_framebuffer where
  "example_fb = \<lparr>fb_base_id = 1, fb_width = 640, fb_height = 480, fb_format = fmt 0x34325258 24 1 [4, 0, 0] 1 1\<rparr>"

definition example_scanout :: drm_plane_state where
  "example_scanout = (example_plane (Some 0) 0)\<lparr>pl_fb := Some example_fb, pl_crtc_x := -10\<rparr>"

definition example_formats :: drm_atomic_device where
  "example_formats = example_device\<lparr>format_types := \<lambda>p. [0x34325258]\<rparr>"

lemmas example_scanout_defs = example_scanout_def example_fb_def example_formats_def example_device_def example_plane_def

lemma example_scanout_check: "drm_atomic_plane_check example_formats 0 example_scanout = None"
  by (simp add: drm_atomic_plane_check_def drm_plane_check_pixel_format_def plane_switching_crtc_def INT_MAX_def
      example_scanout_defs)

theorem atomic_check_safe_witness:
  "plane_state_valid example_formats 0 example_scanout"
proof -
  have "drm_atomic_check_only True example_formats None (drm_atomic_state_init\<lparr>as_planes := [0 \<mapsto> example_scanout]\<rparr>) =
      (None, drm_atomic_state_init\<lparr>as_planes := [0 \<mapsto> example_scanout]\<rparr>)"
    using example_scanout_check
    by (simp add: drm_atomic_check_only_def drm_atomic_state_init_def example_formats_def example_device_def upt_rec)
  from atomic_check_safe [OF this] show ?thesis by (simp add: example_formats_def example_device_def)
qed

theorem plane_scanout_safe_witness:
  "\<exists>ps'. drm_atomic_helper_check_plane_state example_scanout (example_crtc 1)
      \<lparr>rect_x1 = 0, rect_y1 = 0, rect_x2 = 640, rect_y2 = 480\<rparr> 0x10000 0x10000 True False = (None, ps') \<and>
    rect_x1 (pl_src ps') = 0xa0000 \<and> rect_x2 (pl_dst ps') = 630 \<and> rect_within (640 * 2 ^ 16) (480 * 2 ^ 16) (pl_src ps')"
proof -
  let ?clip = "\<lparr>rect_x1 = 0, rect_y1 = 0, rect_x2 = 640, rect_y2 = 480\<rparr>"
  define ps' where "ps' = snd (drm_atomic_helper_check_plane_state example_scanout (example_crtc 1) ?clip 0x10000 0x10000 True False)"
  have helper: "drm_atomic_helper_check_plane_state example_scanout (example_crtc 1) ?clip 0x10000 0x10000 True False = (None, ps')"
    and vis: "pl_visible ps'" "rect_x1 (pl_src ps') = 0xa0000" "rect_x2 (pl_dst ps') = 630"
    unfolding ps'_def by code_simp+
  have f: "pl_crtc example_scanout = Some 0" "pl_fb example_scanout = Some example_fb"
    and s: "uint (fb_width example_fb) < 2 ^ 15" "uint (fb_height example_fb) < 2 ^ 15"
      "rect_small (drm_plane_state_dest example_scanout)" "rect_small ?clip"
    by (simp_all add: example_scanout_defs drm_plane_state_dest_def rect_small_def coord_small_def)
  from plane_scanout_safe [OF example_scanout_check f s helper vis(1)] vis(2,3) helper show ?thesis
    by (auto simp: example_fb_def)
qed

section \<open>Positions of planes\<close>

definition plane_of :: "drm_atomic_device \<Rightarrow> drm_atomic_state \<Rightarrow> nat \<Rightarrow> drm_plane_state" where
  "plane_of dev st p = (case as_planes st p of None \<Rightarrow> plane_current dev p | Some ps \<Rightarrow> ps)"

text \<open>The comparison is an order where the differences fit into an \<^verbatim>\<open>int\<close>.\<close>

definition zpos_small :: "drm_atomic_device \<Rightarrow> (nat \<Rightarrow> drm_plane_state option) \<Rightarrow> nat set" where
  "zpos_small dev states = {p. uint (pl_zpos (the (states p))) < 2 ^ 31 \<and> uint (plane_base_id dev p) < 2 ^ 31}"

lemma sint_diff_uint: "uint a < 2 ^ 31 \<Longrightarrow> uint b < 2 ^ 31 \<Longrightarrow> sint (a - b) = uint a - uint b" for a b :: u32
  using sint_diff [of a b] uint_ge_0 [of a] uint_ge_0 [of b] sint_range [of a] sint_range [of b] by (simp add: sint_uint_small)

lemma zpos_cmp_small:
  assumes "p \<in> zpos_small dev states" and "q \<in> zpos_small dev states"
  shows "drm_atomic_state_zpos_cmp dev states p q =
    (if uint (pl_zpos (the (states p))) \<noteq> uint (pl_zpos (the (states q)))
     then uint (pl_zpos (the (states p))) - uint (pl_zpos (the (states q)))
     else uint (plane_base_id dev p) - uint (plane_base_id dev q))"
  using assms by (simp add: drm_atomic_state_zpos_cmp_def zpos_small_def Let_def sint_diff_uint word_uint_eq_iff)

interpretation zpos_order: comparison "zpos_small dev states" "drm_atomic_state_zpos_cmp dev states" for dev states
  by unfold_locales (auto simp: zpos_cmp_small sgn_if split: if_splits)

text \<open>Getting the planes does not change which states count.\<close>

lemma get_plane_adds:
  "drm_atomic_get_plane_state env dev st p = (None, st') \<Longrightarrow> as_planes st' = (as_planes st)(p \<mapsto> plane_of dev st p)"
  by (auto simp: drm_atomic_get_plane_state_def drm_atomic_helper_plane_duplicate_state_def plane_of_def Let_def fun_upd_idem
      split: option.splits if_splits dest: get_crtc_cases)

lemma get_plane_states_adds:
  "get_plane_states env dev ps st = (None, st') \<Longrightarrow>
    as_planes st' q = (if q \<in> set ps then Some (plane_of dev st q) else as_planes st q)"
proof (induction ps arbitrary: st)
  case (Cons p ps)
  then obtain st1 where st1: "drm_atomic_get_plane_state env dev st p = (None, st1)" "get_plane_states env dev ps st1 = (None, st')"
    by (auto split: prod.splits option.splits)
  from Cons.IH [OF st1(2)] show ?case using get_plane_adds [OF st1(1)] by (auto simp: plane_of_def)
qed simp

lemma zpos_assign_other: "p \<notin> set ys \<Longrightarrow> as_planes (zpos_assign i ys st) p = as_planes st p"
  by (induction i ys st rule: zpos_assign.induct) auto

lemma zpos_assign_nth:
  "distinct ys \<Longrightarrow> j < length ys \<Longrightarrow> as_planes (zpos_assign i ys st) (ys ! j) =
    map_option (\<lambda>ps. ps\<lparr>pl_normalized_zpos := of_nat (i + j)\<rparr>) (as_planes st (ys ! j))"
proof (induction i ys st arbitrary: j rule: zpos_assign.induct)
  case (2 i y ys st)
  show ?case
  proof (cases j)
    case 0
    with 2(2) show ?thesis by (simp add: zpos_assign_other)
  next
    case (Suc k)
    with 2 show ?thesis by (auto simp: nth_mem)
  qed
qed simp

text \<open>The order of the planes on a CRTC: by position, then by identifier.\<close>

definition plane_below :: "drm_atomic_device \<Rightarrow> drm_atomic_state \<Rightarrow> nat \<Rightarrow> nat \<Rightarrow> bool" where
  "plane_below dev st p q \<longleftrightarrow> pl_zpos (plane_of dev st p) < pl_zpos (plane_of dev st q) \<or>
     pl_zpos (plane_of dev st p) = pl_zpos (plane_of dev st q) \<and> plane_base_id dev p < plane_base_id dev q"

text \<open>The ranks of the planes in a sorted list.\<close>

lemma sorted_ranks:
  assumes "sorted_wrt (\<lambda>p q. \<not> below q p) ys" and "distinct ys"
    and total: "\<And>p q. p \<in> set ys \<Longrightarrow> q \<in> set ys \<Longrightarrow> p \<noteq> q \<Longrightarrow> \<not> below q p \<Longrightarrow> below p q" and irrefl: "\<And>p. \<not> below p p"
    and rank: "\<And>i. i < length ys \<Longrightarrow> rank (ys ! i) = i"
  shows "rank ` set ys = {..<length ys} \<and> (\<forall>p\<in>set ys. \<forall>q\<in>set ys. rank p < rank q \<longleftrightarrow> below p q)"
proof (intro conjI ballI)
  show "rank ` set ys = {..<length ys}" using rank by (force simp: in_set_conv_nth image_iff)
  fix p q assume "p \<in> set ys" "q \<in> set ys"
  then obtain i j where ij: "p = ys ! i" "i < length ys" "q = ys ! j" "j < length ys" by (auto simp: in_set_conv_nth)
  have r: "rank p = i" "rank q = j" unfolding ij(1,3) using rank [OF ij(2)] rank [OF ij(4)] .
  consider "i < j" | "i = j" | "j < i" by linarith
  then show "rank p < rank q \<longleftrightarrow> below p q"
  proof cases
    case 1
    have "\<not> below q p" unfolding ij(1,3) using sorted_wrt_nth_less [OF assms(1) 1 ij(4)] .
    moreover have "p \<noteq> q" using 1 ij assms(2) by (simp add: nth_eq_iff_index_eq)
    ultimately have "below p q" using total \<open>p \<in> set ys\<close> \<open>q \<in> set ys\<close> by blast
    with 1 r show ?thesis by simp
  next
    case 3
    have "\<not> below p q" unfolding ij(1,3) using sorted_wrt_nth_less [OF assms(1) 3 ij(2)] .
    with 3 r show ?thesis by simp
  next
    case 2
    then show ?thesis using ij irrefl by simp
  qed
qed

text \<open>With fewer than seven planes the sort does not need the function that exchanges blocks.\<close>

lemma zpos_sorted:
  assumes "length ps < 7" and "set ps \<subseteq> zpos_small dev states"
  obtains ys where "linux_sort (drm_atomic_state_zpos_cmp dev states) qsort None ps = Some ys" "mset ys = mset ps"
    "sorted_wrt (\<lambda>p q. drm_atomic_state_zpos_cmp dev states p q \<le> 0) ys"
  using zpos_order.insertion_sorted [OF assms(2)] assms(1)
  by (simp add: linux_sort_def qsort_round_def
      qsort_loop.simps [of "drm_atomic_state_zpos_cmp dev states" qsort None "length ps" ps])

lemma zpos_cmp_below:
  assumes "states p = Some (plane_of dev st p)" "states q = Some (plane_of dev st q)"
    and "p \<in> zpos_small dev states" "q \<in> zpos_small dev states"
  shows "drm_atomic_state_zpos_cmp dev states p q \<le> 0 \<longleftrightarrow> \<not> plane_below dev st q p"
  using assms(1,2) unfolding zpos_cmp_small [OF assms(3,4)] plane_below_def by (auto simp: word_less_def word_uint_eq_iff)

text \<open>
  C22. The normalisation gives the planes of a CRTC the positions from zero to their number minus one, ordered by
  their positions and then by their identifiers, also those that were not part of the update before. It does not
  crash. This holds for fewer than seven planes, and for positions and identifiers whose differences are
  representable.
\<close>

theorem normalize_zpos_order:
  assumes n: "num_total_plane dev \<le> 32" and cs: "as_crtcs st c = Some cs"
    and S: "S = {p. p < num_total_plane dev \<and> bit (cs_plane_mask cs) p}" and few: "card S < 7"
    and small: "\<forall>p\<in>S. uint (pl_zpos (plane_of dev st p)) < 2 ^ 31 \<and> uint (plane_base_id dev p) < 2 ^ 31"
    and ids: "inj_on (plane_base_id dev) S"
  shows "\<exists>ret st'. drm_atomic_helper_crtc_normalize_zpos qsort env dev st c = Some (ret, st') \<and>
    (ret \<noteq> None \<or>
      (\<lambda>p. unat (pl_normalized_zpos (plane_of dev st' p))) ` S = {..<card S} \<and>
      (\<forall>p\<in>S. \<forall>q\<in>S. unat (pl_normalized_zpos (plane_of dev st' p)) < unat (pl_normalized_zpos (plane_of dev st' q)) \<longleftrightarrow>
        plane_below dev st p q))"
proof (cases "env_kmalloc env c")
  case False
  with cs show ?thesis by (simp add: drm_atomic_helper_crtc_normalize_zpos_def)
next
  case True
  define ps where "ps = mask_indices (num_total_plane dev) (cs_plane_mask cs)"
  have ps: "set ps = S" "distinct ps" unfolding ps_def S by (rule mask_indices_set [OF n])+
  then have len: "length ps = card S" by (metis distinct_card)
  obtain r st1 where st1: "get_plane_states env dev ps st = (r, st1)" by fastforce
  show ?thesis
  proof (cases r)
    case (Some e)
    with st1 True cs show ?thesis by (simp add: drm_atomic_helper_crtc_normalize_zpos_def ps_def)
  next
    case None
    let ?cmp = "drm_atomic_state_zpos_cmp dev (as_planes st1)"
    have planes: "as_planes st1 p = Some (plane_of dev st p)" if "p \<in> S" for p
      using get_plane_states_adds [of env dev ps st st1 p] st1 None that ps(1) by simp
    have sub: "S \<subseteq> zpos_small dev (as_planes st1)" using small planes by (auto simp: zpos_small_def)
    obtain ys where ys: "linux_sort ?cmp (qsort ?cmp) None ps = Some ys" "mset ys = mset ps" "sorted_wrt (\<lambda>p q. ?cmp p q \<le> 0) ys"
      using zpos_sorted [of ps dev "as_planes st1" "qsort ?cmp"] few len sub ps(1) by auto
    have set: "set ys = S" "distinct ys" "length ys = card S"
      using ys(2) ps len mset_eq_setD [OF ys(2)] mset_eq_imp_distinct_iff [OF ys(2)] mset_eq_length [OF ys(2)] by simp_all
    define st' where "st' = crtc_update c (\<lambda>cs. cs\<lparr>cs_zpos_changed := True\<rparr>) (zpos_assign 0 ys st1)"
    have "drm_atomic_helper_crtc_normalize_zpos qsort env dev st c = Some (None, st')"
      using cs True st1 None ys(1) by (simp add: drm_atomic_helper_crtc_normalize_zpos_def ps_def st'_def Let_def)
    moreover have rank: "unat (pl_normalized_zpos (plane_of dev st' (ys ! i))) = i" if "i < length ys" for i
    proof -
      have "ys ! i \<in> S" using that set(1) by auto
      then have "plane_of dev st' (ys ! i) = (plane_of dev st (ys ! i))\<lparr>pl_normalized_zpos := of_nat i\<rparr>"
        using zpos_assign_nth [OF set(2) that, of 0 st1] planes by (simp add: st'_def plane_of_def)
      then show ?thesis using that few set(3) by (simp add: unat_of_nat take_bit_eq_mod)
    qed
    have srt: "sorted_wrt (\<lambda>p q. \<not> plane_below dev st q p) ys"
      by (rule sorted_wrt_mono_rel [OF _ ys(3)]) (use set(1) sub planes zpos_cmp_below in blast)
    have tot: "plane_below dev st p q" if "p \<in> set ys" "q \<in> set ys" "p \<noteq> q" "\<not> plane_below dev st q p" for p q
    proof -
      have "plane_base_id dev p \<noteq> plane_base_id dev q" using that(1-3) set(1) inj_onD [OF ids] by blast
      with that(4) show ?thesis by (auto simp: plane_below_def)
    qed
    have irr: "\<not> plane_below dev st p p" for p by (simp add: plane_below_def)
    from sorted_ranks [OF srt set(2) tot irr rank] calculation show ?thesis unfolding set by blast
  qed
qed

text \<open>Three planes on one CRTC; plane 0 is above the other two, which have the same position.\<close>

definition stacked_device :: drm_atomic_device where
  "stacked_device = example_device\<lparr>num_total_plane := 3, crtc_current := \<lambda>c. example_crtc (if c = 0 then 7 else 0),
     plane_current := \<lambda>p. example_plane (if p < 3 then Some 0 else None) (if p = 0 then 5 else 1)\<rparr>"

definition stacked_update :: drm_atomic_state where
  "stacked_update = drm_atomic_state_init\<lparr>as_crtcs := [0 \<mapsto> example_crtc 7]\<rparr>"

theorem normalize_zpos_order_witness:
  "\<exists>st'. drm_atomic_helper_crtc_normalize_zpos (\<lambda>cmp xs. xs) example_env stacked_device stacked_update 0 = Some (None, st') \<and>
    (\<lambda>p. unat (pl_normalized_zpos (plane_of stacked_device st' p))) ` {0, 1, 2} = {..<3} \<and>
    unat (pl_normalized_zpos (plane_of stacked_device st' 1)) < unat (pl_normalized_zpos (plane_of stacked_device st' 0)) \<and>
    unat (pl_normalized_zpos (plane_of stacked_device st' 1)) < unat (pl_normalized_zpos (plane_of stacked_device st' 2))"
proof -
  have S: "{0, 1, 2} = {p. p < num_total_plane stacked_device \<and> bit (cs_plane_mask (example_crtc 7)) p}"
    by (auto simp: stacked_device_def example_crtc_def less_Suc_eq numeral_3_eq_3 bit_numeral_rec(2))
  have u: "num_total_plane stacked_device = 3" "as_crtcs stacked_update 0 = Some (example_crtc 7)"
    by (simp_all add: stacked_device_def stacked_update_def)
  have z: "pl_zpos (plane_of stacked_device stacked_update p) = (if p = 0 then 5 else 1)"
    "plane_base_id stacked_device p = of_nat (30 + p)" for p
    by (simp_all add: plane_of_def stacked_update_def stacked_device_def drm_atomic_state_init_def example_plane_def example_device_def)
  have ret: "map_option fst (drm_atomic_helper_crtc_normalize_zpos (\<lambda>cmp xs. xs) example_env stacked_device stacked_update 0) = Some None"
    by code_simp
  have "\<exists>ret st'. drm_atomic_helper_crtc_normalize_zpos (\<lambda>cmp xs. xs) example_env stacked_device stacked_update 0 = Some (ret, st') \<and>
    (ret \<noteq> None \<or>
      (\<lambda>p. unat (pl_normalized_zpos (plane_of stacked_device st' p))) ` {0, 1, 2} = {..<card {0, 1, 2 :: nat}} \<and>
      (\<forall>p\<in>{0, 1, 2}. \<forall>q\<in>{0, 1, 2}. unat (pl_normalized_zpos (plane_of stacked_device st' p)) <
        unat (pl_normalized_zpos (plane_of stacked_device st' q)) \<longleftrightarrow> plane_below stacked_device stacked_update p q))"
    by (rule normalize_zpos_order [OF _ _ S]) (auto simp: z u inj_on_def)
  with ret show ?thesis by (auto simp: plane_below_def z)
qed

text \<open>Positions that differ by more than fits into an \<^verbatim>\<open>int\<close> are ordered the wrong way around.\<close>

lemma zpos_cmp_wraps:
  "drm_atomic_state_zpos_cmp example_device [0 \<mapsto> example_plane None 0, 1 \<mapsto> example_plane None 0x80000001] 0 1 > 0"
  by (simp add: drm_atomic_state_zpos_cmp_def example_plane_def)

end
