(* ===== verification/Spec2Isabelle.thy ===== *)
theory Spec2Isabelle
  imports Prelude RBTree IntervalTree Trees_Correct DrmMM DrmMM_Inv DrmMM_Ops DrmMM_Search DrmMM_Alloc
    DrmMM_More DrmMM_Correct HDMI HDMI_Correct VmaManager VmaManager_Correct Rect Rect_Correct
    Fourcc Fourcc_Table Fourcc_Correct Modes Modes_Correct
    Modes_User Modes_Cmdline Modes_Cvt
    Hashtab Hashtab_Correct Lock Lock_Correct Sort Sort_Correct Atomic Atomic_Correct Atomic_Check
begin

text \<open>
  A verification library for the kernel mode setting and graphics drivers of FreeBSD, the port of the Linux DRM
  subsystem and its drivers. It models the parts of the DRM core (\<^verbatim>\<open>src/drivers/gpu/drm\<close>) that manage addresses,
  names, display modes and updates, and the parts of the compatibility layer (\<^verbatim>\<open>src/linuxkpi\<close>) that they rest on.
  Every definition is a translation of the C code; the theorems are about these definitions.

  \<^bold>\<open>Conventions.\<close> Words of C are \<open>word\<close>s of their width (\<open>u8\<close>, \<open>u32\<close>, \<open>u64\<close>; \<open>s32\<close> is the same type read with
  \<open>sint\<close>), with the wrap-around of C. Errors are values of \<open>errno\<close>. Following a null pointer, dividing by zero or writing
  outside of a buffer is \<open>None\<close> where the code can do it. Functions that change a structure return the changed structure.
  What the code gets from elsewhere (hooks of a driver, the allocator of the kernel, locks, its library) is an argument.
  Theory \<open>Prelude\<close> has these types and the lemmas on words, lists and options that the components share.

  \<^bold>\<open>Trees.\<close> \<open>RBTree\<close> models \<^verbatim>\<open>linux_rbtree.c\<close> and \<^verbatim>\<open>rbtree_augmented.h\<close> on zippers: a position in a tree is a subtree and
  the path to it, as the code follows parent pointers. The loops of rebalancing are total functions. Locale \<open>rb_augmented\<close>
  is what an augmented tree promises. \<open>IntervalTree\<close> is the template \<^verbatim>\<open>interval_tree_generic.h\<close>, an interpretation of it.
  \<open>Trees_Correct\<close> has the properties: rebalancing after insertion and erasure, the loops over a tree, and the search for
  overlapping intervals.

  \<^bold>\<open>Range allocator.\<close> \<open>DrmMM\<close> models \<^verbatim>\<open>drm_mm.c\<close>: the list of nodes, the three trees of holes and nodes, allocation in four
  modes, reservation, removal, replacement and the eviction scan. \<open>DrmMM_Inv\<close> has the invariant and the locale
  \<open>ordered_index\<close> of the hole trees, \<open>DrmMM_Ops\<close> that the operations keep it, \<open>DrmMM_Search\<close> and \<open>DrmMM_Alloc\<close> that the search
  is exact, \<open>DrmMM_More\<close> the other operations, and \<open>DrmMM_Correct\<close> what callers may rely on. The walks over holes follow the
  trees, so they need no fuel.

  \<^bold>\<open>Offsets and access.\<close> \<open>VmaManager\<close> models \<^verbatim>\<open>drm_vma_manager.c\<close> on top of the allocator and a red-black tree of files. Locale
  \<open>offset_space\<close> is the interface; \<open>VmaManager_Correct\<close> interprets it and shows that lookups are exact and that the tree
  counts the grants of each file.

  \<^bold>\<open>Hash table.\<close> \<open>Hashtab\<close> and \<open>Hashtab_Correct\<close> model \<^verbatim>\<open>drm_hashtab.c\<close> and show that it is a map, for tables of 2 to 2 to
  the 31 chains; locale \<open>key_store\<close> carries the search for a free key of 1 to 32 bits. The loop of that search visits every
  key at most once, so that as much fuel as there are keys is enough. Shifts by distances that C leaves undefined are \<open>None\<close>.

  \<^bold>\<open>Infoframes.\<close> \<open>HDMI\<close> and \<open>HDMI_Correct\<close> model \<^verbatim>\<open>linux_hdmi.c\<close>: packing and unpacking, checksums, and memory safety.

  \<^bold>\<open>Rectangles, formats and framebuffers.\<close> \<open>Rect\<close> and \<open>Rect_Correct\<close> model \<^verbatim>\<open>drm_rect.c\<close>. \<open>Fourcc\<close>, \<open>Fourcc_Table\<close> and \<open>Fourcc_Correct\<close> model
  \<^verbatim>\<open>drm_fourcc.c\<close> and the framebuffer ioctls of \<^verbatim>\<open>drm_framebuffer.c\<close>, up to the point where the driver creates the object.

  \<^bold>\<open>Display modes.\<close> \<open>Modes\<close> models \<^verbatim>\<open>drm_modes.c\<close>. \<open>Modes_Correct\<close> is about lists of modes, \<open>Modes_User\<close> about modes of user space and
  the timings of the hardware, \<open>Modes_Cmdline\<close> about the parser of mode options, and \<open>Modes_Cvt\<close> about the timing formula.

  \<^bold>\<open>Hardware lock.\<close> \<open>Lock\<close> models \<^verbatim>\<open>drm_lock.c\<close>. In \<open>Lock_Correct\<close> its functions are cut at the points where they drop a lock
  and any number of clients and kernel threads take these steps in any order (\<open>lock_step\<close>). A client that does not get the lock
  sleeps until it is woken up or gets a signal. Two invariants of the reachable states show mutual exclusion and that no wake-up is
  lost; a ranking of the states shows that every waiting client is served (\<open>inevitable\<close>). The model of the lock ioctl alone runs
  over the list of what happens while the caller sleeps; how often it sleeps is not bounded by the code.

  \<^bold>\<open>Sort.\<close> \<open>Sort\<close> models \<^verbatim>\<open>linux_sort.c\<close>, the quick sort of the compatibility layer. \<open>Sort_Correct\<close> shows that it sorts, for every
  comparison that satisfies the locale \<open>comparison\<close>, and what happens with a null function for the exchange of blocks.

  \<^bold>\<open>Atomic updates.\<close> \<open>Atomic\<close> models how an update of the configuration is built, checked and committed (\<^verbatim>\<open>drm_atomic.c\<close>,
  \<^verbatim>\<open>drm_atomic_helper.c\<close>) and how the positions of planes are normalised (\<^verbatim>\<open>drm_blend.c\<close>). In \<open>Atomic_Correct\<close> the relation
  \<open>atomic_update\<close> is the sequence of calls that builds updates and commits them, with errors and with restarts; its invariant
  relates the masks of CRTCs with the links of planes and connectors. \<open>Atomic_Check\<close> puts the checks, the clipping of \<open>Rect\<close> and
  the sort of \<open>Sort\<close> together.

  \<^bold>\<open>Not modelled.\<close> The drivers for the hardware (i915, amdgpu, radeon, vmwgfx, vc4), the buffer manager TTM and the scheduler
  program devices, page tables and queues through registers, callbacks and memory that other agents change; their meaning is in the hardware,
  not in the code. The rest of the core creates, registers and counts objects in the registries of the kernel (properties,
  encoders, bridges, leases, files, sysfs and debugfs entries), forwards ioctls to hooks, or talks to displays
  through a bus. Functions that only print are left out everywhere. Memory ordering, reference counts and
  locking are not modelled, except in the hardware lock, where the interleaving is the point.
\<close>

end
